(* ===== verification/Go_Prelude.thy ===== *)
theory Go_Prelude
  imports Main "HOL-Library.Word"
begin

text \<open>
  What the components share: the outcomes of a Go call (a value, an error value, or a panic),
  the checked slice and index expressions of the language, byte strings, and the fixed-width
  encodings of \<^verbatim>\<open>encoding/binary\<close>.

  A Go function with results \<open>(T, error)\<close> becomes a function into \<open>T outcome\<close>:
  \<open>Ok v\<close> is a return with a nil error, \<open>Err e\<close> a return with the error \<open>e\<close>, and \<open>Panic p\<close> an
  unwinding panic. A panic value is kept as what it is in Go, either an \<open>error\<close> (\<open>PErr\<close>) or a
  plain string (\<open>PStr\<close>), because the recovery code of the repository tells the two apart with
  a type assertion.
\<close>

named_theorems outcome_simps \<open>rewriting of outcomes and their sequencing\<close>
named_theorems bytes_simps \<open>rewriting of byte strings and their encodings\<close>

subsection \<open>Errors, panics, outcomes\<close>

text \<open>An argument of a formatted error message.\<close>

datatype garg = AInt int | AStr string

text \<open>
  \<open>Errorf\<close> is \<^verbatim>\<open>fmt.Errorf\<close> (its format and its arguments), \<open>Sentinel\<close> a package-level error
  variable such as \<^verbatim>\<open>io.EOF\<close>, \<open>RuntimeError\<close> a run-time panic of the language, which is an
  \<open>error\<close> too.
\<close>

datatype gerr = Errorf string "garg list" | Sentinel string | RuntimeError string

datatype gpanic = PErr gerr | PStr string "garg list"

datatype 'a outcome = Ok 'a | Err gerr | Panic gpanic

abbreviation io_EOF :: gerr where
  "io_EOF \<equiv> Sentinel ''EOF''"

abbreviation index_panic :: "'a outcome" where
  "index_panic \<equiv> Panic (PErr (RuntimeError ''index out of range''))"

abbreviation slice_panic :: "'a outcome" where
  "slice_panic \<equiv> Panic (PErr (RuntimeError ''slice bounds out of range''))"

abbreviation divide_panic :: "'a outcome" where
  "divide_panic \<equiv> Panic (PErr (RuntimeError ''integer divide by zero''))"

abbreviation nil_panic :: "'a outcome" where
  "nil_panic \<equiv> Panic (PErr (RuntimeError ''nil pointer dereference''))"

abbreviation conversion_panic :: "'a outcome" where
  "conversion_panic \<equiv> Panic (PErr (RuntimeError ''interface conversion''))"

text \<open>Sequencing: an error return or a panic of the first part ends the whole.\<close>

fun obind :: "'a outcome \<Rightarrow> ('a \<Rightarrow> 'b outcome) \<Rightarrow> 'b outcome" where
  "obind (Ok a) f = f a"
| "obind (Err e) f = Err e"
| "obind (Panic p) f = Panic p"

text \<open>
  \<^verbatim>\<open>common.CheckError\<close>: the idiom \<^verbatim>\<open>v, err := f(); common.CheckError(err)\<close> turns an error
  return of \<open>f\<close> into a panic with that error.
\<close>

fun CheckError :: "'a outcome \<Rightarrow> 'a outcome" where
  "CheckError (Ok a) = Ok a"
| "CheckError (Err e) = Panic (PErr e)"
| "CheckError (Panic p) = Panic p"

fun is_ok :: "'a outcome \<Rightarrow> bool" where
  "is_ok (Ok a) = True"
| "is_ok _ = False"

fun panics :: "'a outcome \<Rightarrow> bool" where
  "panics (Panic p) = True"
| "panics _ = False"

lemma obind_eq_Ok [outcome_simps]: "obind m f = Ok b \<longleftrightarrow> (\<exists>a. m = Ok a \<and> f a = Ok b)"
  by (cases m) auto

lemma obind_eq_Err [outcome_simps]:
  "obind m f = Err e \<longleftrightarrow> m = Err e \<or> (\<exists>a. m = Ok a \<and> f a = Err e)"
  by (cases m) auto

lemma obind_eq_Panic [outcome_simps]:
  "obind m f = Panic p \<longleftrightarrow> m = Panic p \<or> (\<exists>a. m = Ok a \<and> f a = Panic p)"
  by (cases m) auto

lemma CheckError_eq_Ok [simp]: "CheckError m = Ok a \<longleftrightarrow> m = Ok a"
  by (cases m) auto

lemma CheckError_not_Err [simp]: "CheckError m \<noteq> Err e"
  by (cases m) auto

lemma is_ok_iff: "is_ok m \<longleftrightarrow> (\<exists>a. m = Ok a)"
  by (cases m) auto

lemma obind_assoc [outcome_simps]: "obind (obind m f) g = obind m (\<lambda>x. obind (f x) g)"
  by (cases m) auto

subsection \<open>Index and slice expressions\<close>

text \<open>
  \<open>xs[i]\<close>, \<open>xs[:n]\<close>, \<open>xs[n:]\<close> on a slice whose capacity is its length. Out of range, the
  language panics with a run-time error.
\<close>

definition go_index :: "'a list \<Rightarrow> nat \<Rightarrow> 'a outcome" where
  "go_index xs i = (if i < length xs then Ok (xs ! i) else index_panic)"

definition slice_to :: "nat \<Rightarrow> 'a list \<Rightarrow> 'a list outcome" where
  "slice_to n xs = (if n \<le> length xs then Ok (take n xs) else slice_panic)"

definition slice_from :: "nat \<Rightarrow> 'a list \<Rightarrow> 'a list outcome" where
  "slice_from n xs = (if n \<le> length xs then Ok (drop n xs) else slice_panic)"

lemma go_index_Ok [outcome_simps]: "go_index xs i = Ok x \<longleftrightarrow> i < length xs \<and> x = xs ! i"
  by (auto simp: go_index_def)

lemma slice_to_Ok [outcome_simps]: "slice_to n xs = Ok ys \<longleftrightarrow> n \<le> length xs \<and> ys = take n xs"
  by (auto simp: slice_to_def)

lemma slice_from_Ok [outcome_simps]: "slice_from n xs = Ok ys \<longleftrightarrow> n \<le> length xs \<and> ys = drop n xs"
  by (auto simp: slice_from_def)

subsection \<open>Bytes\<close>

type_synonym byte = "8 word"
type_synonym bytes = "8 word list"

text \<open>The conversions \<^verbatim>\<open>[]byte(s)\<close> and \<^verbatim>\<open>string(b)\<close>: a Go string is a sequence of bytes.\<close>

definition bytes_of_string :: "string \<Rightarrow> bytes" where
  "bytes_of_string s = map of_char s"

definition string_of_bytes :: "bytes \<Rightarrow> string" where
  "string_of_bytes b = map (\<lambda>x. char_of (unat x)) b"

lemma byte_less_256 [simp]: "unat (b :: byte) < 256"
  using unsigned_less [of b, where ?'a = nat] by simp

lemma unat_of_nat_byte [bytes_simps]: "unat (of_nat x :: byte) = x mod 256"
  by (simp add: unat_of_nat)

lemma unat_of_char [bytes_simps]: "unat (of_char c :: byte) = of_char c"
proof -
  have "unat (of_nat (of_char c) :: byte) = of_char c"
    by (simp only: unat_of_nat_byte of_char_mod_256)
  then show ?thesis by (simp only: of_nat_of_char)
qed

lemma string_of_bytes_of_string [simp]: "string_of_bytes (bytes_of_string s) = s"
  by (simp add: string_of_bytes_def bytes_of_string_def unat_of_char o_def)

lemma of_char_char_of_unat: "(of_char (char_of (unat x)) :: byte) = x"
  by (simp add: word_unat_eq_iff unat_of_char)

lemma bytes_of_string_of_bytes [simp]: "bytes_of_string (string_of_bytes b) = b"
  by (simp add: string_of_bytes_def bytes_of_string_def o_def of_char_char_of_unat)

lemma length_bytes_of_string [simp]: "length (bytes_of_string s) = length s"
  by (simp add: bytes_of_string_def)

lemma length_string_of_bytes [simp]: "length (string_of_bytes b) = length b"
  by (simp add: string_of_bytes_def)

lemma bytes_of_string_append [simp]:
  "bytes_of_string (s @ t) = bytes_of_string s @ bytes_of_string t"
  by (simp add: bytes_of_string_def)

lemma string_of_bytes_append [simp]:
  "string_of_bytes (a @ b) = string_of_bytes a @ string_of_bytes b"
  by (simp add: string_of_bytes_def)

lemma string_of_bytes_inject [simp]: "string_of_bytes a = string_of_bytes b \<longleftrightarrow> a = b"
  by (metis bytes_of_string_of_bytes)

subsection \<open>Little- and big-endian encodings\<close>

text \<open>
  \<open>le_enc n x\<close> is the \<open>n\<close> bytes that \<^verbatim>\<open>binary.LittleEndian\<close> writes for \<open>x\<close> (each byte is the
  truncating conversion of the language); \<open>le_dec\<close> reads them back.
\<close>

primrec le_enc :: "nat \<Rightarrow> nat \<Rightarrow> bytes" where
  "le_enc 0 x = []"
| "le_enc (Suc n) x = of_nat x # le_enc n (x div 256)"

primrec le_dec :: "bytes \<Rightarrow> nat" where
  "le_dec [] = 0"
| "le_dec (b # bs) = unat b + 256 * le_dec bs"

definition be_dec :: "bytes \<Rightarrow> nat" where
  "be_dec bs = le_dec (rev bs)"

lemma length_le_enc [simp]: "length (le_enc n x) = n"
  by (induction n arbitrary: x) auto

lemma le_dec_le_enc [bytes_simps]: "le_dec (le_enc n x) = x mod 256 ^ n"
proof (induction n arbitrary: x)
  case (Suc n)
  have "x mod 256 + 256 * (x div 256 mod 256 ^ n) = x mod (256 * 256 ^ n)"
    by (simp add: mod_mult2_eq)
  then show ?case by (simp add: Suc unat_of_nat_byte)
qed simp

lemma le_dec_bound: "le_dec bs < 256 ^ length bs"
proof (induction bs)
  case (Cons b bs)
  have "unat b + 256 * le_dec bs < 256 + 256 * le_dec bs"
    by simp
  also have "\<dots> = 256 * Suc (le_dec bs)" by simp
  also have "\<dots> \<le> 256 * 256 ^ length bs" using Cons by (intro mult_le_mono2 Suc_leI)
  finally show ?case by simp
qed simp

lemma le_enc_le_dec [bytes_simps]: "le_enc (length bs) (le_dec bs) = bs"
proof (induction bs)
  case (Cons b bs)
  have "(of_nat (unat b + 256 * le_dec bs) :: byte) = b"
    by (simp only: word_unat_eq_iff unat_of_nat_byte) simp
  with Cons show ?case by simp
qed simp

subsection \<open>Splitting into chunks\<close>

text \<open>The pieces of length \<open>n\<close> of a list, the last one possibly shorter.\<close>

function chunks :: "nat \<Rightarrow> 'a list \<Rightarrow> 'a list list" where
  "chunks n xs = (if n = 0 \<or> xs = [] then [] else take n xs # chunks n (drop n xs))"
  by pat_completeness auto
termination by (relation "measure (\<lambda>(n, xs). length xs)") auto

declare chunks.simps [simp del]

lemma chunks_Nil [simp]: "chunks n [] = []"
  by (simp add: chunks.simps)

lemma chunks_rec: "0 < n \<Longrightarrow> xs \<noteq> [] \<Longrightarrow> chunks n xs = take n xs # chunks n (drop n xs)"
  by (subst chunks.simps) simp

lemma concat_chunks: "0 < n \<Longrightarrow> concat (chunks n xs) = xs"
proof (induction n xs rule: chunks.induct)
  case (1 n xs)
  then show ?case by (cases "xs = []") (auto simp: chunks_rec)
qed

lemma chunks_lengths:
  "0 < n \<Longrightarrow> length xs mod n = 0 \<Longrightarrow> x \<in> set (chunks n xs) \<Longrightarrow> length x = n"
proof (induction n xs rule: chunks.induct)
  case (1 n xs)
  show ?case
  proof (cases "xs = []")
    case False
    then have "n \<le> length xs" using "1.prems"
      by (metis dvd_imp_le length_greater_0_conv mod_eq_0_iff_dvd)
    with "1.prems" False "1.IH" show ?thesis
      by (auto simp: chunks_rec mod_eq_0_iff_dvd)
  qed (use "1.prems" in simp)
qed

subsection \<open>Positions in a list without duplicates\<close>

lemma takeWhile_distinct:
  "distinct xs \<Longrightarrow> i < length xs \<Longrightarrow> length (takeWhile (\<lambda>z. z \<noteq> xs ! i) xs) = i"
proof (induction xs arbitrary: i)
  case (Cons x xs)
  show ?case
  proof (cases i)
    case (Suc j)
    then have "x \<noteq> xs ! j" using Cons.prems by auto
    with Suc Cons show ?thesis by simp
  qed simp
qed simp

end
