(* ===== verification/Std_Bufio.thy ===== *)
theory Std_Bufio
  imports Go_Prelude
begin

text \<open>
  \<^verbatim>\<open>bufio.Reader\<close> as the repository uses it. A reader is the bytes its connection will still
  deliver, the error that follows them, and the size of the buffer. \<open>Peek\<close> waits until enough
  bytes are there, the buffer is full or the connection fails, so its result does not depend on
  how the bytes arrive in pieces.
\<close>

record reader =
  rd_data :: bytes
  rd_err :: gerr
  rd_size :: nat

abbreviation ErrBufferFull :: gerr where
  "ErrBufferFull \<equiv> Sentinel ''bufio: buffer full''"

definition rd_ok :: "reader \<Rightarrow> bool" where
  "rd_ok rd \<longleftrightarrow> 16 \<le> rd_size rd \<and> rd_err rd \<noteq> ErrBufferFull"

definition Peek :: "reader \<Rightarrow> nat \<Rightarrow> bytes \<times> gerr option" where
  "Peek rd n =
     (if rd_size rd < n then (take (rd_size rd) (rd_data rd), Some ErrBufferFull)
      else if n \<le> length (rd_data rd) then (take n (rd_data rd), None)
      else (rd_data rd, Some (rd_err rd)))"

definition Discard :: "reader \<Rightarrow> nat \<Rightarrow> reader" where
  "Discard rd n = rd\<lparr>rd_data := drop n (rd_data rd)\<rparr>"

text \<open>
  \<open>ReadLine\<close>: a line without its end, and whether more of it follows because the buffer was
  full. A trailing carriage return at the end of a full buffer is put back. At the end of the
  stream the last, unterminated line is returned without an error.
\<close>

definition LF :: byte where "LF = 10"
definition CR :: byte where "CR = 13"

definition chop_cr :: "bytes \<Rightarrow> bytes" where
  "chop_cr l = (if l \<noteq> [] \<and> last l = CR then butlast l else l)"

definition ReadLine :: "reader \<Rightarrow> (bytes \<times> bool \<times> reader) outcome" where
  "ReadLine rd =
     (let buf = take (rd_size rd) (rd_data rd) in
      if LF \<in> set buf
      then (let l = takeWhile (\<lambda>b. b \<noteq> LF) buf in Ok (chop_cr l, False, Discard rd (length l + 1)))
      else if rd_size rd \<le> length (rd_data rd)
      then (let l = chop_cr buf in Ok (l, True, Discard rd (length l)))
      else if rd_data rd = [] then Err (rd_err rd)
      else Ok (rd_data rd, False, Discard rd (length (rd_data rd))))"

lemma Discard_sel [simp]:
  "rd_data (Discard rd n) = drop n (rd_data rd)" "rd_err (Discard rd n) = rd_err rd"
  "rd_size (Discard rd n) = rd_size rd"
  by (simp_all add: Discard_def)

lemma rd_ok_Discard [simp]: "rd_ok (Discard rd n) = rd_ok rd"
  by (simp add: rd_ok_def)

lemma Discard_Discard [simp]: "Discard (Discard rd m) n = Discard rd (m + n)"
  by (simp add: Discard_def add.commute)

lemma Discard_0 [simp]: "Discard rd 0 = rd"
  by (simp add: Discard_def)

end
