(* ===== verification/Cipher_Pad.thy ===== *)
theory Cipher_Pad
  imports Go_Prelude
begin

text \<open>
  \<^verbatim>\<open>cipher2/pad.go\<close>: zero padding and PKCS#7 padding. The block length is a Go \<open>int\<close> and may
  be zero or negative, which both routines reject. \<open>byte(padlen)\<close> truncates, so a block length
  above 255 can produce a padding whose last byte is not its length; the round-trip theorem
  says exactly when that happens.
\<close>

subsection \<open>The operations\<close>

abbreviation invalid_blocklen :: "int \<Rightarrow> 'a outcome" where
  "invalid_blocklen n \<equiv> Err (Errorf ''invalid blocklen %d'' [AInt n])"

definition ZeroPad :: "bytes \<Rightarrow> int \<Rightarrow> bytes outcome" where
  "ZeroPad data blocklen =
     (if blocklen \<le> 0 then invalid_blocklen blocklen
      else let padlen = length data mod nat blocklen in
        if padlen = 0 then Ok data
        else Ok (data @ replicate (nat blocklen - padlen) 0))"

text \<open>
  The search loop of \<open>Pkcs7Pad\<close>: \<open>padlen\<close> grows until \<open>len + padlen\<close> is a multiple of the block
  length. The caller has checked \<open>0 < blocklen\<close>; the guard repeats it so that the recursion is
  well founded.
\<close>

function pkcs7_padlen :: "nat \<Rightarrow> nat \<Rightarrow> nat \<Rightarrow> nat" where
  "pkcs7_padlen len blocklen padlen =
     (if 0 < blocklen \<and> (len + padlen) mod blocklen \<noteq> 0
      then pkcs7_padlen len blocklen (padlen + 1) else padlen)"
  by pat_completeness auto
termination
  by (relation "measure (\<lambda>(len, blocklen, padlen).
        if (len + padlen) mod blocklen = 0 then 0 else blocklen - (len + padlen) mod blocklen)")
     (auto simp: mod_Suc intro!: diff_less_mono2)

declare pkcs7_padlen.simps [simp del]

definition Pkcs7Pad :: "bytes \<Rightarrow> int \<Rightarrow> bytes outcome" where
  "Pkcs7Pad data blocklen =
     (if blocklen \<le> 0 then invalid_blocklen blocklen
      else let padlen = pkcs7_padlen (length data) (nat blocklen) 1 in
        Ok (data @ replicate padlen (of_nat padlen)))"

definition Pkcs7Unpad :: "bytes \<Rightarrow> int \<Rightarrow> bytes outcome" where
  "Pkcs7Unpad data blocklen =
     (if blocklen \<le> 0 then invalid_blocklen blocklen
      else if length data mod nat blocklen \<noteq> 0 \<or> length data = 0
      then Err (Errorf ''invalid data len %d'' [AInt (int (length data))])
      else obind (go_index data (length data - 1)) (\<lambda>lastb.
        let padlen = unat lastb in
        if int padlen > blocklen \<or> padlen = 0 then Err (Errorf ''invalid padding'' [])
        else if padlen > length data then slice_panic
        else let pad = drop (length data - padlen) data in
          if list_all (\<lambda>x. x = of_nat padlen) pad
          then slice_to (length data - padlen) data
          else Err (Errorf ''invalid padding %d'' [AInt (int padlen)])))"

subsection \<open>The padding length\<close>

lemma pkcs7_padlen_multiple:
  "0 < b \<Longrightarrow> (len + pkcs7_padlen len b p) mod b = 0"
proof (induction len b p rule: pkcs7_padlen.induct)
  case (1 len b p)
  then show ?case by (cases "(len + p) mod b = 0") (auto simp: pkcs7_padlen.simps [of len b p])
qed

lemma pkcs7_padlen_least:
  "p \<le> q \<Longrightarrow> (len + q) mod b = 0 \<Longrightarrow> p \<le> pkcs7_padlen len b p \<and> pkcs7_padlen len b p \<le> q"
proof (induction len b p rule: pkcs7_padlen.induct)
  case (1 len b p)
  show ?case
  proof (cases "0 < b \<and> (len + p) mod b \<noteq> 0")
    case True
    with "1.prems" have "p + 1 \<le> q" by (cases "p = q") auto
    with "1.IH" [OF True] "1.prems" True show ?thesis
      by (auto simp: pkcs7_padlen.simps [of len b p])
  next
    case False
    with "1.prems" show ?thesis by (auto simp: pkcs7_padlen.simps [of len b p])
  qed
qed

lemma pkcs7_padlen_unique:
  assumes "0 < b" and "0 < p" "p \<le> b" and "(len + p) mod b = 0"
  shows "pkcs7_padlen len b 1 = p"
proof -
  let ?q = "pkcs7_padlen len b 1"
  have q: "1 \<le> ?q" "?q \<le> p" using pkcs7_padlen_least [OF _ assms(4), of 1] assms(2) by auto
  have "b dvd (len + p) - (len + ?q)"
    using pkcs7_padlen_multiple [OF assms(1)] assms(4) by (intro dvd_diff_nat) auto
  then have "b dvd p - ?q" using q by simp
  moreover have "p - ?q < b" using q assms(2,3) by linarith
  ultimately show ?thesis using q by (auto dest: nat_dvd_not_less)
qed

lemma pkcs7_padlen_eq:
  assumes "0 < b"
  shows "pkcs7_padlen len b 1 = b - len mod b"
proof (rule pkcs7_padlen_unique [OF assms])
  show "0 < b - len mod b" "b - len mod b \<le> b" using assms by auto
  have "(len + (b - len mod b)) mod b = (len mod b + (b - len mod b)) mod b"
    by (simp add: mod_add_left_eq)
  then show "(len + (b - len mod b)) mod b = 0" using assms by simp
qed

lemma Pkcs7Pad_Ok:
  assumes "0 < b"
  shows "Pkcs7Pad data b =
     Ok (data @ replicate (nat b - length data mod nat b) (of_nat (nat b - length data mod nat b)))"
proof -
  have "pkcs7_padlen (length data) (nat b) 1 = nat b - length data mod nat b"
    using assms by (intro pkcs7_padlen_eq) simp
  with assms show ?thesis by (simp only: Pkcs7Pad_def Let_def not_le [symmetric] if_False)
qed

subsection \<open>What unpadding accepts\<close>

lemma constant_suffix:
  assumes "list_all (\<lambda>x. x = c) (drop (length data - p) data)" and "p \<le> length data"
  shows "take (length data - p) data @ replicate p c = data"
proof -
  have "drop (length data - p) data = replicate p c"
    using assms by (intro replicate_eqI) (auto simp: list_all_iff)
  then show ?thesis by (metis append_take_drop_id)
qed

lemma unat_of_nat_small [bytes_simps]: "p < 256 \<Longrightarrow> unat (of_nat p :: byte) = p"
  by (simp add: unat_of_nat_byte)

lemma Pkcs7Unpad_iff:
  "Pkcs7Unpad data b = Ok r \<longleftrightarrow>
     0 < b \<and> length data mod nat b = 0 \<and>
     (\<exists>p. 0 < p \<and> int p \<le> b \<and> p < 256 \<and> data = r @ replicate p (of_nat p))"
    (is "?L \<longleftrightarrow> ?R")
proof
  assume ?L
  then have b: "0 < b" and m: "length data mod nat b = 0" and ne: "data \<noteq> []"
    by (auto simp: Pkcs7Unpad_def split: if_splits)
  define p where "p = unat (last data)"
  have "go_index data (length data - 1) = Ok (last data)"
    using ne by (simp add: go_index_def last_conv_nth)
  with \<open>?L\<close> b m ne have
      "0 < p" "int p \<le> b" "p \<le> length data"
      "list_all (\<lambda>x. x = of_nat p) (drop (length data - p) data)"
      "r = take (length data - p) data"
    by (auto simp: Pkcs7Unpad_def Let_def p_def outcome_simps split: if_splits)
  moreover from this have "data = r @ replicate p (of_nat p)"
    by (simp only: constant_suffix)
  moreover have "p < 256" by (simp add: p_def)
  ultimately show ?R using b m by blast
next
  assume ?R
  then obtain p where b: "0 < b" and m: "length data mod nat b = 0"
    and p: "0 < p" "int p \<le> b" "p < 256" and d: "data = r @ replicate p (of_nat p)" by metis
  have ix: "go_index data (length data - 1) = Ok (of_nat p)"
    using p(1) by (auto simp: go_index_def d nth_append)
  have dr: "drop (length data - p) data = replicate p (of_nat p)"
    and tk: "slice_to (length data - p) data = Ok r"
    and le: "p \<le> length data" and ne: "length data \<noteq> 0"
    using p(1) by (auto simp: d slice_to_def)
  have "list_all (\<lambda>x. x = of_nat p) (drop (length data - p) data)"
    unfolding dr by (simp add: list_all_iff)
  with b m p tk le ne show ?L
    unfolding Pkcs7Unpad_def ix by (simp only: unat_of_nat_small [OF p(3)] Let_def obind.simps) simp
qed

lemma Pkcs7Unpad_total: "\<not> panics (Pkcs7Unpad data b)"
proof (cases "0 < b \<and> length data mod nat b = 0 \<and> data \<noteq> []")
  case True
  then have "nat b \<le> length data" by (metis dvd_imp_le length_greater_0_conv mod_eq_0_iff_dvd)
  then have "b < int (unat x)" if "length data < unat x" for x :: byte
    using that by linarith
  with True show ?thesis
    by (simp add: Pkcs7Unpad_def go_index_def slice_to_def Let_def del: of_nat_unat)
next
  case False
  then show ?thesis by (auto simp: Pkcs7Unpad_def)
qed

subsection \<open>The contract of a padding scheme\<close>

text \<open>
  What the ciphers rely on: for a supported block length, padding only appends, never nothing,
  reaches a multiple of the block length, and unpadding undoes it.
\<close>

locale padding =
  fixes pad :: "bytes \<Rightarrow> int \<Rightarrow> bytes outcome"
    and unpad :: "bytes \<Rightarrow> int \<Rightarrow> bytes outcome"
    and supported :: "int \<Rightarrow> bool"
  assumes supported_pos: "supported b \<Longrightarrow> 0 < b"
    and pad_appends: "supported b \<Longrightarrow> \<exists>p. p \<noteq> [] \<and> pad d b = Ok (d @ p)"
    and pad_multiple: "supported b \<Longrightarrow> pad d b = Ok e \<Longrightarrow> length e mod nat b = 0"
    and unpad_pad: "supported b \<Longrightarrow> pad d b = Ok e \<Longrightarrow> unpad e b = Ok d"
begin

lemma pad_inj: "supported b \<Longrightarrow> pad d b = Ok e \<Longrightarrow> pad d' b = Ok e \<Longrightarrow> d = d'"
  by (metis outcome.inject(1) unpad_pad)

lemma pad_grows: "supported b \<Longrightarrow> pad d b = Ok e \<Longrightarrow> length d < length e"
  using pad_appends [of b d] by auto

lemma pad_nonempty: "supported b \<Longrightarrow> pad d b = Ok e \<Longrightarrow> e \<noteq> []"
  using pad_grows [of b d e] by auto

end

definition pkcs7_supported :: "int \<Rightarrow> bool" where
  "pkcs7_supported b \<longleftrightarrow> 0 < b \<and> b < 256"

lemma Pkcs7Pad_multiple:
  assumes "0 < b" and "Pkcs7Pad d b = Ok e"
  shows "length e mod nat b = 0"
proof -
  have "length d mod nat b < nat b" using assms(1) by simp
  then have "length d + (nat b - length d mod nat b) = nat b * (length d div nat b) + nat b"
    using mult_div_mod_eq [of "nat b" "length d"] by linarith
  with assms show ?thesis by (auto simp: Pkcs7Pad_Ok)
qed

lemma Pkcs7Unpad_Pkcs7Pad:
  assumes "0 < b" and "nat b - length d mod nat b < 256" and "Pkcs7Pad d b = Ok e"
  shows "Pkcs7Unpad e b = Ok d"
  unfolding Pkcs7Unpad_iff using assms
  by (intro conjI exI [where x = "nat b - length d mod nat b"] Pkcs7Pad_multiple)
     (auto simp: Pkcs7Pad_Ok)

interpretation pkcs7: padding Pkcs7Pad Pkcs7Unpad pkcs7_supported
proof
  fix b :: int and d e :: bytes
  assume s: "pkcs7_supported b"
  then show "0 < b" by (simp add: pkcs7_supported_def)
  from s show "\<exists>p. p \<noteq> [] \<and> Pkcs7Pad d b = Ok (d @ p)"
    by (auto simp: pkcs7_supported_def Pkcs7Pad_Ok not_le)
  assume "Pkcs7Pad d b = Ok e"
  with s show "length e mod nat b = 0" "Pkcs7Unpad e b = Ok d"
    by (auto simp: pkcs7_supported_def intro: Pkcs7Pad_multiple Pkcs7Unpad_Pkcs7Pad)
qed

subsection \<open>Properties\<close>

text \<open>
  Padding and then unpadding gives the data back exactly when the padding is shorter than
  256 bytes, whatever the block length; padding itself always succeeds for a positive block
  length. In particular it fails for some data at every block length above 255, because the
  length byte wraps around.
\<close>

theorem pkcs7_roundtrip:
  assumes "0 < b"
  shows "\<exists>e. Pkcs7Pad d b = Ok e \<and>
           (Pkcs7Unpad e b = Ok d \<longleftrightarrow> nat b - length d mod nat b < 256)"
proof -
  obtain e where e: "Pkcs7Pad d b = Ok e" using Pkcs7Pad_Ok [OF assms] by blast
  have "nat b - length d mod nat b < 256" if "Pkcs7Unpad e b = Ok d"
    using that e unfolding Pkcs7Unpad_iff Pkcs7Pad_Ok [OF assms] by auto
  with e show ?thesis using Pkcs7Unpad_Pkcs7Pad [OF assms _ e] by blast
qed

theorem pkcs7_roundtrip_witness:
  "(0::int) < 16 \<and> (\<exists>e. Pkcs7Pad [1, 2, 3] 16 = Ok e \<and> Pkcs7Unpad e 16 = Ok [1, 2, 3])"
  using pkcs7_roundtrip [of 16 "[1, 2, 3]"] by simp

text \<open>
  C28: For every block length from 1 to 255 the strings that unpadding accepts are exactly the
  outputs of padding, with the data it returns: no other string unpads, and no two data pad to
  the same string.
\<close>

theorem pkcs7_unpad_exact:
  assumes "pkcs7_supported b"
  shows "Pkcs7Unpad e b = Ok d \<longleftrightarrow> Pkcs7Pad d b = Ok e"
proof
  assume "Pkcs7Unpad e b = Ok d"
  then obtain p where b: "0 < b" and m: "length e mod nat b = 0" and
    p: "0 < p" "int p \<le> b" and e: "e = d @ replicate p (of_nat p)"
    unfolding Pkcs7Unpad_iff by metis
  have "pkcs7_padlen (length d) (nat b) 1 = p"
    using b p m e by (intro pkcs7_padlen_unique) auto
  with b e show "Pkcs7Pad d b = Ok e" by (simp only: Pkcs7Pad_def Let_def not_le [symmetric] if_False)
next
  assume "Pkcs7Pad d b = Ok e"
  then show "Pkcs7Unpad e b = Ok d" by (rule pkcs7.unpad_pad [OF assms])
qed

theorem pkcs7_unpad_exact_witness:
  "pkcs7_supported 4 \<and> (Pkcs7Unpad [7, 3, 3, 3] 4 = Ok [7] \<longleftrightarrow> Pkcs7Pad [7] 4 = Ok [7, 3, 3, 3])"
  using pkcs7_unpad_exact [of 4 "[7, 3, 3, 3]" "[7]"] by (simp add: pkcs7_supported_def)

end
