(* ===== verification/Block_Modes.thy ===== *)
theory Block_Modes
  imports Cipher_Pad
begin

unbundle bit_operations_syntax

text \<open>
  The interfaces \<^verbatim>\<open>cipher.Block\<close> and \<^verbatim>\<open>cipher.BlockMode\<close> of the Go library as the repository
  uses them, as locales: a block cipher (\<open>block_cipher\<close>), a mode that works on whole blocks
  (\<open>block_mode\<close>) and a mode combined with a padding scheme (\<open>padded_mode\<close>). The chaining mode
  CBC of \<^verbatim>\<open>crypto/cipher\<close> is defined here; ECB is the repository's own and is in
  \<^verbatim>\<open>Cipher_Ecb\<close>.
\<close>

subsection \<open>Byte-wise exclusive or\<close>

definition xor_bytes :: "bytes \<Rightarrow> bytes \<Rightarrow> bytes" where
  "xor_bytes xs ys = map2 (XOR) xs ys"

lemma length_xor_bytes [simp]: "length (xor_bytes xs ys) = min (length xs) (length ys)"
  by (simp add: xor_bytes_def)

lemma xor_bytes_cancel: "length xs = length ys \<Longrightarrow> xor_bytes (xor_bytes xs ys) ys = xs"
  by (induction xs ys rule: list_induct2) (simp_all add: xor_bytes_def xor.assoc)

subsection \<open>Modes\<close>

text \<open>A function on blocks, applied block by block (electronic code book).\<close>

function ecb_map :: "(bytes \<Rightarrow> bytes) \<Rightarrow> nat \<Rightarrow> bytes \<Rightarrow> bytes" where
  "ecb_map f bs xs =
     (if bs = 0 \<or> xs = [] then [] else f (take bs xs) @ ecb_map f bs (drop bs xs))"
  by pat_completeness auto
termination by (relation "measure (\<lambda>(f, bs, xs). length xs)") auto

text \<open>Cipher block chaining, encryption and decryption.\<close>

function cbc_enc :: "(bytes \<Rightarrow> bytes) \<Rightarrow> nat \<Rightarrow> bytes \<Rightarrow> bytes \<Rightarrow> bytes" where
  "cbc_enc E bs iv xs =
     (if bs = 0 \<or> xs = [] then []
      else let c = E (xor_bytes (take bs xs) iv) in c @ cbc_enc E bs c (drop bs xs))"
  by pat_completeness auto
termination by (relation "measure (\<lambda>(E, bs, iv, xs). length xs)") auto

function cbc_dec :: "(bytes \<Rightarrow> bytes) \<Rightarrow> nat \<Rightarrow> bytes \<Rightarrow> bytes \<Rightarrow> bytes" where
  "cbc_dec D bs iv xs =
     (if bs = 0 \<or> xs = [] then []
      else let c = take bs xs in xor_bytes (D c) iv @ cbc_dec D bs c (drop bs xs))"
  by pat_completeness auto
termination by (relation "measure (\<lambda>(D, bs, iv, xs). length xs)") auto

declare ecb_map.simps [simp del] cbc_enc.simps [simp del] cbc_dec.simps [simp del]

lemma ecb_map_Nil [simp]: "ecb_map f bs [] = []"
  by (simp add: ecb_map.simps)

lemma cbc_enc_Nil [simp]: "cbc_enc E bs iv [] = []"
  by (simp add: cbc_enc.simps)

lemma cbc_dec_Nil [simp]: "cbc_dec D bs iv [] = []"
  by (simp add: cbc_dec.simps)

lemma ecb_map_block:
  "0 < bs \<Longrightarrow> length x = bs \<Longrightarrow> ecb_map f bs (x @ xs) = f x @ ecb_map f bs xs"
  by (subst ecb_map.simps) auto

lemma cbc_enc_block:
  "0 < bs \<Longrightarrow> length x = bs \<Longrightarrow>
   cbc_enc E bs iv (x @ xs) = E (xor_bytes x iv) @ cbc_enc E bs (E (xor_bytes x iv)) xs"
  by (subst cbc_enc.simps) (auto simp: Let_def)

lemma cbc_dec_block:
  "0 < bs \<Longrightarrow> length x = bs \<Longrightarrow>
   cbc_dec D bs iv (x @ xs) = xor_bytes (D x) iv @ cbc_dec D bs x xs"
  by (subst cbc_dec.simps) (auto simp: Let_def)

text \<open>Induction over the whole blocks of a string.\<close>

lemma blocks_induct [consumes 2, case_names Nil Block]:
  assumes bs: "0 < bs" and m: "length (xs :: 'a list) mod bs = 0"
    and base: "P []"
    and step: "\<And>x xs. length x = bs \<Longrightarrow> length xs mod bs = 0 \<Longrightarrow> P xs \<Longrightarrow> P (x @ xs)"
  shows "P xs"
  using m
proof (induction "length xs" arbitrary: xs rule: less_induct)
  case less
  show ?case
  proof (cases "xs = []")
    case False
    with less.prems bs have len: "bs \<le> length xs"
      by (metis dvd_imp_le length_greater_0_conv mod_eq_0_iff_dvd)
    then have "length (drop bs xs) mod bs = 0"
      using less.prems by (simp add: mod_eq_0_iff_dvd dvd_diff_nat)
    moreover from this have "P (drop bs xs)" using less.hyps [of "drop bs xs"] bs len by simp
    ultimately have "P (take bs xs @ drop bs xs)"
      using step [of "take bs xs" "drop bs xs"] len by auto
    then show ?thesis by simp
  qed (simp add: base)
qed

subsection \<open>The contracts\<close>

locale block_mode =
  fixes enc :: "bytes \<Rightarrow> bytes" and dec :: "bytes \<Rightarrow> bytes" and bsize :: nat
  assumes bsize_pos: "0 < bsize"
    and length_enc: "length xs mod bsize = 0 \<Longrightarrow> length (enc xs) = length xs"
    and dec_enc: "length xs mod bsize = 0 \<Longrightarrow> dec (enc xs) = xs"
begin

lemma enc_inj:
  "length xs mod bsize = 0 \<Longrightarrow> length ys mod bsize = 0 \<Longrightarrow> enc xs = enc ys \<Longrightarrow> xs = ys"
  by (metis dec_enc)

end

locale block_cipher =
  fixes E :: "bytes \<Rightarrow> bytes" and D :: "bytes \<Rightarrow> bytes" and bs :: nat
  assumes bs_pos: "0 < bs"
    and length_E: "length x = bs \<Longrightarrow> length (E x) = bs"
    and D_E: "length x = bs \<Longrightarrow> D (E x) = x"
begin

lemma ecb_length: "length xs mod bs = 0 \<Longrightarrow> length (ecb_map E bs xs) = length xs"
  using bs_pos by (induction rule: blocks_induct) (simp_all add: ecb_map_block length_E bs_pos)

lemma ecb_roundtrip: "length xs mod bs = 0 \<Longrightarrow> ecb_map D bs (ecb_map E bs xs) = xs"
  using bs_pos
  by (induction rule: blocks_induct) (simp_all add: ecb_map_block length_E D_E bs_pos)

lemma cbc_length:
  "length xs mod bs = 0 \<Longrightarrow> length iv = bs \<Longrightarrow> length (cbc_enc E bs iv xs) = length xs"
  using bs_pos
  by (induction arbitrary: iv rule: blocks_induct) (simp_all add: cbc_enc_block length_E bs_pos)

lemma cbc_roundtrip:
  "length xs mod bs = 0 \<Longrightarrow> length iv = bs \<Longrightarrow> cbc_dec D bs iv (cbc_enc E bs iv xs) = xs"
  using bs_pos
  by (induction arbitrary: iv rule: blocks_induct)
     (simp_all add: cbc_enc_block cbc_dec_block length_E D_E xor_bytes_cancel bs_pos)

end

sublocale block_cipher \<subseteq> ecb: block_mode "ecb_map E bs" "ecb_map D bs" bs
  by unfold_locales (simp_all add: bs_pos ecb_length ecb_roundtrip)

locale chained_cipher = block_cipher +
  fixes iv :: bytes
  assumes length_iv: "length iv = bs"

sublocale chained_cipher \<subseteq> cbc: block_mode "cbc_enc E bs iv" "cbc_dec D bs iv" bs
  by unfold_locales (simp_all add: bs_pos cbc_length cbc_roundtrip length_iv)

text \<open>A mode with a padding scheme takes data of any length.\<close>

locale padded_mode = block_mode + padding +
  assumes supported_bsize: "supported (int bsize)"
begin

lemma padded_length:
  assumes "pad d (int bsize) = Ok e"
  shows "length (enc e) = length e"
  using pad_multiple [OF supported_bsize assms] by (simp add: length_enc)

lemma padded_roundtrip:
  assumes "pad d (int bsize) = Ok e"
  shows "unpad (dec (enc e)) (int bsize) = Ok d"
  using pad_multiple [OF supported_bsize assms] unpad_pad [OF supported_bsize assms]
  by (simp add: dec_enc)

end

end
