(* ===== verification/Std_Aes.thy ===== *)
theory Std_Aes
  imports Block_Modes
begin

text \<open>
  The block cipher of \<^verbatim>\<open>crypto/aes\<close> (FIPS 197), which the repository only calls: the S-box, the
  round transformations on a 16-byte state, the key expansion for keys of 16, 24 and 32 bytes,
  and the proof that decryption inverts encryption. It makes \<open>aes_cipher\<close> an instance of the
  contract \<open>block_cipher\<close>, so that the ciphers of the repository are verified over the
  algorithm they run on and not over an assumption.
\<close>

subsection \<open>The S-box\<close>

definition sbox_table :: "nat list" where
  "sbox_table =
     [99, 124, 119, 123, 242, 107, 111, 197, 48, 1, 103, 43, 254, 215, 171, 118,
      202, 130, 201, 125, 250, 89, 71, 240, 173, 212, 162, 175, 156, 164, 114, 192,
      183, 253, 147, 38, 54, 63, 247, 204, 52, 165, 229, 241, 113, 216, 49, 21,
      4, 199, 35, 195, 24, 150, 5, 154, 7, 18, 128, 226, 235, 39, 178, 117,
      9, 131, 44, 26, 27, 110, 90, 160, 82, 59, 214, 179, 41, 227, 47, 132,
      83, 209, 0, 237, 32, 252, 177, 91, 106, 203, 190, 57, 74, 76, 88, 207,
      208, 239, 170, 251, 67, 77, 51, 133, 69, 249, 2, 127, 80, 60, 159, 168,
      81, 163, 64, 143, 146, 157, 56, 245, 188, 182, 218, 33, 16, 255, 243, 210,
      205, 12, 19, 236, 95, 151, 68, 23, 196, 167, 126, 61, 100, 93, 25, 115,
      96, 129, 79, 220, 34, 42, 144, 136, 70, 238, 184, 20, 222, 94, 11, 219,
      224, 50, 58, 10, 73, 6, 36, 92, 194, 211, 172, 98, 145, 149, 228, 121,
      231, 200, 55, 109, 141, 213, 78, 169, 108, 86, 244, 234, 101, 122, 174, 8,
      186, 120, 37, 46, 28, 166, 180, 198, 232, 221, 116, 31, 75, 189, 139, 138,
      112, 62, 181, 102, 72, 3, 246, 14, 97, 53, 87, 185, 134, 193, 29, 158,
      225, 248, 152, 17, 105, 217, 142, 148, 155, 30, 135, 233, 206, 85, 40, 223,
      140, 161, 137, 13, 191, 230, 66, 104, 65, 153, 45, 15, 176, 84, 187, 22]"

definition sbox :: "byte \<Rightarrow> byte" where
  "sbox x = of_nat (sbox_table ! unat x)"

text \<open>The inverse S-box: the position of a value in the table.\<close>

definition inv_sbox :: "byte \<Rightarrow> byte" where
  "inv_sbox y = of_nat (length (takeWhile (\<lambda>z. z \<noteq> unat y) sbox_table))"

lemma length_sbox_table: "length sbox_table = 256"
  by (simp add: sbox_table_def)

lemma distinct_sbox_table: "distinct sbox_table"
  by (simp add: sbox_table_def)

lemma sbox_table_range: "\<forall>z \<in> set sbox_table. z < 256"
  by (simp add: sbox_table_def)

lemma inv_sbox_sbox [simp]: "inv_sbox (sbox x) = x"
proof -
  have i: "unat x < length sbox_table" by (simp add: length_sbox_table)
  then have "sbox_table ! unat x < 256" using sbox_table_range by simp
  then have "unat (sbox x) = sbox_table ! unat x" by (simp add: sbox_def unat_of_nat_small)
  with takeWhile_distinct [OF distinct_sbox_table i] show ?thesis by (simp add: inv_sbox_def)
qed

subsection \<open>Round transformations\<close>

definition shift_rows :: "bytes \<Rightarrow> bytes" where
  "shift_rows st = map (\<lambda>i. st ! ((i + 4 * (i mod 4)) mod 16)) [0..<16]"

definition inv_shift_rows :: "bytes \<Rightarrow> bytes" where
  "inv_shift_rows st = map (\<lambda>i. st ! ((i + 12 * (i mod 4)) mod 16)) [0..<16]"

text \<open>Multiplication by the polynomial \<open>x\<close> in the field of 256 elements.\<close>

definition xtime :: "byte \<Rightarrow> byte" where
  "xtime b = push_bit 1 b XOR (if bit b 7 then 27 else 0)"

lemma xtime_xor: "xtime (a XOR b) = xtime a XOR xtime b"
  by (auto simp: xtime_def push_bit_xor bit_xor_iff ac_simps xor.left_commute)

abbreviation mul2 :: "byte \<Rightarrow> byte" where "mul2 \<equiv> xtime"
definition mul3 :: "byte \<Rightarrow> byte" where "mul3 b = xtime b XOR b"
definition mul9 :: "byte \<Rightarrow> byte" where "mul9 b = xtime (xtime (xtime b)) XOR b"
definition mul11 :: "byte \<Rightarrow> byte" where "mul11 b = xtime (xtime (xtime b)) XOR xtime b XOR b"
definition mul13 :: "byte \<Rightarrow> byte" where
  "mul13 b = xtime (xtime (xtime b)) XOR xtime (xtime b) XOR b"
definition mul14 :: "byte \<Rightarrow> byte" where
  "mul14 b = xtime (xtime (xtime b)) XOR xtime (xtime b) XOR xtime b"

fun mix_columns :: "bytes \<Rightarrow> bytes" where
  "mix_columns (a # b # c # d # rest) =
     (mul2 a XOR mul3 b XOR c XOR d) # (a XOR mul2 b XOR mul3 c XOR d) #
     (a XOR b XOR mul2 c XOR mul3 d) # (mul3 a XOR b XOR c XOR mul2 d) # mix_columns rest"
| "mix_columns _ = []"

fun inv_mix_columns :: "bytes \<Rightarrow> bytes" where
  "inv_mix_columns (a # b # c # d # rest) =
     (mul14 a XOR mul11 b XOR mul13 c XOR mul9 d) # (mul9 a XOR mul14 b XOR mul11 c XOR mul13 d) #
     (mul13 a XOR mul9 b XOR mul14 c XOR mul11 d) # (mul11 a XOR mul13 b XOR mul9 c XOR mul14 d) #
     inv_mix_columns rest"
| "inv_mix_columns _ = []"

lemmas mul_defs = mul3_def mul9_def mul11_def mul13_def mul14_def

lemma xor_cancel_left [simp]: "(a :: byte) XOR (a XOR b) = b"
  by (simp flip: xor.assoc)

lemma inv_mix_columns_mix_columns:
  "length st mod 4 = 0 \<Longrightarrow> inv_mix_columns (mix_columns st) = st"
proof (induction st rule: mix_columns.induct)
  case (1 a b c d rest)
  then have "inv_mix_columns (mix_columns rest) = rest" by simp
  then show ?case
    by (simp add: mul_defs xtime_xor ac_simps xor.left_commute)
qed auto

lemma length_mix_columns: "length st mod 4 = 0 \<Longrightarrow> length (mix_columns st) = length st"
  by (induction st rule: mix_columns.induct) auto

lemma length_shift_rows [simp]: "length (shift_rows st) = 16"
  by (simp add: shift_rows_def)

lemma inv_shift_rows_shift_rows:
  assumes "length st = 16"
  shows "inv_shift_rows (shift_rows st) = st"
proof (rule nth_equalityI)
  fix i assume "i < length (inv_shift_rows (shift_rows st))"
  then have i: "i < 16" by (simp add: inv_shift_rows_def)
  define j where "j = (i + 12 * (i mod 4)) mod 16"
  have "j mod 4 = (i + 4 * (3 * (i mod 4))) mod 4"
    unfolding j_def by (simp add: mod_mod_cancel)
  also have "\<dots> = i mod 4" by (rule mod_mult_self2)
  finally have "(j + 4 * (j mod 4)) mod 16 = (i + 12 * (i mod 4) + 4 * (i mod 4)) mod 16"
    by (simp only: j_def mod_add_left_eq)
  then have "(j + 4 * (j mod 4)) mod 16 = i" using i by (simp add: add.assoc)
  moreover have "j < 16" by (simp add: j_def)
  ultimately have "shift_rows st ! j = st ! i" by (simp add: shift_rows_def)
  with i show "inv_shift_rows (shift_rows st) ! i = st ! i"
    by (simp add: inv_shift_rows_def j_def)
qed (simp add: inv_shift_rows_def assms)

text \<open>
  Adding a round key. A round key of a valid cipher key has 16 bytes and this is a plain
  exclusive or; a shorter list counts as zero-extended, which keeps the function total.
\<close>

definition add_round_key :: "bytes \<Rightarrow> bytes \<Rightarrow> bytes" where
  "add_round_key st k = xor_bytes st (take (length st) (k @ replicate (length st) 0))"

lemma length_add_round_key [simp]: "length (add_round_key st k) = length st"
  by (simp add: add_round_key_def)

lemma add_round_key_cancel [simp]: "add_round_key (add_round_key st k) k = st"
  unfolding add_round_key_def by (simp add: xor_bytes_cancel)

subsection \<open>Rounds\<close>

fun aes_rounds :: "bytes list \<Rightarrow> bytes \<Rightarrow> bytes" where
  "aes_rounds [] st = st"
| "aes_rounds [k] st = add_round_key (shift_rows (map sbox st)) k"
| "aes_rounds (k # k' # ks) st =
     aes_rounds (k' # ks) (add_round_key (mix_columns (shift_rows (map sbox st))) k)"

fun aes_inv_rounds :: "bytes list \<Rightarrow> bytes \<Rightarrow> bytes" where
  "aes_inv_rounds [] st = st"
| "aes_inv_rounds [k] st = map inv_sbox (inv_shift_rows (add_round_key st k))"
| "aes_inv_rounds (k # k' # ks) st =
     map inv_sbox (inv_shift_rows (inv_mix_columns
       (add_round_key (aes_inv_rounds (k' # ks) st) k)))"

lemma aes_rounds_inverse:
  "length st = 16 \<Longrightarrow> aes_inv_rounds ks (aes_rounds ks st) = st \<and> length (aes_rounds ks st) = 16"
proof (induction ks st rule: aes_rounds.induct)
  case (3 k k' ks st)
  let ?st = "add_round_key (mix_columns (shift_rows (map sbox st))) k"
  have "length ?st = 16" by (simp add: length_mix_columns)
  with 3 show ?case
    by (simp add: inv_mix_columns_mix_columns inv_shift_rows_shift_rows o_def)
qed (simp_all add: inv_shift_rows_shift_rows o_def)

subsection \<open>Key expansion and the cipher\<close>

definition rcon :: "nat \<Rightarrow> bytes" where
  "rcon i = [(xtime ^^ (i - 1)) 1, 0, 0, 0]"

definition next_word :: "nat \<Rightarrow> bytes list \<Rightarrow> bytes" where
  "next_word nk ws =
     (let i = length ws; t = last ws;
          t' = (if i mod nk = 0 then xor_bytes (map sbox (rotate1 t)) (rcon (i div nk))
                else if 6 < nk \<and> i mod nk = 4 then map sbox t else t)
      in xor_bytes (ws ! (i - nk)) t')"

primrec expand_words :: "nat \<Rightarrow> nat \<Rightarrow> bytes list \<Rightarrow> bytes list" where
  "expand_words nk 0 ws = ws"
| "expand_words nk (Suc n) ws = expand_words nk n (ws @ [next_word nk ws])"

definition aes_round_keys :: "bytes \<Rightarrow> bytes list" where
  "aes_round_keys key =
     (let nk = length key div 4
      in map concat (chunks 4 (expand_words nk (4 * (nk + 7) - nk) (chunks 4 key))))"

definition aes_encrypt :: "bytes \<Rightarrow> bytes \<Rightarrow> bytes" where
  "aes_encrypt key st =
     (case aes_round_keys key of [] \<Rightarrow> st | k # ks \<Rightarrow> aes_rounds ks (add_round_key st k))"

definition aes_decrypt :: "bytes \<Rightarrow> bytes \<Rightarrow> bytes" where
  "aes_decrypt key st =
     (case aes_round_keys key of [] \<Rightarrow> st | k # ks \<Rightarrow> add_round_key (aes_inv_rounds ks st) k)"

text \<open>\<^verbatim>\<open>aes.NewCipher\<close>: the key sizes it accepts.\<close>

definition aes_NewCipher :: "bytes \<Rightarrow> bytes outcome" where
  "aes_NewCipher key =
     (if length key \<in> {16, 24, 32} then Ok key
      else Err (Errorf ''crypto/aes: invalid key size %d'' [AInt (int (length key))]))"

lemma length_inv_shift_rows [simp]: "length (inv_shift_rows st) = 16"
  by (simp add: inv_shift_rows_def)

lemma length_aes_inv_rounds: "length st = 16 \<Longrightarrow> length (aes_inv_rounds ks st) = 16"
  by (cases "(ks, st)" rule: aes_inv_rounds.cases) auto

lemma length_aes_decrypt: "length st = 16 \<Longrightarrow> length (aes_decrypt key st) = 16"
  by (auto simp: aes_decrypt_def length_aes_inv_rounds split: list.splits)

interpretation aes: block_cipher "aes_encrypt key" "aes_decrypt key" 16 for key
  by unfold_locales
     (auto simp: aes_encrypt_def aes_decrypt_def aes_rounds_inverse split: list.splits)

end
