(* ===== verification/Std_Md5.thy ===== *)
theory Std_Md5
  imports Go_Prelude
begin

unbundle bit_operations_syntax

text \<open>
  The hash of \<^verbatim>\<open>crypto/md5\<close> (RFC 1321), which the repository uses for checksums, initialisation
  vectors and signatures. \<open>md5 d\<close> is \<^verbatim>\<open>h := md5.New(); h.Write(d); h.Sum(nil)\<close>; writing in
  several pieces is hashing their concatenation.
\<close>

definition md5_k :: "32 word list" where
  "md5_k =
     [3614090360, 3905402710, 606105819, 3250441966, 4118548399, 1200080426,
      2821735955, 4249261313, 1770035416, 2336552879, 4294925233, 2304563134,
      1804603682, 4254626195, 2792965006, 1236535329, 4129170786, 3225465664,
      643717713, 3921069994, 3593408605, 38016083, 3634488961, 3889429448,
      568446438, 3275163606, 4107603335, 1163531501, 2850285829, 4243563512,
      1735328473, 2368359562, 4294588738, 2272392833, 1839030562, 4259657740,
      2763975236, 1272893353, 4139469664, 3200236656, 681279174, 3936430074,
      3572445317, 76029189, 3654602809, 3873151461, 530742520, 3299628645,
      4096336452, 1126891415, 2878612391, 4237533241, 1700485571, 2399980690,
      4293915773, 2240044497, 1873313359, 4264355552, 2734768916, 1309151649,
      4149444226, 3174756917, 718787259, 3951481745]"

definition md5_s :: "nat list" where
  "md5_s = concat (replicate 4 [7, 12, 17, 22]) @ concat (replicate 4 [5, 9, 14, 20]) @
           concat (replicate 4 [4, 11, 16, 23]) @ concat (replicate 4 [6, 10, 15, 21])"

type_synonym md5_state = "32 word \<times> 32 word \<times> 32 word \<times> 32 word"

definition md5_init :: md5_state where
  "md5_init = (0x67452301, 0xefcdab89, 0x98badcfe, 0x10325476)"

text \<open>Step \<open>i\<close> of the 64 steps, over the 16 words \<open>m\<close> of a block.\<close>

definition md5_step :: "32 word list \<Rightarrow> nat \<Rightarrow> md5_state \<Rightarrow> md5_state" where
  "md5_step m i = (\<lambda>(a, b, c, d).
     let (f, g) =
       (if i < 16 then ((b AND c) OR (NOT b AND d), i)
        else if i < 32 then ((d AND b) OR (NOT d AND c), (5 * i + 1) mod 16)
        else if i < 48 then (b XOR c XOR d, (3 * i + 5) mod 16)
        else (c XOR (b OR NOT d), (7 * i) mod 16))
     in (d, b + word_rotl (md5_s ! i) (f + a + md5_k ! i + m ! g), b, c))"

definition md5_block :: "md5_state \<Rightarrow> bytes \<Rightarrow> md5_state" where
  "md5_block st blk =
     (let m = map (\<lambda>w. of_nat (le_dec w)) (chunks 4 blk);
          (a, b, c, d) = fold (md5_step m) [0..<64] st
      in case st of (a0, b0, c0, d0) \<Rightarrow> (a0 + a, b0 + b, c0 + c, d0 + d))"

definition md5_pad :: "bytes \<Rightarrow> bytes" where
  "md5_pad d = d @ [0x80] @ replicate ((119 - length d mod 64) mod 64) 0 @ le_enc 8 (8 * length d)"

definition md5_sum :: "md5_state \<Rightarrow> bytes" where
  "md5_sum = (\<lambda>(a, b, c, d). concat (map (\<lambda>w. le_enc 4 (unat w)) [a, b, c, d]))"

definition md5 :: "bytes \<Rightarrow> bytes" where
  "md5 d = md5_sum (fold (\<lambda>blk st. md5_block st blk) (chunks 64 (md5_pad d)) md5_init)"

lemma length_md5 [simp]: "length (md5 d) = 16"
  by (simp add: md5_def md5_sum_def split: prod.splits)

end
