(* ===== verification/Cipher_Crypt.thy ===== *)
theory Cipher_Crypt
  imports Std_Aes Std_Md5
begin

text \<open>
  \<^verbatim>\<open>cipher2/crypt.go\<close>: AES in CBC mode with PKCS#7 padding, the MD5 helpers, and the stream
  cipher \<open>SimpleCrypt\<close>. The CBC constructors and \<open>CryptBlocks\<close> of \<^verbatim>\<open>crypto/cipher\<close> panic with
  plain strings, not errors, which matters to the recovery code in \<^verbatim>\<open>netserve\<close>.
\<close>

subsection \<open>CBC as the library exposes it\<close>

definition NewCBCEncrypter :: "bytes \<Rightarrow> bytes outcome" where
  "NewCBCEncrypter iv =
     (if length iv = 16 then Ok iv
      else Panic (PStr ''cipher.NewCBCEncrypter: IV length must equal block size'' []))"

definition NewCBCDecrypter :: "bytes \<Rightarrow> bytes outcome" where
  "NewCBCDecrypter iv =
     (if length iv = 16 then Ok iv
      else Panic (PStr ''cipher.NewCBCDecrypter: IV length must equal block size'' []))"

abbreviation not_full_blocks :: gpanic where
  "not_full_blocks \<equiv> PStr ''crypto/cipher: input not full blocks'' []"

definition cbc_encrypt_blocks :: "bytes \<Rightarrow> bytes \<Rightarrow> bytes \<Rightarrow> bytes outcome" where
  "cbc_encrypt_blocks key iv src =
     (if length src mod 16 \<noteq> 0 then Panic not_full_blocks
      else Ok (cbc_enc (aes_encrypt key) 16 iv src))"

definition cbc_decrypt_blocks :: "bytes \<Rightarrow> bytes \<Rightarrow> bytes \<Rightarrow> bytes outcome" where
  "cbc_decrypt_blocks key iv src =
     (if length src mod 16 \<noteq> 0 then Panic not_full_blocks
      else Ok (cbc_dec (aes_decrypt key) 16 iv src))"

lemma cbc_decrypt_encrypt_blocks:
  "length src mod 16 = 0 \<Longrightarrow> length iv = 16 \<Longrightarrow>
   obind (cbc_encrypt_blocks key iv src) (cbc_decrypt_blocks key iv) = Ok src"
  by (simp add: cbc_encrypt_blocks_def cbc_decrypt_blocks_def aes.cbc_length aes.cbc_roundtrip)

subsection \<open>AES\<close>

definition AesDecrypt :: "bytes \<Rightarrow> bytes \<Rightarrow> bytes \<Rightarrow> bytes outcome" where
  "AesDecrypt aesKey iv data =
     (if length data = 0 then Panic (PErr (Errorf ''data size is zero'' []))
      else obind (aes_NewCipher aesKey) (\<lambda>block.
        obind (NewCBCDecrypter iv) (\<lambda>iv.
        obind (cbc_decrypt_blocks block iv data) (\<lambda>rs.
        Pkcs7Unpad rs 16))))"

definition AesEncrypt :: "bytes \<Rightarrow> bytes \<Rightarrow> bytes \<Rightarrow> bytes outcome" where
  "AesEncrypt aesKey iv data =
     obind (aes_NewCipher aesKey) (\<lambda>block.
       obind (NewCBCEncrypter iv) (\<lambda>iv.
       obind (Pkcs7Pad data 16) (\<lambda>data.
       cbc_encrypt_blocks block iv data)))"

text \<open>
  The mode and the padding together are an instance of \<open>padded_mode\<close>, for every key and every
  initialisation vector of 16 bytes; shorter vectors are zero-extended here and rejected by the
  constructors above.
\<close>

definition fit_iv :: "bytes \<Rightarrow> bytes" where
  "fit_iv iv = take 16 (iv @ replicate 16 0)"

lemma length_fit_iv [simp]: "length (fit_iv iv) = 16"
  by (simp add: fit_iv_def)

lemma fit_iv_id [simp]: "length iv = 16 \<Longrightarrow> fit_iv iv = iv"
  by (simp add: fit_iv_def)

interpretation aes_cbc: chained_cipher "aes_encrypt key" "aes_decrypt key" 16 "fit_iv iv"
  for key iv
  by unfold_locales simp

interpretation aes_cbc_pkcs7: padded_mode
  "cbc_enc (aes_encrypt key) 16 (fit_iv iv)" "cbc_dec (aes_decrypt key) 16 (fit_iv iv)" 16
  Pkcs7Pad Pkcs7Unpad pkcs7_supported for key iv
  by unfold_locales (simp add: pkcs7_supported_def)

subsection \<open>MD5 helpers\<close>

definition Md5HashBytes :: "bytes \<Rightarrow> bytes" where
  "Md5HashBytes d = md5 d"

text \<open>
  \<open>Md5HashObjsLi\<close>: \<open>enc\<close> is what \<^verbatim>\<open>binary.Write\<close> writes for a value in the given order of bytes, or its error, which
  is dropped.
\<close>

definition Md5HashObjsLi :: "('v \<Rightarrow> bytes outcome) \<Rightarrow> 'v list \<Rightarrow> bytes outcome" where
  "Md5HashObjsLi enc vlist =
     obind (foldl (\<lambda>h v. obind h (\<lambda>d. case enc v of Ok b \<Rightarrow> Ok (d @ b) | Err e \<Rightarrow> Ok d | Panic p \<Rightarrow> Panic p)) (Ok []) vlist)
       (\<lambda>d. Ok (md5 d))"

text \<open>Values that cannot be encoded do not count, so that lists that differ in them have the same hash.\<close>

lemma Md5HashObjsLi_skips:
  assumes "\<forall>v \<in> set vs. \<not> panics (enc v)"
  shows "Md5HashObjsLi enc vs = Ok (md5 (concat (map (\<lambda>v. case enc v of Ok b \<Rightarrow> b | _ \<Rightarrow> []) vs)))"
proof -
  have "foldl (\<lambda>h v. obind h (\<lambda>d. case enc v of Ok b \<Rightarrow> Ok (d @ b) | Err e \<Rightarrow> Ok d | Panic p \<Rightarrow> Panic p)) (Ok ds) vs =
      Ok (ds @ concat (map (\<lambda>v. case enc v of Ok b \<Rightarrow> b | _ \<Rightarrow> []) vs))" for ds
    using assms by (induction vs arbitrary: ds) (auto split: outcome.splits)
  from this [of "[]"] show ?thesis by (simp add: Md5HashObjsLi_def)
qed

definition Md5HashStr :: "string \<Rightarrow> bytes" where
  "Md5HashStr s = Md5HashBytes (bytes_of_string s)"

subsection \<open>SimpleCrypt\<close>

record crypt_state =
  sum :: "32 word"
  v0 :: "32 word"
  v1 :: "32 word"

definition simple_round :: "32 word \<Rightarrow> 32 word \<Rightarrow> crypt_state \<Rightarrow> crypt_state" where
  "simple_round k1 k2 st =
     (let s = sum st + 0x3f;
          a = v0 st + ((push_bit 4 (v1 st) + k1) XOR (v1 st + s) XOR (drop_bit 5 (v1 st) + k2));
          b = v1 st + ((push_bit 4 a + k1) XOR (a + s) XOR (drop_bit 5 a + k2))
      in \<lparr>sum = s, v0 = a, v1 = b\<rparr>)"

text \<open>One iteration of the outer loop: eight rounds, then the byte and the feedback.\<close>

definition simple_byte :: "bytes \<Rightarrow> bool \<Rightarrow> nat \<Rightarrow> crypt_state \<Rightarrow> byte \<Rightarrow> byte \<times> crypt_state" where
  "simple_byte key encrypt i st x =
     (let k1 = ucast (key ! (i mod length key));
          k2 = ucast (key ! ((i + 1) mod length key));
          st = (simple_round k1 k2 ^^ 8) st;
          y = x XOR ucast (v1 st)
      in (y, st\<lparr>sum := sum st + ucast (if encrypt then y else x)\<rparr>))"

fun simple_loop :: "bytes \<Rightarrow> bool \<Rightarrow> nat \<Rightarrow> crypt_state \<Rightarrow> bytes \<Rightarrow> bytes" where
  "simple_loop key encrypt i st [] = []"
| "simple_loop key encrypt i st (x # xs) =
     (let (y, st) = simple_byte key encrypt i st x in y # simple_loop key encrypt (i + 1) st xs)"

definition SimpleCrypt :: "bytes \<Rightarrow> bytes \<Rightarrow> bool \<Rightarrow> bytes outcome" where
  "SimpleCrypt data key encrypt =
     (if data = [] then Ok []
      else if key = [] then divide_panic
      else Ok (simple_loop key encrypt 0 \<lparr>sum = 0, v0 = 0, v1 = 0\<rparr> data))"

lemma length_simple_loop [simp]: "length (simple_loop key e i st xs) = length xs"
  by (induction xs arbitrary: i st) (auto split: prod.splits)

text \<open>Encryption feeds back the byte it produced, decryption the byte it consumed: the states agree.\<close>

lemma simple_byte_inverse:
  assumes "simple_byte key e i st x = (y, st')"
  shows "simple_byte key (\<not> e) i st y = (x, st')"
  using assms by (auto simp: simple_byte_def Let_def xor.assoc)

lemma simple_loop_inverse: "simple_loop key (\<not> e) i st (simple_loop key e i st xs) = xs"
proof (induction xs arbitrary: i st)
  case (Cons x xs)
  obtain y st' where "simple_byte key e i st x = (y, st')" by fastforce
  with Cons simple_byte_inverse [OF this] show ?case by simp
qed simp

subsection \<open>Properties\<close>

lemma Pkcs7Unpad_no_panic: "Pkcs7Unpad d b \<noteq> Panic p"
  using Pkcs7Unpad_total [of d b] by auto

lemma AesEncrypt_eq:
  assumes "length key \<in> {16, 24, 32}" and "length iv = 16" and "Pkcs7Pad d 16 = Ok e"
  shows "AesEncrypt key iv d = Ok (cbc_enc (aes_encrypt key) 16 iv e)"
  using assms pkcs7.pad_multiple [of 16 d e]
  by (simp add: AesEncrypt_def aes_NewCipher_def NewCBCEncrypter_def cbc_encrypt_blocks_def
      pkcs7_supported_def)

lemma AesDecrypt_AesEncrypt:
  assumes "length key \<in> {16, 24, 32}" and "length iv = 16"
  shows "\<exists>c. AesEncrypt key iv d = Ok c \<and> length c = length d + (16 - length d mod 16) \<and>
             AesDecrypt key iv c = Ok d"
proof -
  obtain e where e: "Pkcs7Pad d 16 = Ok e" and len: "length e = length d + (16 - length d mod 16)"
    by (simp add: Pkcs7Pad_Ok)
  have m: "length e mod 16 = 0" and ne: "e \<noteq> []"
    using pkcs7.pad_multiple [of 16 d e] pkcs7.pad_nonempty [of 16 d e] e
    by (simp_all add: pkcs7_supported_def)
  let ?c = "cbc_enc (aes_encrypt key) 16 iv e"
  have c: "length ?c = length e" using m assms(2) by (simp add: aes.cbc_length)
  have "Pkcs7Unpad (cbc_dec (aes_decrypt key) 16 iv ?c) 16 = Ok d"
    using aes_cbc_pkcs7.padded_roundtrip [of d e key iv] e assms(2) by simp
  then have "AesDecrypt key iv ?c = Ok d"
    using assms c m ne
    by (auto simp: AesDecrypt_def aes_NewCipher_def NewCBCDecrypter_def cbc_decrypt_blocks_def)
  with AesEncrypt_eq [OF assms e] c len show ?thesis by simp
qed

text \<open>
  C29: With a key of 16, 24 or 32 bytes and an initialisation vector of 16 bytes, encryption
  always succeeds, its output is the data's length rounded up to the next multiple of 16
  (never equal to it), and decryption with the same key and vector returns the data.
\<close>

theorem AesEncrypt_roundtrip:
  assumes "length key \<in> {16, 24, 32}" and "length iv = 16"
  shows "\<exists>c. AesEncrypt key iv d = Ok c \<and> length c = length d + (16 - length d mod 16) \<and>
             AesDecrypt key iv c = Ok d"
  using assms by (rule AesDecrypt_AesEncrypt)

theorem AesEncrypt_roundtrip_witness:
  "\<exists>c. AesEncrypt (replicate 24 5) (replicate 16 1) [1, 2, 3] = Ok c \<and> length c = 16 \<and>
       AesDecrypt (replicate 24 5) (replicate 16 1) c = Ok [1, 2, 3]"
  using AesEncrypt_roundtrip [of "replicate 24 5" "replicate 16 1" "[1, 2, 3]"] by simp

text \<open>
  Decryption panics exactly on empty data and, with a key of an accepted size, on a vector
  that is not 16 bytes or data that is not whole blocks; every other failure (key size,
  padding) is an error value.
\<close>

theorem AesDecrypt_panics_iff:
  "panics (AesDecrypt key iv data) \<longleftrightarrow>
     data = [] \<or> (length key \<in> {16, 24, 32} \<and> \<not> (length iv = 16 \<and> length data mod 16 = 0))"
  using Pkcs7Unpad_total [of "cbc_dec (aes_decrypt key) 16 iv data" 16]
  by (auto simp: AesDecrypt_def aes_NewCipher_def NewCBCDecrypter_def cbc_decrypt_blocks_def)

text \<open>
  For a non-empty key, \<open>SimpleCrypt\<close> succeeds, keeps the length, and running it in the other
  direction with the same key restores the data: decryption undoes encryption and the
  converse.
\<close>

theorem SimpleCrypt_roundtrip:
  assumes "key \<noteq> []"
  shows "\<exists>c. SimpleCrypt data key e = Ok c \<and> length c = length data \<and>
             SimpleCrypt c key (\<not> e) = Ok data"
proof (cases "data = []")
  case False
  let ?c = "simple_loop key e 0 \<lparr>sum = 0, v0 = 0, v1 = 0\<rparr> data"
  have "length ?c = length data" by simp
  then have "?c \<noteq> []" using False by (metis length_0_conv)
  with False assms show ?thesis by (simp add: SimpleCrypt_def simple_loop_inverse)
qed (simp add: SimpleCrypt_def)

theorem SimpleCrypt_roundtrip_witness:
  "\<exists>c. SimpleCrypt [1, 2, 3] [7, 9] True = Ok c \<and> length c = 3 \<and>
       SimpleCrypt c [7, 9] False = Ok [1, 2, 3]"
  using SimpleCrypt_roundtrip [of "[7, 9]" "[1, 2, 3]" True] by (simp add: numeral_3_eq_3)

end
