(* ===== verification/Step_Systems.thy ===== *)
theory Step_Systems
  imports Main
begin

text \<open>
  Interfaces of the step relations of the development: a system whose steps keep an invariant,
  and one whose steps also use up a weight. What follows for its runs is proved here once; the
  concurrent components interpret the locales.
\<close>

locale step_system =
  fixes step :: "'s \<Rightarrow> 's \<Rightarrow> bool" and inv :: "'s \<Rightarrow> bool"
  assumes step_inv: "inv s \<Longrightarrow> step s t \<Longrightarrow> inv t"
begin

lemma run_inv: "step\<^sup>*\<^sup>* s t \<Longrightarrow> inv s \<Longrightarrow> inv t"
  by (induction rule: rtranclp_induct) (auto intro: step_inv)

end

locale terminating_system = step_system +
  fixes weight :: "'s \<Rightarrow> nat"
  assumes step_less: "inv s \<Longrightarrow> step s t \<Longrightarrow> weight t < weight s"
begin

lemma run_weight: "(step ^^ k) s t \<Longrightarrow> inv s \<Longrightarrow> k + weight t \<le> weight s"
proof (induction k arbitrary: s)
  case (Suc k)
  from Suc.prems(1) obtain u where "step s u" "(step ^^ k) u t"
    by (rule relpowp_Suc_E2)
  with Suc show ?case using step_inv [of s u] step_less [of s u] by fastforce
qed simp

lemma run_bound: "(step ^^ k) s t \<Longrightarrow> inv s \<Longrightarrow> k \<le> weight s"
  using run_weight by fastforce

lemma run_completes: "inv s \<Longrightarrow> \<exists>t. step\<^sup>*\<^sup>* s t \<and> (\<nexists>u. step t u)"
proof (induction "weight s" arbitrary: s rule: less_induct)
  case less
  show ?case
  proof (cases "\<exists>u. step s u")
    case True
    then obtain u where u: "step s u" by blast
    then obtain t where "step\<^sup>*\<^sup>* u t" "\<nexists>v. step t v"
      using less step_inv step_less by blast
    with u show ?thesis by (meson converse_rtranclp_into_rtranclp)
  qed blast
qed

end

end
