(* ===== verification/Net_Context.thy ===== *)
theory Net_Context
  imports Cipher_Crypt Step_Systems "HOL-Library.Signed_Division"
begin

text \<open>
  \<^verbatim>\<open>netserve/context.go\<close>: the per-connection state of the encrypted protocol. Besides the data
  model it holds the packet-size arithmetic of stream replies, the duplicate check
  \<open>checkSetAck\<close> (alone, and as the steps of several goroutines that share one UDP context), and
  the table of UDP contexts.
\<close>

subsection \<open>The data\<close>

record TransPacketHdr =
  Checksum :: "64 word"
  Msgtype :: "32 word"
  Version :: "32 word"
  Seq :: "32 word"
  Nonce :: "64 word"

definition zero_hdr :: TransPacketHdr where
  "zero_hdr = \<lparr>Checksum = 0, Msgtype = 0, Version = 0, Seq = 0, Nonce = 0\<rparr>"

record NetContext =
  nc_logVerbose :: bool
  nc_peerAdrr :: string
  nc_aeskey :: bytes
  nc_recviv :: bytes
  nc_sendiv :: bytes
  nc_sendsig :: "64 word"
  nc_recvsig :: "64 word"
  nc_seq :: "32 word"
  nc_ack :: "32 word"
  nc_state :: byte
  nc_nonce :: "64 word"
  nc_updateiv :: bool
  nc_stream :: bool
  nc_size :: int
  nc_packsize :: int

definition NewNetContext :: "string \<Rightarrow> NetContext" where
  "NewNetContext peerAddr =
     \<lparr>nc_logVerbose = False, nc_peerAdrr = peerAddr, nc_aeskey = [], nc_recviv = [],
      nc_sendiv = [], nc_sendsig = 0, nc_recvsig = 0, nc_seq = 0, nc_ack = 0, nc_state = 0,
      nc_nonce = 0, nc_updateiv = False, nc_stream = False, nc_size = 0, nc_packsize = 0\<rparr>"

subsection \<open>Initialisation vectors and reply headers\<close>

definition UpdateIv :: "NetContext \<Rightarrow> NetContext" where
  "UpdateIv ctx =
     (if \<not> nc_updateiv ctx then ctx
      else ctx\<lparr>nc_sendiv := md5 (nc_recviv ctx @ le_enc 8 (unat (nc_nonce ctx)) @
                 le_enc 4 (unat (nc_seq ctx)) @ le_enc 8 (unat (nc_recvsig ctx))),
               nc_updateiv := False\<rparr>)"

text \<open>\<open>now\<close> is \<^verbatim>\<open>time.Now().Unix()\<close>.\<close>

definition BuildAckHdr :: "64 word \<Rightarrow> NetContext \<Rightarrow> TransPacketHdr \<Rightarrow> TransPacketHdr \<times> NetContext" where
  "BuildAckHdr now ctx hdr =
     (let msgtype = (if nc_state ctx = 2 then 2 else if nc_stream ctx then 4 else 3);
          hdr = hdr\<lparr>Msgtype := msgtype, Version := 2, Seq := nc_seq ctx, Nonce := now\<rparr>;
          ctx = ctx\<lparr>nc_seq := Seq hdr, nc_nonce := Nonce hdr\<rparr>
      in (hdr, UpdateIv ctx))"

subsection \<open>Packet sizes\<close>

text \<open>Integer division of the language truncates towards zero and panics on a zero divisor.\<close>

definition RoundUp :: "int \<Rightarrow> int \<Rightarrow> int outcome" where
  "RoundUp sz bound =
     (if bound = 0 then divide_panic else Ok (((sz + bound - 1) sdiv bound) * bound))"

definition GetPackSize :: "NetContext \<Rightarrow> int \<Rightarrow> int \<Rightarrow> (int \<times> int) outcome" where
  "GetPackSize ctx n blockSize =
     (let datasize = nc_size ctx - n;
          datasize = (if datasize > nc_packsize ctx then nc_packsize ctx else datasize)
      in obind (RoundUp datasize blockSize) (\<lambda>pksize.
           Ok (datasize, if pksize = datasize then pksize + blockSize else pksize)))"

text \<open>The loop of \<open>CalcStreamSize\<close>; \<open>None\<close> is a loop that does not end.\<close>

partial_function (option) calc_stream_loop :: "NetContext \<Rightarrow> int \<Rightarrow> int \<Rightarrow> int \<Rightarrow> int outcome option" where
  "calc_stream_loop ctx blockSize n sz =
     (if n < nc_size ctx
      then (case GetPackSize ctx n blockSize of
              Ok dp \<Rightarrow> calc_stream_loop ctx blockSize (n + fst dp) (sz + snd dp)
            | Err e \<Rightarrow> Some (Err e)
            | Panic p \<Rightarrow> Some (Panic p))
      else Some (Ok sz))"

definition CalcStreamSize :: "NetContext \<Rightarrow> int \<Rightarrow> int outcome option" where
  "CalcStreamSize ctx blockSize = calc_stream_loop ctx blockSize 0 0"

subsection \<open>The duplicate check\<close>

text \<open>
  Sequentially, the channel of capacity one that \<open>checkSetAck\<close> sends to and receives from hands
  the value straight back.
\<close>

definition checkSetAck :: "NetContext \<Rightarrow> 32 word \<Rightarrow> bool \<times> NetContext" where
  "checkSetAck ctx ack = (nc_ack ctx = 0 \<or> nc_ack ctx \<noteq> ack, ctx\<lparr>nc_ack := ack\<rparr>)"

text \<open>
  Between goroutines the channel is a lock: one rule for the send (which blocks while the buffer
  is full), one for the comparison, one for the receive into \<open>context.ack\<close>.
\<close>

datatype ack_pc = AStart "32 word" | ASent "32 word" | ACompared "32 word" bool | ADone "32 word" bool

record ack_sys =
  sys_ack :: "32 word"
  ackSetChan :: "32 word option"
  sys_pc :: "nat \<Rightarrow> ack_pc"

inductive ack_step :: "ack_sys \<Rightarrow> ack_sys \<Rightarrow> bool" where
  send: "sys_pc s i = AStart a \<Longrightarrow> ackSetChan s = None \<Longrightarrow>
    ack_step s (s\<lparr>ackSetChan := Some a, sys_pc := (sys_pc s)(i := ASent a)\<rparr>)"
| compare: "sys_pc s i = ASent a \<Longrightarrow>
    ack_step s (s\<lparr>sys_pc := (sys_pc s)(i := ACompared a (sys_ack s = 0 \<or> sys_ack s \<noteq> a))\<rparr>)"
| receive: "sys_pc s i = ACompared a ok \<Longrightarrow> ackSetChan s = Some v \<Longrightarrow>
    ack_step s (s\<lparr>sys_ack := v, ackSetChan := None, sys_pc := (sys_pc s)(i := ADone a ok)\<rparr>)"

inductive_cases ack_stepE: "ack_step s t"

text \<open>All goroutines hold a copy of the packet with sequence number \<open>a\<close>; the last one seen is \<open>last0\<close>.\<close>

definition ack_init :: "32 word \<Rightarrow> 32 word \<Rightarrow> ack_sys" where
  "ack_init last0 a = \<lparr>sys_ack = last0, ackSetChan = None, sys_pc = (\<lambda>_. AStart a)\<rparr>"

subsection \<open>The table of UDP contexts\<close>

text \<open>
  \<open>gUdpNetContext\<close> maps a peer address to a context object, which the datagrams of that peer
  share. The tunnel task serialises the accesses, so one call is one step. \<open>udp_expire\<close> is the
  cache dropping an entry after its expiration time.
\<close>

record udp_table =
  gUdpNetContext :: "string \<rightharpoonup> nat"
  udp_heap :: "nat \<rightharpoonup> NetContext"
  udp_next :: nat

definition empty_udp_table :: udp_table where
  "empty_udp_table = \<lparr>gUdpNetContext = Map.empty, udp_heap = Map.empty, udp_next = 0\<rparr>"

definition GetUdpNetContext :: "string \<Rightarrow> udp_table \<Rightarrow> nat \<times> udp_table" where
  "GetUdpNetContext peerAddr t =
     (case gUdpNetContext t peerAddr of
        Some p \<Rightarrow> (p, t)
      | None \<Rightarrow>
          (udp_next t,
           \<lparr>gUdpNetContext = (gUdpNetContext t)(peerAddr \<mapsto> udp_next t),
            udp_heap = (udp_heap t)(udp_next t \<mapsto> NewNetContext peerAddr),
            udp_next = Suc (udp_next t)\<rparr>))"

definition udp_expire :: "string \<Rightarrow> udp_table \<Rightarrow> udp_table" where
  "udp_expire peerAddr t = t\<lparr>gUdpNetContext := (gUdpNetContext t)(peerAddr := None)\<rparr>"

subsection \<open>Stream sizes are the sizes of the padded packets\<close>

lemma sdiv_nonneg: "0 \<le> (a :: int) \<Longrightarrow> 0 < b \<Longrightarrow> a sdiv b = a div b"
  by (simp add: signed_divide_int_def sgn_if)

lemma RoundUp_padded:
  assumes "0 < d" "0 < (b :: int)"
  shows "\<exists>r. RoundUp d b = Ok r \<and> (if r = d then r + b else r) = d + (b - d mod b)"
proof -
  have r: "RoundUp d b = Ok ((d + b - 1) div b * b)"
    using assms by (simp add: RoundUp_def sdiv_nonneg)
  have d: "d div b * b + d mod b = d" by simp
  have div: "y div b = k" if "y = x + k * b" "0 \<le> x" "x < b" for x y k
    using that assms(2) by simp
  show ?thesis
  proof (cases "d mod b = 0")
    case True
    have "(d + b - 1) div b = d div b"
      by (rule div [of _ "b - 1"]) (use True d assms in \<open>simp_all\<close>)
    then have "(d + b - 1) div b * b = d" using True d by simp
    with r True show ?thesis by simp
  next
    case False
    then have pos: "0 < d mod b" and lt: "d mod b < b"
      using assms pos_mod_sign [of b d] pos_mod_bound [of b d] by linarith+
    have "(d + b - 1) div b = d div b + 1"
      by (rule div [of _ "d mod b - 1"]) (use pos lt d in \<open>simp_all add: algebra_simps\<close>)
    then have e: "(d + b - 1) div b * b = d + (b - d mod b)" using d by (simp add: algebra_simps)
    from lt have "d + (b - d mod b) \<noteq> d" by linarith
    with r e show ?thesis by simp
  qed
qed

lemma GetPackSize_eq:
  assumes "0 < nc_packsize ctx" "0 < b" "n < nc_size ctx"
  defines "d \<equiv> min (nc_packsize ctx) (nc_size ctx - n)"
  shows "GetPackSize ctx n b = Ok (d, d + (b - d mod b))"
proof -
  have "0 < d" using assms by (simp add: d_def)
  then obtain r where "RoundUp d b = Ok r" "(if r = d then r + b else r) = d + (b - d mod b)"
    using RoundUp_padded assms(2) by blast
  moreover have "(if nc_size ctx - n > nc_packsize ctx then nc_packsize ctx else nc_size ctx - n) = d"
    by (simp add: d_def min_def)
  ultimately show ?thesis unfolding GetPackSize_def Let_def by simp
qed

lemma length_Pkcs7Pad:
  assumes "0 < b" "Pkcs7Pad d b = Ok e"
  shows "int (length e) = int (length d) + (b - int (length d) mod b)"
proof -
  have "length e = length d + (nat b - length d mod nat b)" using assms by (auto simp: Pkcs7Pad_Ok)
  moreover have "length d mod nat b < nat b" using assms by simp
  ultimately have "int (length e) = int (length d) + (int (nat b) - int (length d mod nat b))"
    by linarith
  with assms show ?thesis by (simp add: zmod_int)
qed

text \<open>The padded packets of a stream, in the order they are written.\<close>

definition padded_packets :: "int \<Rightarrow> nat \<Rightarrow> bytes \<Rightarrow> bytes list \<Rightarrow> bool" where
  "padded_packets b n data es \<longleftrightarrow> list_all2 (\<lambda>c e. Pkcs7Pad c b = Ok e) (chunks n data) es"

lemma calc_stream_loop_eq:
  assumes p: "0 < nc_packsize ctx" and b: "0 < b"
    and "padded_packets b (nat (nc_packsize ctx)) data es"
    and "int (length data) = nc_size ctx - n"
  shows "calc_stream_loop ctx b n sz = Some (Ok (sz + int (length (concat es))))"
  using assms(3-)
proof (induction "nat (nc_packsize ctx)" data arbitrary: n sz es rule: chunks.induct)
  case (1 data)
  let ?p = "nat (nc_packsize ctx)"
  show ?case
  proof (cases "data = []")
    case True
    with "1.prems" show ?thesis by (simp add: padded_packets_def calc_stream_loop.simps)
  next
    case False
    with "1.prems" p obtain e es' where es: "es = e # es'" and e: "Pkcs7Pad (take ?p data) b = Ok e"
      and es': "padded_packets b ?p (drop ?p data) es'"
      by (auto simp: padded_packets_def chunks_rec list_all2_Cons1)
    let ?d = "min (nc_packsize ctx) (nc_size ctx - n)"
    have n: "n < nc_size ctx" using False "1.prems"(2) by (simp flip: length_greater_0_conv)
    have d: "?d = int (length (take ?p data))" using p "1.prems"(2) by simp
    have len: "int (length (drop ?p data)) = nc_size ctx - (n + ?d)"
      using d "1.prems"(2) by simp
    have "calc_stream_loop ctx b n sz = calc_stream_loop ctx b (n + ?d) (sz + (?d + (b - ?d mod b)))"
      using n by (subst calc_stream_loop.simps) (simp add: GetPackSize_eq [OF p b n])
    also have "?d + (b - ?d mod b) = int (length e)"
      unfolding d using length_Pkcs7Pad [OF b e] by simp
    also have "calc_stream_loop ctx b (n + ?d) (sz + int (length e))
        = Some (Ok (sz + int (length e) + int (length (concat es'))))"
      using "1.hyps" [OF _ es' len] False p by simp
    finally show ?thesis by (simp add: es)
  qed
qed

lemma padded_packets_exist: "0 < b \<Longrightarrow> \<exists>es. padded_packets b n data es"
  unfolding padded_packets_def
  by (rule exI [where x = "map (\<lambda>c. SOME e. Pkcs7Pad c b = Ok e) (chunks n data)"])
     (auto simp: list_all2_conv_all_nth Pkcs7Pad_Ok)

lemma calc_stream_loop_diverges:
  assumes p: "nc_packsize ctx \<le> 0" and b: "0 < b" and ret: "calc_stream_loop ctx b n sz = Some r"
  shows "nc_size ctx \<le> n"
proof -
  have "0 < b' \<longrightarrow> nc_packsize ctx' \<le> 0 \<longrightarrow> nc_size ctx' \<le> n'"
    if "calc_stream_loop ctx' b' n' sz' = Some r'" for ctx' b' n' sz' r'
    by (rule calc_stream_loop.raw_induct [OF _ that])
       (fastforce simp: GetPackSize_def RoundUp_def Let_def split: if_splits outcome.splits)
  with assms show ?thesis by blast
qed

subsection \<open>The duplicate check under concurrency\<close>

fun in_section :: "ack_pc \<Rightarrow> bool" where
  "in_section (ASent a) = True"
| "in_section (ACompared a ok) = True"
| "in_section _ = False"

fun done_with :: "ack_pc \<Rightarrow> bool \<Rightarrow> bool" where
  "done_with (ADone a ok) b = (ok = b)"
| "done_with _ b = False"

fun carries :: "ack_pc \<Rightarrow> 32 word" where
  "carries (AStart a) = a"
| "carries (ASent a) = a"
| "carries (ACompared a ok) = a"
| "carries (ADone a ok) = a"

text \<open>
  The channel is full exactly while one goroutine is between its send and its receive; once a
  goroutine is done the last number is \<open>a\<close>; and a positive comparison happens only while nobody
  is done.
\<close>

definition ack_inv :: "32 word \<Rightarrow> ack_sys \<Rightarrow> bool" where
  "ack_inv a s \<longleftrightarrow>
     (\<forall>i. carries (sys_pc s i) = a) \<and>
     (\<forall>i j. in_section (sys_pc s i) \<longrightarrow> in_section (sys_pc s j) \<longrightarrow> i = j) \<and>
     (ackSetChan s = None \<longrightarrow> (\<forall>i. \<not> in_section (sys_pc s i))) \<and>
     (\<forall>v. ackSetChan s = Some v \<longrightarrow> v = a) \<and>
     (\<forall>i b. done_with (sys_pc s i) b \<longrightarrow> sys_ack s = a) \<and>
     (\<forall>i j. sys_pc s i = ACompared a True \<longrightarrow> (\<forall>b. \<not> done_with (sys_pc s j) b)) \<and>
     (\<forall>i j. done_with (sys_pc s i) True \<longrightarrow> done_with (sys_pc s j) True \<longrightarrow> i = j)"

lemma ack_inv_init: "ack_inv a (ack_init last0 a)"
  by (simp add: ack_inv_def ack_init_def)

lemma ack_step_inv:
  assumes "ack_step s t" and "a \<noteq> 0" and "ack_inv a s"
  shows "ack_inv a t"
  using assms(1)
proof cases
  case (send i a')
  with assms(3) show ?thesis unfolding ack_inv_def by (auto; metis carries.simps(1))
next
  case (compare i a')
  then have "a' = a" using assms(3) unfolding ack_inv_def by (metis carries.simps(2))
  with compare assms(2,3) show ?thesis unfolding ack_inv_def by (auto; metis in_section.simps(1))
next
  case (receive i a' ok v)
  then have "a' = a" using assms(3) unfolding ack_inv_def by (metis carries.simps(3))
  moreover have "v = a" using receive assms(3) unfolding ack_inv_def by blast
  ultimately have t: "t = s\<lparr>sys_ack := a, ackSetChan := None, sys_pc := (sys_pc s)(i := ADone a ok)\<rparr>"
    and pc: "sys_pc s i = ACompared a ok"
    using receive by simp_all
  have sec: "j = i" if "in_section (sys_pc s j)" for j
    using that pc assms(3) unfolding ack_inv_def by (metis in_section.simps(2))
  have nd: "\<not> done_with (sys_pc s j) b" if "ok" for j b
    using that pc assms(3) unfolding ack_inv_def by simp blast
  have uniq: "k = j" if "done_with (sys_pc s k) True" "done_with (sys_pc s j) True" for k j
    using that assms(3) unfolding ack_inv_def by blast
  have car: "carries (sys_pc s j) = a" for j
    using assms(3) unfolding ack_inv_def by blast
  have cmp: "sys_pc s j \<noteq> ACompared a True" if "j \<noteq> i" for j
    using that sec [of j] by auto
  show ?thesis unfolding ack_inv_def t by (auto simp: car cmp nd dest: sec uniq)
qed

interpretation duplicate_check: step_system ack_step "\<lambda>s. a \<noteq> 0 \<and> ack_inv a s" for a
  by unfold_locales (blast intro: ack_step_inv)

text \<open>A run that ends with an accepted packet, for a witness.\<close>

lemma ack_run_accepts:
  assumes "a \<noteq> last0"
  shows "\<exists>t. ack_step\<^sup>*\<^sup>* (ack_init last0 a) t \<and> sys_pc t i = ADone a True"
proof -
  let ?s0 = "ack_init last0 a"
  let ?s1 = "?s0\<lparr>ackSetChan := Some a, sys_pc := (sys_pc ?s0)(i := ASent a)\<rparr>"
  let ?s2 = "?s1\<lparr>sys_pc := (sys_pc ?s1)(i := ACompared a (sys_ack ?s1 = 0 \<or> sys_ack ?s1 \<noteq> a))\<rparr>"
  let ?s3 = "?s2\<lparr>sys_ack := a, ackSetChan := None, sys_pc := (sys_pc ?s2)(i := ADone a True)\<rparr>"
  have "ack_step ?s0 ?s1" by (rule ack_step.send) (simp_all add: ack_init_def)
  moreover have "ack_step ?s1 ?s2" by (rule ack_step.compare) simp
  moreover have "ack_step ?s2 ?s3"
    by (rule ack_step.receive) (use assms in \<open>simp_all add: ack_init_def\<close>)
  ultimately have "ack_step\<^sup>*\<^sup>* ?s0 ?s3" by (meson converse_rtranclp_into_rtranclp rtranclp.rtrancl_refl)
  then show ?thesis by (intro exI [where x = ?s3]) simp
qed

subsection \<open>The table of UDP contexts\<close>

text \<open>Every entry points to a live context of its own peer, and no two entries share one.\<close>

definition udp_inv :: "udp_table \<Rightarrow> bool" where
  "udp_inv t \<longleftrightarrow>
     (\<forall>addr p. gUdpNetContext t addr = Some p \<longrightarrow>
        p < udp_next t \<and> (\<exists>ctx. udp_heap t p = Some ctx \<and> nc_peerAdrr ctx = addr)) \<and>
     (\<forall>p. udp_next t \<le> p \<longrightarrow> udp_heap t p = None)"

lemma udp_inv_distinct:
  "udp_inv t \<Longrightarrow> gUdpNetContext t a = Some p \<Longrightarrow> gUdpNetContext t b = Some p \<Longrightarrow> a = b"
  unfolding udp_inv_def by (metis option.inject)

lemma udp_inv_empty: "udp_inv empty_udp_table"
  by (simp add: udp_inv_def empty_udp_table_def)

lemma udp_inv_get: "udp_inv t \<Longrightarrow> udp_inv (snd (GetUdpNetContext addr t))"
  by (auto simp: udp_inv_def GetUdpNetContext_def NewNetContext_def less_Suc_eq split: option.splits)

lemma udp_inv_expire: "udp_inv t \<Longrightarrow> udp_inv (udp_expire addr t)"
  by (auto simp: udp_inv_def udp_expire_def)

lemma GetUdpNetContext_cached:
  "GetUdpNetContext addr t = (p, t') \<Longrightarrow> gUdpNetContext t' addr = Some p"
  by (auto simp: GetUdpNetContext_def split: option.splits)

lemma CalcStreamSize_ok:
  assumes "0 < nc_packsize ctx" and "0 < b" and "int (length data) = nc_size ctx"
  shows "\<exists>es. padded_packets b (nat (nc_packsize ctx)) data es \<and>
              CalcStreamSize ctx b = Some (Ok (int (length (concat es))))"
proof -
  obtain es where "padded_packets b (nat (nc_packsize ctx)) data es"
    using padded_packets_exist [OF assms(2)] by blast
  with calc_stream_loop_eq [OF assms(1,2) this, of 0 0] assms(3) show ?thesis
    by (auto simp: CalcStreamSize_def)
qed

subsection \<open>Properties\<close>

text \<open>
  For a positive packet size and block size, \<open>CalcStreamSize\<close> returns, and its result is the
  total length of the PKCS#7-padded packets into which a stream of that size is cut: the size
  announced in the first packet is the number of bytes that follow.
\<close>

theorem CalcStreamSize_correct:
  assumes "0 < nc_packsize ctx" and "0 < b" and "int (length data) = nc_size ctx"
  shows "\<exists>es. padded_packets b (nat (nc_packsize ctx)) data es \<and>
              CalcStreamSize ctx b = Some (Ok (int (length (concat es))))"
  using assms by (rule CalcStreamSize_ok)

theorem CalcStreamSize_correct_witness:
  "\<exists>es. padded_packets 4 3 [1, 2, 3, 4, 5] es \<and>
        CalcStreamSize ((NewNetContext [])\<lparr>nc_size := 5, nc_packsize := 3\<rparr>) 4
          = Some (Ok (int (length (concat es))))"
  using CalcStreamSize_correct
    [of "(NewNetContext [])\<lparr>nc_size := 5, nc_packsize := 3\<rparr>" 4 "[1, 2, 3, 4, 5]"]
  by (simp add: NewNetContext_def)

text \<open>
  With a positive block size the size computation fails to return exactly when there is
  something to send and the packet size is zero or negative.
\<close>

theorem CalcStreamSize_diverges_iff:
  assumes "0 < b"
  shows "CalcStreamSize ctx b = None \<longleftrightarrow> nc_packsize ctx \<le> 0 \<and> 0 < nc_size ctx"
proof
  assume none: "CalcStreamSize ctx b = None"
  then have pos: "0 < nc_size ctx"
    by (auto simp: CalcStreamSize_def calc_stream_loop.simps split: if_splits)
  moreover have "nc_packsize ctx \<le> 0"
  proof (rule ccontr)
    assume "\<not> nc_packsize ctx \<le> 0"
    then show False using none pos
        CalcStreamSize_ok [of ctx b "replicate (nat (nc_size ctx)) 0"] assms by auto
  qed
  ultimately show "nc_packsize ctx \<le> 0 \<and> 0 < nc_size ctx" by simp
next
  assume "nc_packsize ctx \<le> 0 \<and> 0 < nc_size ctx"
  then show "CalcStreamSize ctx b = None"
    using calc_stream_loop_diverges [OF _ assms, of ctx 0 0]
    by (cases "calc_stream_loop ctx b 0 0") (auto simp: CalcStreamSize_def)
qed

theorem CalcStreamSize_diverges_iff_witness:
  "(0::int) < 16 \<and> CalcStreamSize ((NewNetContext [])\<lparr>nc_size := 5\<rparr>) 16 = None"
  using CalcStreamSize_diverges_iff [of 16 "(NewNetContext [])\<lparr>nc_size := 5\<rparr>"]
  by (simp add: NewNetContext_def)

text \<open>
  C10: Any number of goroutines handle copies of a datagram with the same non-zero sequence
  number on one shared context, in any interleaving of their channel operations: at most one of
  them is told to process it.
\<close>

theorem checkSetAck_accepts_once:
  assumes "ack_step\<^sup>*\<^sup>* (ack_init last0 a) s" and "a \<noteq> 0"
    and "sys_pc s i = ADone a True" and "sys_pc s j = ADone a True"
  shows "i = j"
proof -
  have "ack_inv a s" using duplicate_check.run_inv [OF assms(1), of a] assms(2) ack_inv_init by simp
  with assms(3,4) show ?thesis unfolding ack_inv_def by (metis done_with.simps(1))
qed

theorem checkSetAck_accepts_once_witness:
  "\<exists>s. ack_step\<^sup>*\<^sup>* (ack_init 0 7) s \<and> sys_pc s 3 = ADone 7 True \<and>
       (\<forall>j. sys_pc s j = ADone 7 True \<longleftrightarrow> j = 3)"
proof -
  obtain s where s: "ack_step\<^sup>*\<^sup>* (ack_init 0 7) s" "sys_pc s 3 = ADone 7 True"
    using ack_run_accepts [of 7 0 3] by auto
  then have "sys_pc s j = ADone 7 True \<longleftrightarrow> j = 3" for j
    using checkSetAck_accepts_once [of 0 7 s j 3] by auto
  with s show ?thesis by blast
qed

text \<open>
  In the table of UDP contexts every address has a context of its own that belongs to that
  address, and looking an address up again without an expiry in between returns the same
  context and leaves the table as it is.
\<close>

theorem GetUdpNetContext_inv:
  assumes "udp_inv t" and "GetUdpNetContext addr t = (p, t')"
  shows "udp_inv t' \<and> GetUdpNetContext addr t' = (p, t') \<and>
         (\<exists>ctx. udp_heap t' p = Some ctx \<and> nc_peerAdrr ctx = addr) \<and>
         (\<forall>other. other \<noteq> addr \<longrightarrow> gUdpNetContext t' other \<noteq> Some p)"
proof -
  have inv: "udp_inv t'" using udp_inv_get [OF assms(1), of addr] assms(2) by simp
  have c: "gUdpNetContext t' addr = Some p" using GetUdpNetContext_cached [OF assms(2)] .
  then have "GetUdpNetContext addr t' = (p, t')" by (simp add: GetUdpNetContext_def)
  moreover have "\<exists>ctx. udp_heap t' p = Some ctx \<and> nc_peerAdrr ctx = addr"
    using inv c by (simp add: udp_inv_def)
  ultimately show ?thesis using inv c udp_inv_distinct [OF inv] by blast
qed

theorem GetUdpNetContext_inv_witness:
  "\<exists>t'. GetUdpNetContext ''1.2.3.4:5'' empty_udp_table = (0, t') \<and>
        GetUdpNetContext ''1.2.3.4:5'' t' = (0, t')"
  using GetUdpNetContext_inv [OF udp_inv_empty, of "''1.2.3.4:5''" 0]
  by (simp add: GetUdpNetContext_def empty_udp_table_def)

end
