(* ===== verification/Std_Base64.thy ===== *)
theory Std_Base64
  imports Go_Prelude
begin

text \<open>
  \<^verbatim>\<open>base64.StdEncoding\<close> of \<^verbatim>\<open>encoding/base64\<close> (RFC 4648 with padding): \<open>EncodeToString\<close> and
  \<open>DecodeString\<close>. The decoder ignores carriage returns and line feeds, insists on the padding
  and on nothing following it, and does not look at the unused bits of the last digit.
\<close>

subsection \<open>Digits\<close>

definition b64_alphabet :: string where
  "b64_alphabet = ''ABCDEFGHIJKLMNOPQRSTUVWXYZabcdefghijklmnopqrstuvwxyz0123456789+/''"

definition b64_char :: "nat \<Rightarrow> char" where
  "b64_char n = b64_alphabet ! n"

definition b64_val :: "char \<Rightarrow> nat option" where
  "b64_val c = (if c \<in> set b64_alphabet then Some (length (takeWhile (\<lambda>z. z \<noteq> c) b64_alphabet))
                else None)"

subsection \<open>Encoding\<close>

fun b64_encode :: "bytes \<Rightarrow> string" where
  "b64_encode (x # y # z # rest) =
     (let n = 65536 * unat x + 256 * unat y + unat z in
      b64_char (n div 262144) # b64_char (n div 4096 mod 64) #
      b64_char (n div 64 mod 64) # b64_char (n mod 64) # b64_encode rest)"
| "b64_encode [x, y] =
     (let n = 65536 * unat x + 256 * unat y in
      [b64_char (n div 262144), b64_char (n div 4096 mod 64), b64_char (n div 64 mod 64), CHR ''=''])"
| "b64_encode [x] =
     (let n = 65536 * unat x in
      [b64_char (n div 262144), b64_char (n div 4096 mod 64), CHR ''='', CHR ''=''])"
| "b64_encode [] = []"

subsection \<open>Decoding\<close>

text \<open>The number of 24 bits that a group of digits stands for.\<close>

fun b64_group :: "string \<Rightarrow> nat option" where
  "b64_group [] = Some 0"
| "b64_group (c # cs) =
     (case b64_val c of None \<Rightarrow> None | Some v \<Rightarrow>
      (case b64_group cs of None \<Rightarrow> None | Some n \<Rightarrow> Some (v * 64 ^ length cs + n)))"

fun b64_quanta :: "string \<Rightarrow> bytes option" where
  "b64_quanta [] = Some []"
| "b64_quanta (a # b # c # d # rest) =
     (if d = CHR ''='' then
        (if rest \<noteq> [] then None
         else if c = CHR ''='' then
           (case b64_group [a, b] of None \<Rightarrow> None | Some n \<Rightarrow> Some [of_nat (n div 16)])
         else
           (case b64_group [a, b, c] of None \<Rightarrow> None
            | Some n \<Rightarrow> Some [of_nat (n div 1024), of_nat (n div 4)]))
      else
        (case b64_group [a, b, c, d] of None \<Rightarrow> None
         | Some n \<Rightarrow>
           (case b64_quanta rest of None \<Rightarrow> None
            | Some bs \<Rightarrow> Some (of_nat (n div 65536) # of_nat (n div 256) # of_nat n # bs))))"
| "b64_quanta _ = None"

definition is_newline :: "char \<Rightarrow> bool" where
  "is_newline c \<longleftrightarrow> c = CHR 0x0D \<or> c = CHR 0x0A"

definition b64_decode :: "string \<Rightarrow> bytes outcome" where
  "b64_decode s =
     (case b64_quanta (filter (\<lambda>c. \<not> is_newline c) s) of
        None \<Rightarrow> Err (Sentinel ''base64.CorruptInputError'')
      | Some bs \<Rightarrow> Ok bs)"

subsection \<open>Round trip\<close>

lemma b64_alphabet_props: "length b64_alphabet = 64" "distinct b64_alphabet"
  by (simp_all add: b64_alphabet_def)

lemma b64_char_not_special:
  "n < 64 \<Longrightarrow> b64_char n \<noteq> CHR ''='' \<and> \<not> is_newline (b64_char n)"
proof -
  assume "n < 64"
  then have "b64_char n \<in> set b64_alphabet"
    by (simp add: b64_char_def b64_alphabet_props)
  moreover have "CHR ''='' \<notin> set b64_alphabet" "CHR 0x0D \<notin> set b64_alphabet"
      "CHR 0x0A \<notin> set b64_alphabet"
    by (simp_all add: b64_alphabet_def)
  ultimately show ?thesis by (auto simp: is_newline_def)
qed

lemma b64_val_char [simp]: "n < 64 \<Longrightarrow> b64_val (b64_char n) = Some n"
  using takeWhile_distinct [OF b64_alphabet_props(2), of n]
  by (simp add: b64_val_def b64_char_def b64_alphabet_props)

text \<open>The four digits of a 24-bit number, and its three bytes.\<close>

lemma digits64:
  "(n :: nat) div 262144 * 262144 + (n div 4096 mod 64 * 4096 + (n div 64 mod 64 * 64 + n mod 64)) = n"
proof -
  have "n div 64 mod 64 * 64 + n mod 64 = n mod 4096"
    using mod_mult2_eq [of n 64 64] by simp
  moreover have "n div 4096 mod 64 * 4096 + n mod 4096 = n mod 262144"
    using mod_mult2_eq [of n 4096 64] by simp
  ultimately show ?thesis by simp
qed

lemma byte_bounds: "unat (x :: byte) \<le> 255"
  using byte_less_256 [of x] by linarith

lemma byte_of_nat_eq [bytes_simps]: "(of_nat n :: byte) = x \<longleftrightarrow> n mod 256 = unat x"
  by (simp only: word_unat_eq_iff unat_of_nat_byte)

lemma bytes24:
  assumes "b < 256" "c < (256 :: nat)"
  shows "(65536 * a + 256 * b + c) div 65536 = a"
    "(65536 * a + 256 * b + c) div 256 mod 256 = b"
    "(65536 * a + 256 * b + c) mod 256 = c"
proof -
  have "(c + 256 * (256 * a + b)) mod 256 = c mod 256" by (rule mod_mult_self2)
  with assms show "(65536 * a + 256 * b + c) mod 256 = c"
    by (simp add: algebra_simps)
  have d: "(c + 256 * (256 * a + b)) div 256 = 256 * a + b" using assms by simp
  then have e: "(65536 * a + 256 * b + c) div 256 = b + 256 * a" by (simp add: algebra_simps)
  then show "(65536 * a + 256 * b + c) div 256 mod 256 = b" using assms by simp
  have "(65536 * a + 256 * b + c) div (256 * 256) = a"
    unfolding div_mult2_eq e using assms by simp
  then show "(65536 * a + 256 * b + c) div 65536 = a" by simp
qed

lemma b64_group_chars:
  "a < 64 \<Longrightarrow> b < 64 \<Longrightarrow> b64_group [b64_char a, b64_char b] = Some (a * 64 + b)"
  "a < 64 \<Longrightarrow> b < 64 \<Longrightarrow> c < 64 \<Longrightarrow>
   b64_group [b64_char a, b64_char b, b64_char c] = Some (a * 4096 + (b * 64 + c))"
  "a < 64 \<Longrightarrow> b < 64 \<Longrightarrow> c < 64 \<Longrightarrow> d < 64 \<Longrightarrow>
   b64_group [b64_char a, b64_char b, b64_char c, b64_char d] =
     Some (a * 262144 + (b * 4096 + (c * 64 + d)))"
  by simp_all

lemma b64_quanta_encode: "b64_quanta (b64_encode d) = Some d"
proof (induction d rule: b64_encode.induct)
  case (1 x y z rest)
  define n where "n = 65536 * unat x + 256 * unat y + unat z"
  have "n < 16777216" using byte_bounds [of x] byte_bounds [of y] byte_bounds [of z]
    by (simp add: n_def)
  then have d: "n div 262144 < 64" by auto
  have b: "n div 65536 = unat x" "n div 256 mod 256 = unat y" "n mod 256 = unat z"
    by (simp_all add: n_def bytes24)
  have "b64_group [b64_char (n div 262144), b64_char (n div 4096 mod 64),
      b64_char (n div 64 mod 64), b64_char (n mod 64)] = Some n"
    using d digits64 [of n] b64_group_chars(3) by simp
  with 1 d b show ?case
    by (simp add: n_def [symmetric] Let_def b64_char_not_special byte_of_nat_eq del: b64_group.simps)
next
  case (2 x y)
  define n where "n = 65536 * unat x + 256 * unat y"
  have "n < 16777216" using byte_bounds [of x] byte_bounds [of y] by (simp add: n_def)
  then have d: "n div 262144 < 64" by auto
  have b: "n div 65536 = unat x" "n div 256 mod 256 = unat y"
    using bytes24 [of "unat y" 0 "unat x"] by (simp_all add: n_def)
  let ?m = "n div 262144 * 4096 + (n div 4096 mod 64 * 64 + n div 64 mod 64)"
  have m: "?m = n div 64" using digits64 [of n] by linarith
  have "b64_group [b64_char (n div 262144), b64_char (n div 4096 mod 64),
      b64_char (n div 64 mod 64)] = Some (n div 64)"
    using d b64_group_chars(2) m by simp
  moreover have "n div 64 div 1024 = n div 65536" "n div 64 div 4 = n div 256"
    by (simp_all flip: div_mult2_eq)
  ultimately show ?case using d b
    by (simp add: n_def [symmetric] Let_def b64_char_not_special byte_of_nat_eq del: b64_group.simps)
next
  case (3 x)
  define n where "n = 65536 * unat x"
  have "n < 16777216" using byte_bounds [of x] by (simp add: n_def)
  then have d: "n div 262144 < 64" by auto
  have b: "n div 65536 = unat x" by (simp add: n_def)
  let ?m = "n div 262144 * 64 + n div 4096 mod 64"
  have m: "?m = n div 4096" using digits64 [of n] by linarith
  have "b64_group [b64_char (n div 262144), b64_char (n div 4096 mod 64)] = Some (n div 4096)"
    using d b64_group_chars(1) m by simp
  moreover have "n div 4096 div 16 = n div 65536" by (simp flip: div_mult2_eq)
  ultimately show ?case using d b
    by (simp add: n_def [symmetric] Let_def byte_of_nat_eq del: b64_group.simps)
qed simp

lemma equals_not_newline: "\<not> is_newline (CHR ''='')"
  by (simp add: is_newline_def)

lemma b64_encode_no_newline: "c \<in> set (b64_encode d) \<Longrightarrow> \<not> is_newline c"
proof (induction d rule: b64_encode.induct)
  case (1 x y z rest)
  have "(65536 * unat x + 256 * unat y + unat z) div 262144 < 64"
    using byte_bounds [of x] byte_bounds [of y] byte_bounds [of z] by auto
  with 1 show ?case by (auto simp: Let_def b64_char_not_special)
next
  case (2 x y)
  have "(65536 * unat x + 256 * unat y) div 262144 < 64"
    using byte_bounds [of x] byte_bounds [of y] by auto
  with 2 show ?case by (auto simp: Let_def b64_char_not_special equals_not_newline)
next
  case (3 x)
  have "65536 * unat x div 262144 < 64" using byte_bounds [of x] by auto
  with 3 show ?case by (auto simp: Let_def b64_char_not_special equals_not_newline)
qed simp

text \<open>What the ciphers rely on: decoding undoes encoding, also with newlines around it.\<close>

lemma b64_decode_encode [simp]: "b64_decode (b64_encode d) = Ok d"
  using filter_True [of "b64_encode d" "\<lambda>c. \<not> is_newline c"] b64_encode_no_newline
  by (simp add: b64_decode_def b64_quanta_encode)

lemma b64_encode_empty_iff [simp]: "b64_encode d = [] \<longleftrightarrow> d = []"
  by (cases d rule: b64_encode.cases) (auto simp: Let_def)

end
