(* ===== verification/Cipher_Sig.thy ===== *)
theory Cipher_Sig
  imports Std_Md5 Std_Base64
begin

text \<open>
  \<^verbatim>\<open>cipher2/sig.go\<close>: PKCS#1 v1.5 signatures. RSA itself, the key formats of \<^verbatim>\<open>crypto/x509\<close> and
  the SHA hashes are parameters: the record \<open>rsa_lib\<close> names the library functions the code
  calls, over arbitrary types of private and public keys.
\<close>

datatype chash = MD5 | SHA1 | SHA256

record ('prv, 'pub) rsa_lib =
  sha_sum :: "chash \<Rightarrow> bytes \<Rightarrow> bytes"
  ParsePKCS1PrivateKey :: "bytes \<Rightarrow> 'prv outcome"
  ParsePKCS1PublicKey :: "bytes \<Rightarrow> 'pub outcome"
  rsa_SignPKCS1v15 :: "'prv \<Rightarrow> chash \<Rightarrow> bytes \<Rightarrow> bytes outcome"
  rsa_VerifyPKCS1v15 :: "'pub \<Rightarrow> chash \<Rightarrow> bytes \<Rightarrow> bytes \<Rightarrow> unit outcome"
  rsa_DecryptPKCS1v15 :: "'prv \<Rightarrow> bytes \<Rightarrow> bytes outcome"
  modulus_bytes :: "'prv \<Rightarrow> nat"

text \<open>\<^verbatim>\<open>h := hash.New(); h.Write(src); h.Sum(nil)\<close>\<close>

definition hash_sum :: "('prv, 'pub) rsa_lib \<Rightarrow> chash \<Rightarrow> bytes \<Rightarrow> bytes" where
  "hash_sum L h src = (if h = MD5 then md5 src else sha_sum L h src)"

definition ParseBase64PrivateKey :: "('prv, 'pub) rsa_lib \<Rightarrow> bytes \<Rightarrow> 'prv outcome" where
  "ParseBase64PrivateKey L data =
     obind (b64_decode (string_of_bytes data)) (\<lambda>keyBytes. ParsePKCS1PrivateKey L keyBytes)"

definition ParseBase64PublicKey :: "('prv, 'pub) rsa_lib \<Rightarrow> bytes \<Rightarrow> 'pub outcome" where
  "ParseBase64PublicKey L data =
     obind (b64_decode (string_of_bytes data)) (\<lambda>keyBytes. ParsePKCS1PublicKey L keyBytes)"

definition SignPKCS1v15WithKey :: "('prv, 'pub) rsa_lib \<Rightarrow> bytes \<Rightarrow> 'prv \<Rightarrow> chash \<Rightarrow> bytes outcome" where
  "SignPKCS1v15WithKey L src key h = rsa_SignPKCS1v15 L key h (hash_sum L h src)"

definition SignPKCS1v15 :: "('prv, 'pub) rsa_lib \<Rightarrow> bytes \<Rightarrow> bytes \<Rightarrow> chash \<Rightarrow> bytes outcome" where
  "SignPKCS1v15 L src key h =
     obind (ParseBase64PrivateKey L key) (\<lambda>pri. SignPKCS1v15WithKey L src pri h)"

definition VerifyPKCS1v15WithKey ::
    "('prv, 'pub) rsa_lib \<Rightarrow> bytes \<Rightarrow> bytes \<Rightarrow> 'pub \<Rightarrow> chash \<Rightarrow> unit outcome" where
  "VerifyPKCS1v15WithKey L src sig key h = rsa_VerifyPKCS1v15 L key h (hash_sum L h src) sig"

text \<open>
  \<open>VerifyPKCS1v15\<close> returns the pair of a flag and an error; the flag is true exactly when the
  error is nil, so \<open>Ok True\<close> and \<open>Err e\<close> are all its results.
\<close>

definition VerifyPKCS1v15 ::
    "('prv, 'pub) rsa_lib \<Rightarrow> bytes \<Rightarrow> bytes \<Rightarrow> bytes \<Rightarrow> chash \<Rightarrow> bool outcome" where
  "VerifyPKCS1v15 L src sign key h =
     obind (ParseBase64PublicKey L key) (\<lambda>pubkey.
       obind (VerifyPKCS1v15WithKey L src sign pubkey h) (\<lambda>_. Ok True))"

text \<open>
  The documented behaviour of a matching key pair: the private key signs every hash sum, and the
  public key accepts the signature.
\<close>

definition key_pair :: "('prv, 'pub) rsa_lib \<Rightarrow> string \<Rightarrow> string \<Rightarrow> bool" where
  "key_pair L priv64 pub64 \<longleftrightarrow>
     (\<exists>prv pub. ParseBase64PrivateKey L (bytes_of_string priv64) = Ok prv \<and>
        ParseBase64PublicKey L (bytes_of_string pub64) = Ok pub \<and>
        (\<forall>h src. \<exists>s. rsa_SignPKCS1v15 L prv h (hash_sum L h src) = Ok s \<and>
           rsa_VerifyPKCS1v15 L pub h (hash_sum L h src) s = Ok ()))"

lemma Verify_Sign:
  assumes "key_pair L priv64 pub64"
  shows "\<exists>s. SignPKCS1v15 L src (bytes_of_string priv64) h = Ok s \<and>
             VerifyPKCS1v15 L src s (bytes_of_string pub64) h = Ok True"
  using assms
  by (fastforce simp: key_pair_def SignPKCS1v15_def SignPKCS1v15WithKey_def VerifyPKCS1v15_def
      VerifyPKCS1v15WithKey_def)

text \<open>A library that satisfies it, to show that the requirement can be met.\<close>

definition echo_rsa :: "(bytes, bytes) rsa_lib" where
  "echo_rsa = \<lparr>sha_sum = (\<lambda>_ d. d), ParsePKCS1PrivateKey = Ok, ParsePKCS1PublicKey = Ok,
     rsa_SignPKCS1v15 = (\<lambda>key h d. Ok (key @ d)),
     rsa_VerifyPKCS1v15 = (\<lambda>key h d s. if s = key @ d then Ok ()
        else Err (Sentinel ''crypto/rsa: verification error'')),
     rsa_DecryptPKCS1v15 = (\<lambda>key d. Ok d), modulus_bytes = (\<lambda>_. 20)\<rparr>"

lemma key_pair_echo: "key_pair echo_rsa (b64_encode k) (b64_encode k)"
  by (simp add: key_pair_def echo_rsa_def ParseBase64PrivateKey_def ParseBase64PublicKey_def)

end
