(* ===== verification/Net_Wire.thy ===== *)
theory Net_Wire
  imports Std_Bufio Net_Context Cipher_Sig
begin

text \<open>
  The wire level of \<^verbatim>\<open>netserve/transcipher.go\<close>: sizes of wire types (\<open>sizeof\<close>), reading exactly
  \<open>n\<close> bytes (\<open>readBytes\<close>), reading a line (\<open>readLine\<close>), the length-prefixed frame
  (\<open>ReadAllData\<close>), the packet header and the packet checksum.
\<close>

subsection \<open>Sizes of wire types\<close>

text \<open>The types \<^verbatim>\<open>reflect\<close> distinguishes here: arrays, structs, fixed-size numbers, all others.\<close>

datatype rtype = RArray nat rtype | RStruct "rtype list" | RNumber nat | ROther

fun sizeof :: "rtype \<Rightarrow> int" and sizeof_fields :: "rtype list \<Rightarrow> int \<Rightarrow> int" where
  "sizeof (RArray n t) = (let s = sizeof t in if s \<ge> 0 then s * int n else -1)"
| "sizeof (RStruct ts) = sizeof_fields ts 0"
| "sizeof (RNumber n) = int n"
| "sizeof ROther = -1"
| "sizeof_fields [] acc = acc"
| "sizeof_fields (t # ts) acc = (let s = sizeof t in if s < 0 then -1 else sizeof_fields ts (acc + s))"

definition packhdr_type :: rtype where
  "packhdr_type = RStruct [RNumber 8, RNumber 4, RNumber 4, RNumber 4, RNumber 8]"

definition packhdrsize :: nat where
  "packhdrsize = nat (sizeof packhdr_type)"

lemma packhdrsize_eq [simp]: "packhdrsize = 28"
  by (simp add: packhdrsize_def packhdr_type_def)

subsection \<open>Reading\<close>

abbreviation format_panic :: "'a outcome" where
  "format_panic \<equiv> Panic (PErr (Errorf ''packet format erro'' []))"

text \<open>
  The loop of \<open>readBytes\<close>: \<open>b\<close> is what has been collected (\<open>None\<close> for nil), \<open>counter\<close> the number
  of empty rounds.
\<close>

function read_loop :: "reader \<Rightarrow> nat \<Rightarrow> bytes option \<Rightarrow> nat \<Rightarrow> (bytes \<times> reader) outcome" where
  "read_loop rd n b counter =
     (let (tmp, err) = Peek rd n; rd' = Discard rd (length tmp) in
      if err = None \<and> b = None then Ok (tmp, rd')
      else if err \<noteq> None \<and> err \<noteq> Some ErrBufferFull then Panic (PErr (the err))
      else if tmp = [] then
        (if counter + 1 > 10
         then Panic (PErr (Errorf ''readBytes can not read any data, times %v''
                [AInt (int (counter + 1))]))
         else read_loop rd' n b (counter + 1))
      else
        (let b' = (case b of None \<Rightarrow> tmp | Some xs \<Rightarrow> xs @ tmp) in
         if err = None then Ok (b', rd')
         else read_loop rd' (n - length tmp) (Some b') counter))"
  by pat_completeness auto
termination
  by (relation "measures [\<lambda>(rd, n, b, counter). n, \<lambda>(rd, n, b, counter). 10 - counter]")
     (auto simp: Peek_def split: if_splits)

declare read_loop.simps [simp del]

definition readBytes :: "reader \<Rightarrow> int \<Rightarrow> (bytes \<times> reader) outcome" where
  "readBytes rd n =
     (if n \<le> 0 then Panic (PErr (Errorf ''read n is %d'' [AInt n]))
      else read_loop rd (nat n) None 0)"

text \<open>The loop of \<open>readLine\<close>; \<open>line\<close> is what has been collected. The size of a buffer is at least 16.\<close>

function line_loop :: "reader \<Rightarrow> bytes \<Rightarrow> (bytes \<times> reader) outcome" where
  "line_loop rd line =
     (case ReadLine rd of
        Err e \<Rightarrow> Err e
      | Panic p \<Rightarrow> Panic p
      | Ok (l, isPrefix, rd') \<Rightarrow>
          if isPrefix \<and> 1 < rd_size rd then line_loop rd' (line @ l) else Ok (line @ l, rd'))"
  by pat_completeness auto
termination
proof (relation "measure (\<lambda>(rd, line). length (rd_data rd))")
  fix rd line and x :: "bytes \<times> bool \<times> reader" and l y isPrefix rd'
  assume "ReadLine rd = Ok x" and "(l, y) = x" and "(isPrefix, rd') = y" and "isPrefix \<and> 1 < rd_size rd"
  then have "rd' = Discard rd (length (chop_cr (take (rd_size rd) (rd_data rd))))"
    and "rd_size rd \<le> length (rd_data rd)" and "1 < rd_size rd"
    by (auto simp: ReadLine_def Let_def split: if_splits)
  then show "((rd', line @ l), rd, line) \<in> measure (\<lambda>(rd, line). length (rd_data rd))"
    by (auto simp: chop_cr_def)
qed simp

declare line_loop.simps [simp del]

definition readLine :: "reader \<Rightarrow> (bytes \<times> reader) outcome" where
  "readLine rd = line_loop rd []"

text \<open>A frame: four bytes of length, little endian, then as many bytes.\<close>

definition ReadAllData :: "reader \<Rightarrow> (bytes \<times> reader) outcome" where
  "ReadAllData rd =
     obind (readBytes rd 4) (\<lambda>(tmp, rd).
       let n = int (le_dec tmp) in
       if n \<le> 0 then format_panic
       else obind (readBytes rd n) (\<lambda>(data, rd).
         if int (length data) \<noteq> n then format_panic else Ok (data, rd)))"

subsection \<open>Header and checksum\<close>

definition hdr_encode :: "TransPacketHdr \<Rightarrow> bytes" where
  "hdr_encode h = le_enc 8 (unat (Checksum h)) @ le_enc 4 (unat (Msgtype h)) @
     le_enc 4 (unat (Version h)) @ le_enc 4 (unat (Seq h)) @ le_enc 8 (unat (Nonce h))"

definition hdr_decode :: "bytes \<Rightarrow> TransPacketHdr" where
  "hdr_decode b =
     \<lparr>Checksum = of_nat (le_dec (take 8 b)), Msgtype = of_nat (le_dec (take 4 (drop 8 b))),
      Version = of_nat (le_dec (take 4 (drop 12 b))), Seq = of_nat (le_dec (take 4 (drop 16 b))),
      Nonce = of_nat (le_dec (take 8 (drop 20 b)))\<rparr>"

text \<open>
  \<open>CalcCheckSum\<close> first clears the checksum field, in the caller's array, then hashes. It returns
  the sum and the array as it leaves it.
\<close>

definition CalcCheckSum :: "bytes \<Rightarrow> (64 word \<times> bytes) outcome" where
  "CalcCheckSum data =
     (if length data < 8 then index_panic
      else let data = le_enc 8 0 @ drop 8 data; ck = md5 data
        in Ok (of_nat (le_dec (take 8 (drop 4 ck))), data))"

lemma length_hdr_encode [simp]: "length (hdr_encode h) = 28"
  by (simp add: hdr_encode_def)

lemma word_of_le [bytes_simps]: "LENGTH('a::len) = 8 * n \<Longrightarrow>
  (of_nat (le_dec (le_enc n (unat (w :: 'a word)))) :: 'a word) = w"
proof -
  assume l: "LENGTH('a) = 8 * n"
  have "unat w < 2 ^ LENGTH('a)" by simp
  also have "(2 :: nat) ^ LENGTH('a) = 256 ^ n" by (simp add: l power_mult)
  finally show ?thesis by (simp add: le_dec_le_enc)
qed

lemma hdr_roundtrip [simp]: "hdr_decode (hdr_encode h @ rest) = h"
  by (simp add: hdr_decode_def hdr_encode_def word_of_le)

lemma hdr_encode_checksum:
  "le_enc 8 (unat ck) @ drop 8 (hdr_encode h) = hdr_encode (h\<lparr>Checksum := ck\<rparr>)"
  by (simp add: hdr_encode_def)

subsection \<open>What the readers return\<close>

lemma read_loop_enough:
  assumes "rd_ok rd" "0 < n" "n \<le> length (rd_data rd)"
  shows "read_loop rd n b c =
    Ok ((case b of None \<Rightarrow> [] | Some xs \<Rightarrow> xs) @ take n (rd_data rd), Discard rd n)"
  using assms
proof (induction n arbitrary: rd b rule: less_induct)
  case (less n)
  show ?case
  proof (cases "n \<le> rd_size rd")
    case True
    with less.prems show ?thesis
      by (subst read_loop.simps) (auto simp: Peek_def Let_def split: option.splits)
  next
    case False
    let ?k = "rd_size rd" and ?d = "rd_data rd"
    let ?xs = "case b of None \<Rightarrow> [] | Some xs \<Rightarrow> xs"
    have k: "0 < ?k" "?k < n" "16 \<le> ?k" using less.prems(1) False by (auto simp: rd_ok_def)
    have ne: "take ?k ?d \<noteq> []" using less.prems k by auto
    have "read_loop rd n b c = read_loop (Discard rd ?k) (n - ?k) (Some (?xs @ take ?k ?d)) c"
      using k less.prems(2-) ne
      by (subst read_loop.simps) (auto simp: Peek_def Let_def min_def split: option.splits)
    also have "\<dots> = Ok (?xs @ (take ?k ?d @ take (n - ?k) (drop ?k ?d)), Discard rd n)"
      using less.IH [of "n - ?k" "Discard rd ?k"] less.prems k by simp
    also have "take ?k ?d @ take (n - ?k) (drop ?k ?d) = take n ?d"
      using take_add [of ?k "n - ?k" ?d] k by simp
    finally show ?thesis by simp
  qed
qed

lemma read_loop_short:
  assumes "rd_ok rd" "length (rd_data rd) < n" "c \<le> 10"
  shows "\<exists>e. read_loop rd n b c = Panic (PErr e)"
  using assms
proof (induction rd n b c rule: read_loop.induct)
  case (1 rd n b c)
  show ?case
  proof (cases "n \<le> rd_size rd")
    case True
    with "1.prems" show ?thesis
      by (subst read_loop.simps) (auto simp: Peek_def Let_def rd_ok_def)
  next
    case False
    note big = this
    let ?k = "length (take (rd_size rd) (rd_data rd))"
    have peek: "Peek rd n = (take (rd_size rd) (rd_data rd), Some ErrBufferFull)"
      using big by (simp add: Peek_def)
    show ?thesis
    proof (cases "rd_data rd = []")
      case True
      with "1.prems" peek "1.IH"(1) [OF peek [symmetric] refl] show ?thesis
        by (subst read_loop.simps) (auto simp: Let_def)
    next
      case False
      then have ne: "take (rd_size rd) (rd_data rd) \<noteq> []"
        using "1.prems"(1) by (auto simp: rd_ok_def)
      have len: "length (rd_data (Discard rd ?k)) < n - ?k" using "1.prems"(2) big by auto
      have "\<exists>e. read_loop (Discard rd ?k) (n - ?k)
          (Some (case b of None \<Rightarrow> take (rd_size rd) (rd_data rd)
             | Some xs \<Rightarrow> xs @ take (rd_size rd) (rd_data rd))) c = Panic (PErr e)"
        using "1.IH"(2) [OF peek [symmetric] refl] "1.prems" ne len by simp
      with peek ne show ?thesis by (subst read_loop.simps) (simp add: Let_def)
    qed
  qed
qed

lemma readBytes_enough:
  "rd_ok rd \<Longrightarrow> 0 < n \<Longrightarrow> n \<le> length (rd_data rd) \<Longrightarrow>
   readBytes rd (int n) = Ok (take n (rd_data rd), Discard rd n)"
  by (simp add: readBytes_def read_loop_enough)

lemma ReadAllData_frame:
  assumes "rd_ok rd" and "rd_data rd = le_enc 4 (length body) @ body @ rest"
    and "body \<noteq> []" and "length body < 2 ^ 32"
  shows "ReadAllData rd = Ok (body, Discard rd (4 + length body))"
proof -
  have "readBytes rd 4 = Ok (le_enc 4 (length body), Discard rd 4)"
    using readBytes_enough [OF assms(1), of 4] assms(2) by simp
  moreover have "le_dec (le_enc 4 (length body)) = length body"
    using assms(4) by (simp add: le_dec_le_enc)
  moreover have "readBytes (Discard rd 4) (int (length body)) =
      Ok (body, Discard rd (4 + length body))"
    using readBytes_enough [of "Discard rd 4" "length body"] assms by simp
  ultimately show ?thesis using assms(3) by (simp add: ReadAllData_def Let_def)
qed

lemma takeWhile_line: "LF \<notin> set l \<Longrightarrow> takeWhile (\<lambda>b. b \<noteq> LF) (l @ LF # rest) = l"
  by (induction l) auto

lemma line_loop_crlf:
  assumes "rd_ok rd" "rd_data rd = l @ CR # LF # rest" "LF \<notin> set l"
  shows "line_loop rd acc = Ok (acc @ l, Discard rd (length l + 2))"
  using assms
proof (induction "length l" arbitrary: l rd acc rule: less_induct)
  case less
  let ?n = "rd_size rd"
  have n: "16 \<le> ?n" using less.prems(1) by (simp add: rd_ok_def)
  have crlf: "CR \<noteq> LF" by (simp add: CR_def LF_def)
  show ?case
  proof (cases "length l + 2 \<le> ?n")
    case True
    then have "take ?n (rd_data rd) = (l @ [CR]) @ LF # take (?n - length l - 2) rest"
      by (simp add: less.prems(2) take_Cons')
    moreover have "takeWhile (\<lambda>b. b \<noteq> LF) ((l @ [CR]) @ LF # take (?n - length l - 2) rest) = l @ [CR]"
      using less.prems(3) crlf by (intro takeWhile_line) auto
    ultimately have "ReadLine rd = Ok (l, False, Discard rd (length l + 2))"
      by (simp add: ReadLine_def chop_cr_def)
    then show ?thesis by (simp add: line_loop.simps)
  next
    case False
    then have buf: "take ?n (rd_data rd) = take ?n (l @ [CR])"
      by (simp add: less.prems(2) take_Cons')
    define k where "k = length (chop_cr (take ?n (l @ [CR])))"
    have k: "chop_cr (take ?n (l @ [CR])) = take k l" "0 < k" "k \<le> length l"
      using False n by (auto simp: k_def chop_cr_def butlast_take butlast_append take_Cons')
    have "LF \<notin> set (take ?n (rd_data rd))"
      unfolding buf using less.prems(3) crlf by (auto dest: in_set_takeD)
    then have "ReadLine rd = Ok (take k l, True, Discard rd k)"
      using False k buf by (simp add: ReadLine_def less.prems(2) Let_def min_def)
    then have "line_loop rd acc = line_loop (Discard rd k) (acc @ take k l)"
      using n by (simp add: line_loop.simps [of rd])
    also have "\<dots> = Ok ((acc @ take k l) @ drop k l, Discard (Discard rd k) (length (drop k l) + 2))"
      using less.prems k by (intro less.hyps) (auto dest: in_set_dropD)
    finally show ?thesis using k(3) by simp
  qed
qed

lemma readLine_crlf:
  "rd_ok rd \<Longrightarrow> rd_data rd = l @ [CR, LF] @ rest \<Longrightarrow> LF \<notin> set l \<Longrightarrow>
   readLine rd = Ok (l, Discard rd (length l + 2))"
  using line_loop_crlf [of rd l rest "[]"] by (simp add: readLine_def)

subsection \<open>Properties\<close>

text \<open>
  C26: \<open>readBytes\<close> returns exactly the next \<open>n\<close> bytes and consumes them, also when \<open>n\<close> is larger
  than the buffer, if \<open>n\<close> is positive and the connection delivers that many; in every other
  case it panics with an error value, and it always returns.
\<close>

theorem readBytes_exact:
  assumes "rd_ok rd"
  shows "if 0 < n \<and> nat n \<le> length (rd_data rd)
         then readBytes rd n = Ok (take (nat n) (rd_data rd), Discard rd (nat n))
         else \<exists>e. readBytes rd n = Panic (PErr e)"
proof (cases "0 < n")
  case True
  show ?thesis
  proof (cases "nat n \<le> length (rd_data rd)")
    case enough: True
    with True readBytes_enough [OF assms, of "nat n"] show ?thesis by simp
  next
    case False
    then obtain e where "read_loop rd (nat n) None 0 = Panic (PErr e)"
      using read_loop_short [OF assms, of "nat n" 0 None] by auto
    with False True show ?thesis by (simp add: readBytes_def)
  qed
qed (simp add: readBytes_def)

theorem readBytes_exact_witness:
  "readBytes \<lparr>rd_data = replicate 40 1 @ [7], rd_err = Sentinel ''EOF'', rd_size = 16\<rparr> 40
     = Ok (replicate 40 1, \<lparr>rd_data = [7], rd_err = Sentinel ''EOF'', rd_size = 16\<rparr>)"
  using readBytes_exact [of "\<lparr>rd_data = replicate 40 1 @ [7], rd_err = Sentinel ''EOF'', rd_size = 16\<rparr>" 40]
  by (simp add: rd_ok_def Discard_def)

end
