(* ===== verification/Cipher_Ecb.thy ===== *)
theory Cipher_Ecb
  imports Std_Aes
begin

text \<open>
  \<^verbatim>\<open>cipher2/ecbaes.go\<close>: the repository's own ECB mode. \<open>CryptBlocks(dst, src)\<close> reads \<open>src\<close> and
  writes \<open>dst\<close> block by block, and the callers pass the same slice for both, so the two slices
  are windows of one array here and every write is visible to later reads.
\<close>

subsection \<open>Slices of a shared array\<close>

record window =
  off :: nat
  len :: nat

definition in_array :: "window \<Rightarrow> bytes \<Rightarrow> bool" where
  "in_array w mem \<longleftrightarrow> off w + len w \<le> length mem"

definition read_window :: "window \<Rightarrow> bytes \<Rightarrow> bytes" where
  "read_window w mem = take (len w) (drop (off w) mem)"

definition write_at :: "nat \<Rightarrow> bytes \<Rightarrow> bytes \<Rightarrow> bytes" where
  "write_at i xs mem = take i mem @ xs @ drop (i + length xs) mem"

subsection \<open>The operations\<close>

text \<open>\<^verbatim>\<open>ecb\<close>, the struct: what the block cipher makes of a block, and its block size.\<close>

record ecb =
  b_encrypt :: "bytes \<Rightarrow> bytes"
  b_decrypt :: "bytes \<Rightarrow> bytes"
  blockSize :: nat

definition newECB :: "(bytes \<Rightarrow> bytes) \<Rightarrow> (bytes \<Rightarrow> bytes) \<Rightarrow> nat \<Rightarrow> ecb" where
  "newECB E D n = \<lparr>b_encrypt = E, b_decrypt = D, blockSize = n\<rparr>"

text \<open>
  \<open>Encrypt\<close> and \<open>Decrypt\<close> of a \<^verbatim>\<open>cipher.Block\<close> over the array: the blocks must be the same or disjoint;
  otherwise the block ciphers of the standard library panic, here with the text of \<^verbatim>\<open>crypto/aes\<close>.
\<close>

definition inexact_overlap :: "nat \<Rightarrow> nat \<Rightarrow> nat \<Rightarrow> bool" where
  "inexact_overlap bs d s \<longleftrightarrow> d \<noteq> s \<and> d < s + bs \<and> s < d + bs"

definition overlap_panic :: "'a outcome" where
  "overlap_panic = Panic (PStr ''crypto/aes: invalid buffer overlap'' [])"

definition block_crypt :: "(bytes \<Rightarrow> bytes) \<Rightarrow> nat \<Rightarrow> nat \<Rightarrow> nat \<Rightarrow> bytes \<Rightarrow> bytes outcome" where
  "block_crypt f bs d s mem =
     (if inexact_overlap bs d s then overlap_panic else Ok (write_at d (f (take bs (drop s mem))) mem))"

text \<open>
  The loop of \<open>CryptBlocks\<close>: \<open>d\<close> and \<open>s\<close> are the current starts of \<open>dst\<close> and \<open>src\<close>, \<open>n\<close> the bytes
  of \<open>src\<close> left. The block size is positive here: the callers divide by it first.
\<close>

function ecb_loop :: "(bytes \<Rightarrow> bytes) \<Rightarrow> nat \<Rightarrow> nat \<Rightarrow> nat \<Rightarrow> nat \<Rightarrow> bytes \<Rightarrow> bytes outcome" where
  "ecb_loop f bs d s n mem =
     (if 0 < n \<and> 0 < bs
      then obind (block_crypt f bs d s mem) (ecb_loop f bs (d + bs) (s + bs) (n - bs))
      else Ok mem)"
  by pat_completeness auto
termination by (relation "measure (\<lambda>(f, bs, d, s, n, mem). n)") auto

declare ecb_loop.simps [simp del]

definition ecbEncrypter_CryptBlocks :: "ecb \<Rightarrow> window \<Rightarrow> window \<Rightarrow> bytes \<Rightarrow> bytes outcome" where
  "ecbEncrypter_CryptBlocks x dst src mem =
     (if blockSize x = 0 then divide_panic
      else if len src mod blockSize x \<noteq> 0
      then Panic (PStr ''crypto/cipher: input not full blocks'' [])
      else if len dst < len src
      then Panic (PStr ''crypto/cipher: output size %d smaller than input size %d''
             [AInt (int (len dst)), AInt (int (len src))])
      else ecb_loop (b_encrypt x) (blockSize x) (off dst) (off src) (len src) mem)"

definition ecbDecrypter_CryptBlocks :: "ecb \<Rightarrow> window \<Rightarrow> window \<Rightarrow> bytes \<Rightarrow> bytes outcome" where
  "ecbDecrypter_CryptBlocks x dst src mem =
     (if blockSize x = 0 then divide_panic
      else if len src mod blockSize x \<noteq> 0
      then Panic (PStr ''crypto/cipher: input not full blocks'' [])
      else if len dst < len src
      then Panic (PStr ''crypto/cipher: output smaller than input'' [])
      else ecb_loop (b_decrypt x) (blockSize x) (off dst) (off src) (len src) mem)"

subsection \<open>The loop computes the block-wise map\<close>

lemma length_write_at: "i + length xs \<le> length mem \<Longrightarrow> length (write_at i xs mem) = length mem"
  by (simp add: write_at_def)

lemma take_drop_write_at:
  assumes "i + length xs \<le> length mem"
    and "i + length xs \<le> s \<or> s + n \<le> i"
  shows "take n (drop s (write_at i xs mem)) = take n (drop s mem)"
proof (cases "i + length xs \<le> s")
  case True
  then have "drop s (write_at i xs mem) = drop s mem"
    using assms(1) by (simp add: write_at_def drop_take add.commute)
  then show ?thesis by simp
next
  case False
  then have "s + n \<le> i" using assms(2) by simp
  then show ?thesis using assms(1)
    by (auto simp: write_at_def drop_take min_def)
qed

lemma write_at_append:
  "i + length xs + length ys \<le> length mem \<Longrightarrow>
   write_at (i + length xs) ys (write_at i xs mem) = write_at i (xs @ ys) mem"
  by (simp add: write_at_def add.assoc add.commute add.left_commute)

lemma write_at_Nil [simp]: "write_at i [] mem = mem"
  by (simp add: write_at_def)

lemma ecb_map_length:
  assumes "0 < bs" "length xs mod bs = 0" "\<And>x. length x = bs \<Longrightarrow> length (f x) = bs"
  shows "length (ecb_map f bs xs) = length xs"
  using assms(1,2) by (induction rule: blocks_induct) (simp_all add: ecb_map_block assms)

lemma ecb_loop_eq:
  assumes bs: "0 < bs" and f: "\<And>x. length x = bs \<Longrightarrow> length (f x) = bs"
    and "n mod bs = 0" "s + n \<le> length mem" "d + n \<le> length mem" "d = s \<or> d + bs \<le> s \<or> s + n \<le> d"
  shows "ecb_loop f bs d s n mem = Ok (write_at d (ecb_map f bs (take n (drop s mem))) mem)"
  using assms(3-)
proof (induction n arbitrary: d s mem rule: less_induct)
  case (less n)
  show ?case
  proof (cases "n = 0")
    case False
    with less.prems(1) have le: "bs \<le> n"
      by (metis dvd_imp_le mod_eq_0_iff_dvd neq0_conv)
    let ?x = "take bs (drop s mem)" and ?xs = "take (n - bs) (drop (s + bs) mem)"
    let ?m = "write_at d (f ?x) mem"
    have x: "length ?x = bs" using le less.prems by simp
    have m: "(n - bs) mod bs = 0" using less.prems(1) le by (simp add: mod_eq_0_iff_dvd)
    have xs: "length ?xs = n - bs" using le less.prems by simp
    have "\<not> inexact_overlap bs d s" using less.prems(4) le by (auto simp: inexact_overlap_def)
    then have "ecb_loop f bs d s n mem = ecb_loop f bs (d + bs) (s + bs) (n - bs) ?m"
      using False bs by (simp add: ecb_loop.simps [of f bs d s n] block_crypt_def)
    also have "\<dots> = Ok (write_at (d + bs) (ecb_map f bs (take (n - bs) (drop (s + bs) ?m))) ?m)"
      using less.IH [of "n - bs"] False bs le m less.prems f [OF x]
      by (auto simp: length_write_at)
    also have "take (n - bs) (drop (s + bs) ?m) = ?xs"
      using less.prems le f [OF x] by (intro take_drop_write_at) auto
    also have "write_at (d + bs) (ecb_map f bs ?xs) ?m = write_at d (f ?x @ ecb_map f bs ?xs) mem"
      using write_at_append [of d "f ?x" "ecb_map f bs ?xs" mem] f [OF x] less.prems le
      by (simp add: ecb_map_length bs m xs f)
    also have "f ?x @ ecb_map f bs ?xs = ecb_map f bs (?x @ ?xs)"
      using ecb_map_block [OF bs x] by simp
    also have "?x @ ?xs = take n (drop s mem)"
      using take_add [of bs "n - bs" "drop s mem"] le by (simp add: add.commute)
    finally show ?thesis .
  qed (simp add: ecb_loop.simps)
qed

text \<open>The distance of the two slices never changes, so the loop panics at its first block or not at all.\<close>

lemma ecb_loop_overlap:
  "0 < n \<Longrightarrow> 0 < bs \<Longrightarrow> inexact_overlap bs d s \<Longrightarrow> ecb_loop f bs d s n mem = overlap_panic"
  by (simp add: ecb_loop.simps block_crypt_def overlap_panic_def)

lemma ecb_loop_returns: "n = 0 \<or> \<not> inexact_overlap bs d s \<Longrightarrow> \<exists>mem'. ecb_loop f bs d s n mem = Ok mem'"
proof (induction n arbitrary: d s mem rule: less_induct)
  case (less n)
  have "n = 0 \<or> \<not> inexact_overlap bs (d + bs) (s + bs)" using less.prems by (auto simp: inexact_overlap_def)
  with less show ?case by (subst ecb_loop.simps) (auto simp: block_crypt_def)
qed

lemma read_window_write_at:
  "off w + len w \<le> length mem \<Longrightarrow> length xs = len w \<Longrightarrow> read_window w (write_at (off w) xs mem) = xs"
  by (simp add: read_window_def write_at_def)

lemma write_at_read_window:
  "off w + len w \<le> length mem \<Longrightarrow> length xs = len w \<Longrightarrow>
   write_at (off w) (read_window w mem) (write_at (off w) xs mem) = mem"
  by (simp add: read_window_def write_at_def flip: take_add drop_drop add: add.commute)

text \<open>ECB over the standard AES block.\<close>

definition aes_ecb :: "bytes \<Rightarrow> ecb" where
  "aes_ecb key = newECB (aes_encrypt key) (aes_decrypt key) 16"

lemma ecb_decrypt_encrypt:
  assumes "block_cipher (b_encrypt x) (b_decrypt x) (blockSize x)"
    and "\<forall>b. length b = blockSize x \<longrightarrow> length (b_decrypt x b) = blockSize x"
    and "in_array w mem" and "len w mod blockSize x = 0"
  shows "obind (ecbEncrypter_CryptBlocks x w w mem) (ecbDecrypter_CryptBlocks x w w) = Ok mem"
proof -
  let ?bs = "blockSize x" and ?m = "read_window w mem"
  let ?c = "ecb_map (b_encrypt x) ?bs ?m"
  have bs: "0 < ?bs" by (rule block_cipher.bs_pos [OF assms(1)])
  have w: "off w + len w \<le> length mem" and m: "length ?m = len w"
    using assms(3) by (auto simp: in_array_def read_window_def)
  have c: "length ?c = len w"
    using block_cipher.ecb_length [OF assms(1), of ?m] m assms(4) by simp
  have "ecb_loop (b_encrypt x) ?bs (off w) (off w) (len w) mem = Ok (write_at (off w) ?c mem)"
    using bs w assms(4) block_cipher.length_E [OF assms(1)]
    by (simp add: ecb_loop_eq read_window_def)
  moreover have "ecb_loop (b_decrypt x) ?bs (off w) (off w) (len w) (write_at (off w) ?c mem)
      = Ok (write_at (off w) (ecb_map (b_decrypt x) ?bs ?c) (write_at (off w) ?c mem))"
    using bs w c assms(2,4) read_window_write_at [OF w c]
    by (simp add: ecb_loop_eq length_write_at read_window_def)
  moreover have "ecb_map (b_decrypt x) ?bs ?c = ?m"
    using block_cipher.ecb_roundtrip [OF assms(1)] m assms(4) by simp
  ultimately show ?thesis
    using bs assms(4) write_at_read_window [OF w c]
    by (simp add: ecbEncrypter_CryptBlocks_def ecbDecrypter_CryptBlocks_def)
qed

subsection \<open>Properties\<close>

text \<open>
  C27: \<open>CryptBlocks\<close> of the ECB encrypter on whole blocks with room for them in \<open>dst\<close>: if the slices are
  the same, disjoint, or \<open>dst\<close> begins a block or more before \<open>src\<close>, it writes to \<open>dst\<close> the block-wise
  encryption of what \<open>src\<close> held before the call and changes nothing else. If they begin less than a block
  apart and not at the same place, it panics before it writes anything, unless \<open>src\<close> is empty, and
  otherwise it never panics.
\<close>

theorem ecb_encrypt_blocks_spec:
  assumes "0 < blockSize x"
    and "\<forall>b. length b = blockSize x \<longrightarrow> length (b_encrypt x b) = blockSize x"
    and "in_array dst mem" and "in_array src mem"
    and "len src mod blockSize x = 0" and "len src \<le> len dst"
  shows "(off dst = off src \<or> off dst + blockSize x \<le> off src \<or> off src + len src \<le> off dst \<longrightarrow>
      ecbEncrypter_CryptBlocks x dst src mem =
        Ok (write_at (off dst) (ecb_map (b_encrypt x) (blockSize x) (read_window src mem)) mem)) \<and>
    (if 0 < len src \<and> inexact_overlap (blockSize x) (off dst) (off src)
     then ecbEncrypter_CryptBlocks x dst src mem = Panic (PStr ''crypto/aes: invalid buffer overlap'' [])
     else \<exists>mem'. ecbEncrypter_CryptBlocks x dst src mem = Ok mem')"
proof -
  have run: "ecbEncrypter_CryptBlocks x dst src mem =
      ecb_loop (b_encrypt x) (blockSize x) (off dst) (off src) (len src) mem"
    using assms by (simp add: ecbEncrypter_CryptBlocks_def)
  show ?thesis unfolding run
    using assms ecb_loop_eq [of "blockSize x" "b_encrypt x" "len src" "off src" mem "off dst"]
      ecb_loop_overlap [of "len src" "blockSize x" "off dst" "off src" "b_encrypt x" mem]
      ecb_loop_returns [where f = "b_encrypt x" and n = "len src" and mem = mem and bs = "blockSize x" and d = "off dst" and s = "off src"]
    by (auto simp: in_array_def read_window_def overlap_panic_def)
qed

theorem ecb_encrypt_blocks_spec_witness:
  "ecbEncrypter_CryptBlocks (newECB (map (\<lambda>b. b + 1)) (map (\<lambda>b. b - 1)) 2)
     \<lparr>off = 0, len = 4\<rparr> \<lparr>off = 2, len = 4\<rparr> [1, 2, 3, 4, 5, 6] = Ok [4, 5, 6, 7, 5, 6] \<and>
   ecbEncrypter_CryptBlocks (newECB (map (\<lambda>b. b + 1)) (map (\<lambda>b. b - 1)) 2)
     \<lparr>off = 0, len = 4\<rparr> \<lparr>off = 1, len = 4\<rparr> [1, 2, 3, 4, 5] = Panic (PStr ''crypto/aes: invalid buffer overlap'' [])"
  using ecb_encrypt_blocks_spec
    [of "newECB (map (\<lambda>b. b + 1)) (map (\<lambda>b. b - 1)) 2" "\<lparr>off = 0, len = 4\<rparr>" "[1, 2, 3, 4, 5, 6]"
        "\<lparr>off = 2, len = 4\<rparr>"]
    ecb_encrypt_blocks_spec
    [of "newECB (map (\<lambda>b. b + 1)) (map (\<lambda>b. b - 1)) 2" "\<lparr>off = 0, len = 4\<rparr>" "[1, 2, 3, 4, 5]"
        "\<lparr>off = 1, len = 4\<rparr>"]
  by (simp add: newECB_def in_array_def read_window_def write_at_def ecb_map.simps inexact_overlap_def)

text \<open>
  Encrypting a window of whole blocks in place and decrypting it in place restores the
  whole array, for any block cipher whose decryption inverts its encryption.
\<close>

theorem ecb_inplace_roundtrip:
  assumes "block_cipher (b_encrypt x) (b_decrypt x) (blockSize x)"
    and "\<forall>b. length b = blockSize x \<longrightarrow> length (b_decrypt x b) = blockSize x"
    and "in_array w mem" and "len w mod blockSize x = 0"
  shows "obind (ecbEncrypter_CryptBlocks x w w mem) (ecbDecrypter_CryptBlocks x w w) = Ok mem"
  using assms by (rule ecb_decrypt_encrypt)

theorem ecb_inplace_roundtrip_witness:
  "obind (ecbEncrypter_CryptBlocks (aes_ecb (replicate 16 9)) \<lparr>off = 3, len = 32\<rparr>
           \<lparr>off = 3, len = 32\<rparr> (replicate 40 7))
     (ecbDecrypter_CryptBlocks (aes_ecb (replicate 16 9)) \<lparr>off = 3, len = 32\<rparr> \<lparr>off = 3, len = 32\<rparr>)
   = Ok (replicate 40 7)"
  by (rule ecb_inplace_roundtrip)
     (auto simp: aes_ecb_def newECB_def in_array_def length_aes_decrypt intro: aes.block_cipher_axioms)

end
