(* ===== verification/Net_Line.thy ===== *)
theory Net_Line
  imports Net_Wire Cipher_Ecb
begin

text \<open>
  The text ciphers of \<^verbatim>\<open>netserve/transcipher.go\<close>: \<open>eleCipher\<close> (one line of base64 over AES-CBC
  with a fixed vector), \<open>cccfgcipher\<close> (base64 over AES-ECB) and \<open>emptycipher\<close>. The buffered
  writer is the list of bytes written to it.
\<close>

subsection \<open>eleCipher\<close>

text \<open>\<open>None\<close> for the block is the nil of a cipher configured without a key.\<close>

record eleCipher =
  ele_aeskeyb :: bytes
  ele_aesivb :: bytes
  ele_aesblock :: "bytes option"

definition newEleCipher :: "string \<Rightarrow> string \<Rightarrow> eleCipher outcome" where
  "newEleCipher aeskey64 aesiv64 =
     obind (if aeskey64 \<noteq> []
            then obind (CheckError (b64_decode aeskey64)) (\<lambda>k.
                   obind (CheckError (aes_NewCipher k)) (\<lambda>b. Ok (k, Some b)))
            else Ok ([], None)) (\<lambda>(k, b).
     obind (if aesiv64 \<noteq> [] then CheckError (b64_decode aesiv64) else Ok []) (\<lambda>iv.
     Ok \<lparr>ele_aeskeyb = k, ele_aesivb = iv, ele_aesblock = b\<rparr>))"

text \<open>
  Both directions call methods of the block, which panics on nil. The text written is appended
  to \<open>buf\<close>.
\<close>

definition ele_EncodeWrite :: "eleCipher \<Rightarrow> bytes \<Rightarrow> bytes \<Rightarrow> bytes outcome" where
  "ele_EncodeWrite c buf data =
     (case ele_aesblock c of
        None \<Rightarrow> nil_panic
      | Some b \<Rightarrow>
          obind (NewCBCEncrypter (ele_aesivb c)) (\<lambda>iv.
          obind (CheckError (ZeroPad data 16)) (\<lambda>data.
          obind (cbc_encrypt_blocks b iv data) (\<lambda>data.
          Ok (buf @ bytes_of_string (b64_encode data) @ [CR, LF])))))"

definition ele_DecodeRead :: "eleCipher \<Rightarrow> reader \<Rightarrow> (bytes \<times> reader) outcome" where
  "ele_DecodeRead c rd =
     obind (CheckError (readLine rd)) (\<lambda>(data, rd).
     obind (CheckError (b64_decode (string_of_bytes data))) (\<lambda>tmp.
     case ele_aesblock c of
       None \<Rightarrow> nil_panic
     | Some b \<Rightarrow>
         obind (NewCBCDecrypter (ele_aesivb c)) (\<lambda>iv.
         obind (cbc_decrypt_blocks b iv tmp) (\<lambda>tmp. Ok (tmp, rd)))))"

subsection \<open>cccfgcipher\<close>

record cccfgcipher =
  cfg_AesKey64 :: string
  cfg_aeskeyb :: bytes
  cfg_aesblock :: bytes

text \<open>\<open>None\<close> is the nil pointer returned for an empty key.\<close>

definition newCccfgCipher :: "string \<Rightarrow> cccfgcipher option outcome" where
  "newCccfgCipher key64 =
     (if key64 \<noteq> []
      then obind (CheckError (b64_decode key64)) (\<lambda>k.
           obind (CheckError (aes_NewCipher k)) (\<lambda>b.
           Ok (Some \<lparr>cfg_AesKey64 = key64, cfg_aeskeyb = k, cfg_aesblock = b\<rparr>)))
      else Ok None)"

text \<open>
  One call of \<open>Read\<close> on the buffered reader. It returns some of the bytes to come, at least one
  unless the connection has ended; \<open>avail\<close> is how many the connection has delivered so far. With
  a destination of 4096 bytes and a buffer no larger, an empty buffer is bypassed.
\<close>

definition rd_Read :: "nat \<Rightarrow> reader \<Rightarrow> nat \<Rightarrow> bytes \<times> gerr option \<times> reader" where
  "rd_Read avail rd n =
     (if rd_data rd = [] then ([], Some (rd_err rd), rd)
      else let k = min (max 1 avail) n in (take k (rd_data rd), None, Discard rd k))"

definition cfg_ReadAll :: "nat \<Rightarrow> reader \<Rightarrow> (bytes \<times> reader) outcome" where
  "cfg_ReadAll avail rd =
     (let (d, err, rd) = rd_Read avail rd 4096 in
      if err \<noteq> None \<and> err \<noteq> Some io_EOF then Panic (PErr (the err))
      else if d = [] then Panic (PErr (Errorf ''read empty data'' []))
      else Ok (d, rd))"

text \<open>The whole of a slice, for ECB in place.\<close>

definition whole :: "bytes \<Rightarrow> window" where
  "whole data = \<lparr>off = 0, len = length data\<rparr>"

definition cfg_EncodeWrite :: "cccfgcipher \<Rightarrow> bytes \<Rightarrow> bytes \<Rightarrow> bytes outcome" where
  "cfg_EncodeWrite c buf data =
     obind (CheckError (ZeroPad data 16)) (\<lambda>data.
     obind (ecbEncrypter_CryptBlocks (aes_ecb (cfg_aesblock c)) (whole data) (whole data) data) (\<lambda>data.
     Ok (buf @ bytes_of_string (b64_encode data))))"

definition cfg_DecodeRead :: "nat \<Rightarrow> cccfgcipher \<Rightarrow> reader \<Rightarrow> (bytes \<times> reader) outcome" where
  "cfg_DecodeRead avail c rd =
     obind (cfg_ReadAll avail rd) (\<lambda>(base64data, rd).
     if length base64data = 0 then Panic (PErr (Errorf ''read empty data'' []))
     else obind (CheckError (b64_decode (string_of_bytes base64data))) (\<lambda>data.
       obind (ecbDecrypter_CryptBlocks (aes_ecb (cfg_aesblock c)) (whole data) (whole data) data) (\<lambda>data.
       Ok (data, rd))))"

subsection \<open>emptycipher\<close>

definition empty_EncodeWrite :: "bytes \<Rightarrow> bytes \<Rightarrow> bytes" where
  "empty_EncodeWrite buf data = buf @ data"

text \<open>The loop of its \<open>DecodeRead\<close>; \<open>avail i\<close> is what the connection has delivered at the \<open>i\<close>-th read.\<close>

function empty_loop :: "(nat \<Rightarrow> nat) \<Rightarrow> nat \<Rightarrow> reader \<Rightarrow> bytes \<Rightarrow> (bytes \<times> reader) outcome" where
  "empty_loop avail i rd data =
     (let (tmp, err, rd') = rd_Read (avail i) rd 1024 in
      if err = Some io_EOF then Ok (data @ tmp, rd')
      else if err = None then empty_loop avail (i + 1) rd' (data @ tmp)
      else Panic (PErr (the err)))"
  by pat_completeness auto
termination
  by (relation "measure (\<lambda>(avail, i, rd, data). length (rd_data rd))")
     (auto simp: rd_Read_def Let_def split: if_splits)

declare empty_loop.simps [simp del]

definition empty_DecodeRead :: "(nat \<Rightarrow> nat) \<Rightarrow> reader \<Rightarrow> (bytes \<times> reader) outcome" where
  "empty_DecodeRead avail rd = empty_loop avail 0 rd []"

subsection \<open>Choosing a cipher\<close>

text \<open>\<open>strings.Join(args, " ")\<close>.\<close>

fun join_space :: "string list \<Rightarrow> string" where
  "join_space [] = []"
| "join_space [a] = a"
| "join_space (a # b # as) = a @ '' '' @ join_space (b # as)"

definition checkArgsMinSize :: "string list \<Rightarrow> nat \<Rightarrow> unit outcome" where
  "checkArgsMinSize args n =
     (if length args < n
      then Panic (PErr (Errorf ''arg  <<%s>> size less than %d'' [AStr (join_space args), AInt (int n)]))
      else Ok ())"

subsection \<open>Round trips\<close>

lemma ZeroPad_16: "ZeroPad data 16 = Ok (data @ replicate ((16 - length data mod 16) mod 16) 0)"
  by (auto simp: ZeroPad_def Let_def)

lemma zero_padded_blocks: "length (data @ replicate ((16 - length data mod 16) mod 16) 0) mod 16 = 0"
proof (cases "length data mod 16 = 0")
  case False
  then have "(16 - length data mod 16) mod 16 = 16 - length data mod 16" by simp
  then have "length (data @ replicate ((16 - length data mod 16) mod 16) 0)
      = length data + 16 - length data mod 16" by simp
  also have "\<dots> = length data div 16 * 16 + 16"
    using div_mult_mod_eq [of "length data" 16] by linarith
  finally show ?thesis by simp
qed simp

lemma bytes_of_string_Nil [simp]: "bytes_of_string [] = []"
  by (simp add: bytes_of_string_def)

lemma of_char_newline: "of_char (CHR 0x0A) = (10 :: nat)"
  by simp

lemma b64_line: "LF \<notin> set (bytes_of_string (b64_encode d))"
proof
  assume "LF \<in> set (bytes_of_string (b64_encode d))"
  then obtain ch where ch: "ch \<in> set (b64_encode d)" and l: "(of_char ch :: byte) = LF"
    by (auto simp: bytes_of_string_def)
  have "(of_char ch :: nat) = unat (of_char ch :: byte)" by (simp add: unat_of_char)
  also have "\<dots> = 10" by (simp add: l LF_def)
  finally have "ch = CHR 0x0A" by (metis char_of_char of_char_newline)
  then have "is_newline ch" by (simp add: is_newline_def)
  with b64_encode_no_newline [OF ch] show False by simp
qed


lemma newEleCipher_Ok: "length key \<in> {16, 24, 32} \<Longrightarrow> length iv = 16 \<Longrightarrow>
  newEleCipher (b64_encode key) (b64_encode iv) =
    Ok \<lparr>ele_aeskeyb = key, ele_aesivb = iv, ele_aesblock = Some key\<rparr>"
  by (auto simp: newEleCipher_def aes_NewCipher_def)

lemma ele_write_Ok:
  assumes "ele_aesblock c = Some key" and "length (ele_aesivb c) = 16"
  shows "\<exists>out. ele_EncodeWrite c [] data = Ok out"
  using assms zero_padded_blocks [of data]
  by (simp add: ele_EncodeWrite_def NewCBCEncrypter_def ZeroPad_16 cbc_encrypt_blocks_def)

lemma ele_write_read:
  assumes "ele_aesblock c = Some key" and "length (ele_aesivb c) = 16" and "rd_ok rd"
    and "ele_EncodeWrite c [] data = Ok out"
  shows "ele_DecodeRead c (rd\<lparr>rd_data := out @ rest\<rparr>) =
      Ok (data @ replicate ((16 - length data mod 16) mod 16) 0, rd\<lparr>rd_data := rest\<rparr>)"
proof -
  let ?p = "data @ replicate ((16 - length data mod 16) mod 16) 0" and ?iv = "ele_aesivb c"
  obtain enc where enc: "cbc_encrypt_blocks key ?iv ?p = Ok enc" "cbc_decrypt_blocks key ?iv enc = Ok ?p"
    using cbc_decrypt_encrypt_blocks [OF zero_padded_blocks assms(2), of key data]
    by (auto simp: outcome_simps)
  let ?l = "bytes_of_string (b64_encode enc)"
  have w: "out = ?l @ [CR, LF]"
    using enc(1) assms by (simp add: ele_EncodeWrite_def NewCBCEncrypter_def ZeroPad_16)
  have "readLine (rd\<lparr>rd_data := out @ rest\<rparr>) = Ok (?l, rd\<lparr>rd_data := rest\<rparr>)"
    using readLine_crlf [of "rd\<lparr>rd_data := out @ rest\<rparr>" ?l rest] b64_line assms(3)
    by (simp add: w rd_ok_def Discard_def)
  then show ?thesis using enc(2) assms(1,2) by (simp add: ele_DecodeRead_def NewCBCDecrypter_def)
qed

lemma ecb_whole_roundtrip:
  assumes "length data mod 16 = 0"
  obtains enc where "ecbEncrypter_CryptBlocks (aes_ecb key) (whole data) (whole data) data = Ok enc"
    and "length enc = length data"
    and "ecbDecrypter_CryptBlocks (aes_ecb key) (whole enc) (whole enc) enc = Ok data"
proof -
  let ?e = "ecb_map (aes_encrypt key) 16 data"
  have "ecb_loop (aes_encrypt key) 16 0 0 (length data) data = Ok ?e"
    using ecb_loop_eq [of 16 "aes_encrypt key" "length data" 0 data 0] assms aes.length_E
    by (simp add: write_at_def aes.ecb_length)
  then have enc: "ecbEncrypter_CryptBlocks (aes_ecb key) (whole data) (whole data) data = Ok ?e"
    using assms by (simp add: ecbEncrypter_CryptBlocks_def aes_ecb_def newECB_def whole_def)
  have len: "length ?e = length data" using assms by (simp add: aes.ecb_length)
  have "obind (Ok ?e) (ecbDecrypter_CryptBlocks (aes_ecb key) (whole data) (whole data)) = Ok data"
    unfolding enc [symmetric] using assms
    by (intro ecb_decrypt_encrypt)
       (simp_all add: aes_ecb_def newECB_def in_array_def whole_def length_aes_decrypt aes.block_cipher_axioms)
  with enc len show thesis by (intro that [of ?e]) (simp_all add: whole_def)
qed

lemma empty_loop_all:
  "rd_err rd = io_EOF \<Longrightarrow>
   empty_loop avail i rd data = Ok (data @ rd_data rd, rd\<lparr>rd_data := []\<rparr>)"
proof (induction avail i rd data rule: empty_loop.induct)
  case (1 avail i rd data)
  let ?k = "min (max 1 (avail i)) 1024"
  show ?case
  proof (cases "rd_data rd = []")
    case False
    then have r: "rd_Read (avail i) rd 1024 = (take ?k (rd_data rd), None, Discard rd ?k)"
      by (simp add: rd_Read_def Let_def)
    then have "empty_loop avail (i + 1) (Discard rd ?k) (data @ take ?k (rd_data rd))
        = Ok ((data @ take ?k (rd_data rd)) @ drop ?k (rd_data rd), rd\<lparr>rd_data := []\<rparr>)"
      using "1.IH" [OF r [symmetric] refl] "1.prems" by (simp add: Discard_def)
    with r show ?thesis by (simp add: empty_loop.simps [of avail i rd])
  qed (use "1.prems" in \<open>simp add: empty_loop.simps rd_Read_def\<close>)
qed

subsection \<open>Properties\<close>

text \<open>
  With a key of an accepted size and a vector of 16 bytes, given in base64, the line cipher is
  built, every message can be written, and reading the line back returns the message padded
  with zero bytes to whole blocks and consumes exactly that line.
\<close>

theorem ele_roundtrip:
  assumes "length key \<in> {16, 24, 32}" and "length iv = 16" and "rd_ok rd"
  shows "\<exists>c out. newEleCipher (b64_encode key) (b64_encode iv) = Ok c \<and>
    ele_EncodeWrite c [] data = Ok out \<and>
    ele_DecodeRead c (rd\<lparr>rd_data := out @ rest\<rparr>) =
      Ok (data @ replicate ((16 - length data mod 16) mod 16) 0, rd\<lparr>rd_data := rest\<rparr>)"
proof -
  let ?c = "\<lparr>ele_aeskeyb = key, ele_aesivb = iv, ele_aesblock = Some key\<rparr>"
  obtain out where "ele_EncodeWrite ?c [] data = Ok out"
    using ele_write_Ok [of ?c key data] assms(2) by auto
  moreover from ele_write_read [OF _ _ assms(3) this] assms(2) newEleCipher_Ok [OF assms(1,2)]
  show ?thesis using calculation by auto
qed

theorem ele_roundtrip_witness:
  "\<exists>c out. newEleCipher (b64_encode (replicate 16 3)) (b64_encode (replicate 16 4)) = Ok c \<and>
    ele_EncodeWrite c [] [1, 2, 3] = Ok out \<and>
    ele_DecodeRead c \<lparr>rd_data = out @ [7], rd_err = io_EOF, rd_size = 4096\<rparr> =
      Ok ([1, 2, 3] @ replicate 13 0, \<lparr>rd_data = [7], rd_err = io_EOF, rd_size = 4096\<rparr>)"
  using ele_roundtrip [of "replicate 16 3" "replicate 16 4"
      "\<lparr>rd_data = [], rd_err = io_EOF, rd_size = 4096\<rparr>" "[1, 2, 3]" "[7]"]
  by (simp add: rd_ok_def)

text \<open>
  A message whose base64 text of encrypted whole blocks fits into one read of 4096 bytes, and
  arrives in one piece, is returned padded with zero bytes by the ECB cipher; the empty message
  is refused by the reader with a panic.
\<close>

theorem cccfg_roundtrip:
  assumes "length key \<in> {16, 24, 32}" and "cfg_EncodeWrite c [] data = Ok out"
    and "newCccfgCipher (b64_encode key) = Ok (Some c)"
    and "rd_data rd = out" and "length out \<le> avail" and "length out \<le> 4096" and "rd_err rd = io_EOF"
  shows "if data = [] then cfg_DecodeRead avail c rd = Panic (PErr (Errorf ''read empty data'' []))
    else cfg_DecodeRead avail c rd =
      Ok (data @ replicate ((16 - length data mod 16) mod 16) 0, rd\<lparr>rd_data := []\<rparr>)"
proof -
  let ?p = "data @ replicate ((16 - length data mod 16) mod 16) 0"
  have c: "cfg_aesblock c = key"
    using assms(1,3) by (auto simp: newCccfgCipher_def aes_NewCipher_def split: if_splits)
  obtain enc where e: "ecbEncrypter_CryptBlocks (aes_ecb key) (whole ?p) (whole ?p) ?p = Ok enc"
    "length enc = length ?p"
    "ecbDecrypter_CryptBlocks (aes_ecb key) (whole enc) (whole enc) enc = Ok ?p"
    using ecb_whole_roundtrip [OF zero_padded_blocks] by blast
  then have out: "out = bytes_of_string (b64_encode enc)"
    using assms(2) by (simp add: cfg_EncodeWrite_def ZeroPad_16 c)
  show ?thesis
  proof (cases "data = []")
    case True
    with e(2) out assms show ?thesis by (simp add: cfg_DecodeRead_def cfg_ReadAll_def rd_Read_def)
  next
    case False
    then have "enc \<noteq> []" using e(2) by auto
    then have "length out \<noteq> 0" by (simp add: out)
    then have ne: "out \<noteq> []" by simp
    then have "cfg_ReadAll avail rd = Ok (out, rd\<lparr>rd_data := []\<rparr>)"
      using assms by (auto simp: cfg_ReadAll_def rd_Read_def Let_def Discard_def)
    with False ne e(3) c show ?thesis by (simp add: cfg_DecodeRead_def out)
  qed
qed

theorem cccfg_roundtrip_witness:
  "\<exists>c out. newCccfgCipher (b64_encode (replicate 16 3)) = Ok (Some c) \<and>
     cfg_EncodeWrite c [] [] = Ok out \<and>
     cfg_DecodeRead 4096 c \<lparr>rd_data = out, rd_err = io_EOF, rd_size = 4096\<rparr> =
       Panic (PErr (Errorf ''read empty data'' []))"
proof -
  obtain c where c: "newCccfgCipher (b64_encode (replicate 16 3)) = Ok (Some c)"
    by (simp add: newCccfgCipher_def aes_NewCipher_def)
  have w: "cfg_EncodeWrite c [] [] = Ok []"
    by (simp add: cfg_EncodeWrite_def ZeroPad_16 ecbEncrypter_CryptBlocks_def aes_ecb_def newECB_def
        whole_def ecb_loop.simps)
  with cccfg_roundtrip [OF _ w c, of "\<lparr>rd_data = [], rd_err = io_EOF, rd_size = 4096\<rparr>" 4096] c
  show ?thesis by auto
qed

text \<open>
  However the connection cuts its bytes into pieces, the empty cipher's reader ends at the end
  of the stream and returns all of them.
\<close>

theorem empty_DecodeRead_all:
  assumes "rd_err rd = io_EOF"
  shows "empty_DecodeRead avail rd = Ok (rd_data rd, rd\<lparr>rd_data := []\<rparr>)"
  using empty_loop_all [OF assms] by (simp add: empty_DecodeRead_def)

theorem empty_DecodeRead_all_witness:
  "empty_DecodeRead (\<lambda>i. i) \<lparr>rd_data = [1, 2, 3], rd_err = io_EOF, rd_size = 4096\<rparr>
     = Ok ([1, 2, 3], \<lparr>rd_data = [], rd_err = io_EOF, rd_size = 4096\<rparr>)"
  using empty_DecodeRead_all [of "\<lparr>rd_data = [1, 2, 3], rd_err = io_EOF, rd_size = 4096\<rparr>"] by simp

end
