(* ===== verification/Net_Buffers.thy ===== *)
theory Net_Buffers
  imports Net_Line
begin

text \<open>
  The line ciphers of \<^verbatim>\<open>netserve/transcipher.go\<close> and the buffer of their caller. \<open>EncodeWrite\<close> pads and encrypts the
  slice it is given; \<open>ZeroPad\<close> returns the same slice if there is nothing to pad, and \<^verbatim>\<open>append\<close> writes behind
  it if the capacity allows, so that the encryption can overwrite the caller's bytes. \<open>Net_Line\<close> describes
  what is sent; here the array behind the slice is explicit.
\<close>

subsection \<open>Slices over their array\<close>

text \<open>\<open>sl_arr\<close> is the array from the start of the slice up to its capacity.\<close>

record slice =
  sl_arr :: bytes
  sl_len :: nat

definition slice_ok :: "slice \<Rightarrow> bool" where
  "slice_ok sl \<longleftrightarrow> sl_len sl \<le> length (sl_arr sl)"

definition contents :: "slice \<Rightarrow> bytes" where
  "contents sl = take (sl_len sl) (sl_arr sl)"

text \<open>\<^verbatim>\<open>append\<close>: the new slice, and the old one afterwards; they share their array if there was room.\<close>

definition go_append :: "slice \<Rightarrow> bytes \<Rightarrow> slice \<times> slice \<times> bool" where
  "go_append sl xs =
     (if sl_len sl + length xs \<le> length (sl_arr sl)
      then (let arr = contents sl @ xs @ drop (sl_len sl + length xs) (sl_arr sl)
            in (\<lparr>sl_arr = arr, sl_len = sl_len sl + length xs\<rparr>, sl\<lparr>sl_arr := arr\<rparr>, True))
      else (\<lparr>sl_arr = contents sl @ xs, sl_len = sl_len sl + length xs\<rparr>, sl, False))"

text \<open>\<open>ZeroPad\<close> of a slice: the padded slice, the given one afterwards, and whether they share their array.\<close>

definition ZeroPad_slice :: "slice \<Rightarrow> int \<Rightarrow> (slice \<times> slice \<times> bool) outcome" where
  "ZeroPad_slice data blocklen =
     (if blocklen \<le> 0 then invalid_blocklen blocklen
      else let padlen = sl_len data mod nat blocklen in
        if padlen = 0 then Ok (data, data, True)
        else Ok (go_append data (replicate (nat blocklen - padlen) 0)))"

text \<open>The encryption of a slice in place, seen by the owner of a slice that shares its array, or does not.\<close>

definition crypt_in_place :: "(bytes \<Rightarrow> bytes outcome) \<Rightarrow> slice \<Rightarrow> slice \<Rightarrow> bool \<Rightarrow> (bytes \<times> slice) outcome" where
  "crypt_in_place enc data owner shared =
     obind (enc (contents data)) (\<lambda>ct.
       Ok (ct, if shared then owner\<lparr>sl_arr := ct @ drop (sl_len data) (sl_arr data)\<rparr> else owner))"

text \<open>\<open>EncodeWrite\<close> of the two ciphers: what is written, and the caller's slice afterwards.\<close>

definition ele_EncodeWrite_slice :: "eleCipher \<Rightarrow> bytes \<Rightarrow> slice \<Rightarrow> (bytes \<times> slice) outcome" where
  "ele_EncodeWrite_slice c buf data =
     (case ele_aesblock c of
        None \<Rightarrow> nil_panic
      | Some b \<Rightarrow>
          obind (NewCBCEncrypter (ele_aesivb c)) (\<lambda>iv.
          obind (CheckError (ZeroPad_slice data 16)) (\<lambda>(padded, data, shared).
          obind (crypt_in_place (cbc_encrypt_blocks b iv) padded data shared) (\<lambda>(ct, data).
          Ok (buf @ bytes_of_string (b64_encode ct) @ [CR, LF], data)))))"

definition cfg_EncodeWrite_slice :: "cccfgcipher \<Rightarrow> bytes \<Rightarrow> slice \<Rightarrow> (bytes \<times> slice) outcome" where
  "cfg_EncodeWrite_slice c buf data =
     obind (CheckError (ZeroPad_slice data 16)) (\<lambda>(padded, data, shared).
     obind (crypt_in_place (\<lambda>d. ecbEncrypter_CryptBlocks (aes_ecb (cfg_aesblock c)) (whole d) (whole d) d) padded data shared) (\<lambda>(ct, data).
     Ok (buf @ bytes_of_string (b64_encode ct), data)))"

subsection \<open>Lemmas\<close>

definition pad_length :: "nat \<Rightarrow> nat" where
  "pad_length n = (16 - n mod 16) mod 16"

text \<open>Whether the padded bytes lie in the caller's array.\<close>

definition in_place :: "slice \<Rightarrow> bool" where
  "in_place sl \<longleftrightarrow> sl_len sl + pad_length (sl_len sl) \<le> length (sl_arr sl)"

lemma length_contents [simp]: "slice_ok sl \<Longrightarrow> length (contents sl) = sl_len sl"
  by (simp add: slice_ok_def contents_def)

lemma in_place_multiple: "slice_ok sl \<Longrightarrow> sl_len sl mod 16 = 0 \<Longrightarrow> in_place sl"
  by (simp add: in_place_def pad_length_def slice_ok_def)

lemma ZeroPad_slice_16:
  assumes "slice_ok sl"
  obtains padded owner where "ZeroPad_slice sl 16 = Ok (padded, owner, in_place sl)"
    and "contents padded = contents sl @ replicate (pad_length (sl_len sl)) 0"
    and "sl_len owner = sl_len sl" and "\<not> in_place sl \<longrightarrow> owner = sl"
    and "in_place sl \<longrightarrow> length (sl_arr padded) = length (sl_arr sl)" and "sl_len padded = sl_len sl + pad_length (sl_len sl)"
proof (cases "sl_len sl mod 16 = 0")
  case True
  then show ?thesis using that [of sl sl] in_place_multiple [OF assms True]
    by (simp add: ZeroPad_slice_def pad_length_def)
next
  case False
  then have p: "16 - sl_len sl mod 16 = pad_length (sl_len sl)" by (simp add: pad_length_def)
  let ?z = "replicate (pad_length (sl_len sl)) (0 :: byte)"
  obtain padded owner shared where a: "go_append sl ?z = (padded, owner, shared)" by (cases "go_append sl ?z")
  have l: "length (contents sl) = sl_len sl" using assms by simp
  have "ZeroPad_slice sl 16 = Ok (padded, owner, shared)" using False p a by (simp add: ZeroPad_slice_def)
  moreover have "shared = in_place sl" using a by (auto simp: go_append_def in_place_def Let_def split: if_splits)
  moreover have "contents padded = contents sl @ ?z \<and> sl_len owner = sl_len sl \<and> (\<not> in_place sl \<longrightarrow> owner = sl) \<and>
      (in_place sl \<longrightarrow> length (sl_arr padded) = length (sl_arr sl)) \<and> sl_len padded = sl_len sl + pad_length (sl_len sl)"
    using a l assms by (auto simp: go_append_def in_place_def Let_def contents_def slice_ok_def split: if_splits)
  ultimately show ?thesis using that [of padded owner] by blast
qed

text \<open>
  What both ciphers have in common: the encryption of the padded contents, and the caller's slice, which
  holds the beginning of the ciphertext if the padding was in place.
\<close>

lemma crypt_padded:
  assumes "slice_ok sl" and "enc (contents sl @ replicate (pad_length (sl_len sl)) 0) = Ok ct"
    and "length ct = sl_len sl + pad_length (sl_len sl)"
  shows "\<exists>sl'. obind (CheckError (ZeroPad_slice sl 16)) (\<lambda>(padded, data, shared). crypt_in_place enc padded data shared) = Ok (ct, sl') \<and>
    slice_ok sl' \<and> sl_len sl' = sl_len sl \<and> contents sl' = (if in_place sl then take (sl_len sl) ct else contents sl) \<and>
    length (sl_arr sl') = length (sl_arr sl)"
proof -
  obtain padded owner where z: "ZeroPad_slice sl 16 = Ok (padded, owner, in_place sl)"
    "contents padded = contents sl @ replicate (pad_length (sl_len sl)) 0" "sl_len owner = sl_len sl"
    "\<not> in_place sl \<longrightarrow> owner = sl" "in_place sl \<longrightarrow> length (sl_arr padded) = length (sl_arr sl)"
    "sl_len padded = sl_len sl + pad_length (sl_len sl)"
    using ZeroPad_slice_16 [OF assms(1)] .
  show ?thesis
  proof (cases "in_place sl")
    case True
    then show ?thesis using z assms by (auto simp: crypt_in_place_def slice_ok_def contents_def in_place_def)
  next
    case False
    then show ?thesis using z assms by (auto simp: crypt_in_place_def)
  qed
qed

text \<open>Both routines write what \<open>Net_Line\<close> says, and leave the ciphertext in the buffer if the padding was in place.\<close>

lemma ele_write_slice:
  assumes "ele_aesblock c = Some key" and "length (ele_aesivb c) = 16" and "slice_ok sl"
  obtains ct sl' where "ele_EncodeWrite_slice c buf sl = Ok (buf @ bytes_of_string (b64_encode ct) @ [CR, LF], sl')"
    and "ele_EncodeWrite c buf (contents sl) = Ok (buf @ bytes_of_string (b64_encode ct) @ [CR, LF])"
    and "slice_ok sl'" and "contents sl' = (if in_place sl then take (sl_len sl) ct else contents sl)"
    and "length ct = sl_len sl + pad_length (sl_len sl)"
proof -
  let ?p = "contents sl @ replicate (pad_length (sl_len sl)) 0"
  have len: "length (contents sl) = sl_len sl" using assms(3) by simp
  have m: "length ?p mod 16 = 0"
    using zero_padded_blocks [of "contents sl"] unfolding pad_length_def len [symmetric] .
  then obtain ct where ct: "cbc_encrypt_blocks key (ele_aesivb c) ?p = Ok ct" "length ct = length ?p"
    by (simp add: cbc_encrypt_blocks_def aes.cbc_length assms(2))
  with len have ct2: "length ct = sl_len sl + pad_length (sl_len sl)" by simp
  from crypt_padded [of sl "cbc_encrypt_blocks key (ele_aesivb c)", OF assms(3) ct(1) ct2] obtain sl' where
    sl': "obind (CheckError (ZeroPad_slice sl 16)) (\<lambda>(padded, data, shared).
        crypt_in_place (cbc_encrypt_blocks key (ele_aesivb c)) padded data shared) = Ok (ct, sl')" "slice_ok sl'"
      "contents sl' = (if in_place sl then take (sl_len sl) ct else contents sl)" by blast
  have "ele_EncodeWrite_slice c buf sl = Ok (buf @ bytes_of_string (b64_encode ct) @ [CR, LF], sl')"
    using sl'(1) assms(1,2) by (auto simp: ele_EncodeWrite_slice_def NewCBCEncrypter_def obind_eq_Ok split: prod.splits)
  moreover have "ele_EncodeWrite c buf (contents sl) = Ok (buf @ bytes_of_string (b64_encode ct) @ [CR, LF])"
    using ct(1) assms(1,2) len by (simp add: ele_EncodeWrite_def NewCBCEncrypter_def ZeroPad_16 pad_length_def)
  ultimately show ?thesis using that sl'(2,3) ct2 by blast
qed

lemma cfg_write_slice:
  assumes "slice_ok sl"
  obtains ct sl' where "cfg_EncodeWrite_slice c buf sl = Ok (buf @ bytes_of_string (b64_encode ct), sl')"
    and "cfg_EncodeWrite c buf (contents sl) = Ok (buf @ bytes_of_string (b64_encode ct))"
    and "slice_ok sl'" and "contents sl' = (if in_place sl then take (sl_len sl) ct else contents sl)"
proof -
  let ?p = "contents sl @ replicate (pad_length (sl_len sl)) 0"
  let ?enc = "\<lambda>d. ecbEncrypter_CryptBlocks (aes_ecb (cfg_aesblock c)) (whole d) (whole d) d"
  have len: "length (contents sl) = sl_len sl" using assms by simp
  have m: "length ?p mod 16 = 0"
    using zero_padded_blocks [of "contents sl"] unfolding pad_length_def len [symmetric] .
  obtain ct where ct: "?enc ?p = Ok ct" "length ct = length ?p"
    by (rule ecb_whole_roundtrip [OF m, of "cfg_aesblock c"])
  with len have ct2: "length ct = sl_len sl + pad_length (sl_len sl)" by simp
  from crypt_padded [of sl ?enc, OF assms ct(1) ct2] obtain sl' where
    sl': "obind (CheckError (ZeroPad_slice sl 16)) (\<lambda>(padded, data, shared). crypt_in_place ?enc padded data shared) = Ok (ct, sl')"
      "slice_ok sl'" "contents sl' = (if in_place sl then take (sl_len sl) ct else contents sl)" by blast
  have "cfg_EncodeWrite_slice c buf sl = Ok (buf @ bytes_of_string (b64_encode ct), sl')"
    using sl'(1) by (auto simp: cfg_EncodeWrite_slice_def obind_eq_Ok split: prod.splits)
  moreover have "cfg_EncodeWrite c buf (contents sl) = Ok (buf @ bytes_of_string (b64_encode ct))"
    using ct(1) len by (simp add: cfg_EncodeWrite_def ZeroPad_16 pad_length_def)
  ultimately show ?thesis using that sl'(2,3) by blast
qed

subsection \<open>Properties\<close>

text \<open>
  C9: A handler that writes the same buffer twice through \<open>eleCipher\<close>: its peer reads the contents of the buffer
  from the first line. If the padding fits into the buffer's capacity, as it always does when the length
  is a multiple of 16, the buffer then holds the ciphertext of the first line, and this is what the
  peer reads from the second; otherwise the buffer is unchanged and the peer reads the same again.
\<close>

theorem ele_write_clobbers:
  assumes "ele_aesblock c = Some key" and "length (ele_aesivb c) = 16" and "slice_ok sl" and "rd_ok rd"
  shows "\<exists>ct o1 sl1 o2 sl2. o1 = bytes_of_string (b64_encode ct) @ [CR, LF] \<and>
    ele_EncodeWrite_slice c [] sl = Ok (o1, sl1) \<and> ele_EncodeWrite_slice c [] sl1 = Ok (o2, sl2) \<and>
    contents sl1 = (if in_place sl then take (sl_len sl) ct else contents sl) \<and>
    (sl_len sl mod 16 = 0 \<longrightarrow> contents sl1 = ct) \<and>
    ele_DecodeRead c (rd\<lparr>rd_data := o1 @ o2 @ rest\<rparr>) =
      Ok (contents sl @ replicate (pad_length (sl_len sl)) 0, rd\<lparr>rd_data := o2 @ rest\<rparr>) \<and>
    ele_DecodeRead c (rd\<lparr>rd_data := o2 @ rest\<rparr>) =
      Ok (contents sl1 @ replicate (pad_length (sl_len sl)) 0, rd\<lparr>rd_data := rest\<rparr>)"
proof -
  obtain ct sl1 where w1: "ele_EncodeWrite_slice c [] sl = Ok ([] @ bytes_of_string (b64_encode ct) @ [CR, LF], sl1)"
      "ele_EncodeWrite c [] (contents sl) = Ok ([] @ bytes_of_string (b64_encode ct) @ [CR, LF])"
    and ok: "slice_ok sl1" and sl1: "contents sl1 = (if in_place sl then take (sl_len sl) ct else contents sl)"
    and ct: "length ct = sl_len sl + pad_length (sl_len sl)"
    by (rule ele_write_slice [OF assms(1,2,3), of "[]"])
  obtain ct2 sl2 where w2: "ele_EncodeWrite_slice c [] sl1 = Ok ([] @ bytes_of_string (b64_encode ct2) @ [CR, LF], sl2)"
      "ele_EncodeWrite c [] (contents sl1) = Ok ([] @ bytes_of_string (b64_encode ct2) @ [CR, LF])"
    by (rule ele_write_slice [OF assms(1,2) ok, of "[]"])
  define o1 where "o1 = bytes_of_string (b64_encode ct) @ [CR, LF]"
  define o2 where "o2 = bytes_of_string (b64_encode ct2) @ [CR, LF]"
  have len: "length (contents sl) = sl_len sl" "length (contents sl1) = sl_len sl"
    using assms(3) ct by (simp_all add: sl1 min_def)
  have eq: "sl_len sl mod 16 = 0 \<longrightarrow> contents sl1 = ct"
    using ct in_place_multiple [OF assms(3)] by (simp add: sl1 pad_length_def)
  have w: "ele_EncodeWrite_slice c [] sl = Ok (o1, sl1)" "ele_EncodeWrite c [] (contents sl) = Ok o1"
      "ele_EncodeWrite_slice c [] sl1 = Ok (o2, sl2)" "ele_EncodeWrite c [] (contents sl1) = Ok o2"
    using w1 w2 by (simp_all only: o1_def o2_def append_Nil)
  note r1 = ele_write_read [OF assms(1,2,4) w(2), of "o2 @ rest", unfolded len, folded pad_length_def]
  note r2 = ele_write_read [OF assms(1,2,4) w(4), of rest, unfolded len, folded pad_length_def]
  show ?thesis
    by (rule exI [of _ ct], rule exI [of _ o1], rule exI [of _ sl1], rule exI [of _ o2], rule exI [of _ sl2])
       (intro conjI; fact o1_def w sl1 eq r1 r2)
qed

theorem ele_write_clobbers_witness:
  "\<exists>ct o1 sl1 o2 sl2.
    ele_EncodeWrite_slice \<lparr>ele_aeskeyb = replicate 16 3, ele_aesivb = replicate 16 0, ele_aesblock = Some (replicate 16 3)\<rparr> []
      \<lparr>sl_arr = replicate 16 7, sl_len = 16\<rparr> = Ok (o1, sl1) \<and> contents sl1 = ct \<and> o1 = bytes_of_string (b64_encode ct) @ [CR, LF] \<and>
    ele_EncodeWrite_slice \<lparr>ele_aeskeyb = replicate 16 3, ele_aesivb = replicate 16 0, ele_aesblock = Some (replicate 16 3)\<rparr> [] sl1
      = Ok (o2, sl2) \<and>
    ele_DecodeRead \<lparr>ele_aeskeyb = replicate 16 3, ele_aesivb = replicate 16 0, ele_aesblock = Some (replicate 16 3)\<rparr>
      \<lparr>rd_data = o2, rd_err = io_EOF, rd_size = 4096\<rparr> = Ok (ct, \<lparr>rd_data = [], rd_err = io_EOF, rd_size = 4096\<rparr>)"
proof -
  let ?c = "\<lparr>ele_aeskeyb = replicate 16 3, ele_aesivb = replicate 16 0, ele_aesblock = Some (replicate 16 3)\<rparr>"
  let ?sl = "\<lparr>sl_arr = replicate 16 7, sl_len = 16\<rparr>" and ?rd = "\<lparr>rd_data = [], rd_err = io_EOF, rd_size = 4096\<rparr>"
  have "slice_ok ?sl" "rd_ok ?rd" "pad_length 16 = 0" by (simp_all add: slice_ok_def rd_ok_def pad_length_def)
  then show ?thesis using ele_write_clobbers [of ?c "replicate 16 3" ?sl ?rd "[]"] by auto
qed

end
