(* ===== verification/Net_Sz.thy ===== *)
theory Net_Sz
  imports Net_Wire
begin

text \<open>
  The cipher \<open>szcipher\<close> of \<^verbatim>\<open>netserve/transcipher.go\<close>: a request carries an AES key under RSA, a
  reply is an AES-encrypted packet with a header, an acknowledgement and, in the handshake, a
  signature. An operation returns its outcome together with the state it leaves, because a
  panic does not undo the writes made before it. \<open>None\<close> stands for a call that never returns.
\<close>

record 'prv szcipher =
  sz_rsakeyb :: bytes
  sz_rsaKey :: 'prv
  sz_Seq :: "32 word"

text \<open>\<open>seed\<close> is the random initial sequence number.\<close>

definition newszcipher :: "('prv, 'pub) rsa_lib \<Rightarrow> 32 word \<Rightarrow> bytes \<Rightarrow> 'prv szcipher outcome" where
  "newszcipher L seed rsakey =
     obind (CheckError (ParsePKCS1PrivateKey L rsakey)) (\<lambda>k.
       Ok \<lparr>sz_rsakeyb = rsakey, sz_rsaKey = k, sz_Seq = seed\<rparr>)"

subsection \<open>Requests\<close>

definition GetSynAesIv :: "TransPacketHdr \<Rightarrow> bytes \<Rightarrow> bytes outcome" where
  "GetSynAesIv hdr aesKeyB =
     (if Version hdr = 1 then Ok (le_enc 8 (unat (Nonce hdr)) @ le_enc 8 (unat (Nonce hdr)))
      else if Version hdr = 2
      then Ok (md5 (aesKeyB @ le_enc 8 (unat (Nonce hdr)) @ le_enc 4 (unat (Seq hdr))))
      else Panic (PErr (Errorf ''not support transfer version %v'' [AInt (uint (Version hdr))])))"

text \<open>Plain text, AES key and initialisation vector of a request.\<close>

definition DecryptSyncData :: "('prv, 'pub) rsa_lib \<Rightarrow> 'prv szcipher \<Rightarrow> TransPacketHdr \<Rightarrow> bytes
    \<Rightarrow> (bytes \<times> bytes \<times> bytes) outcome" where
  "DecryptSyncData L c hdr data =
     (let k = modulus_bytes L (sz_rsaKey c) in
      if length data < k
      then Panic (PErr (Errorf ''data lenth %d is valid'' [AInt (int (length data))]))
      else obind (CheckError (rsa_DecryptPKCS1v15 L (sz_rsaKey c) (take k data))) (\<lambda>de.
        obind (slice_to 16 de) (\<lambda>aeskeyb.
        obind (GetSynAesIv hdr aeskeyb) (\<lambda>aesivb.
        obind (slice_from 16 de) (\<lambda>plain.
        if length data = k then Ok (plain, aeskeyb, aesivb)
        else obind (CheckError (aes_NewCipher aeskeyb)) (\<lambda>aesblock.
          obind (NewCBCDecrypter aesivb) (\<lambda>iv.
          obind (cbc_decrypt_blocks aesblock iv (drop k data)) (\<lambda>aes.
          obind (CheckError (Pkcs7Unpad aes 16)) (\<lambda>aesdata.
          Ok (plain @ aesdata, aeskeyb, aesivb))))))))))"

text \<open>
  \<open>spare\<close> are the bytes behind \<open>data\<close> in the array it is a slice of: the expression
  \<^verbatim>\<open>data[:size]\<close> may extend a slice up to its capacity.
\<close>

definition DecodeData :: "('prv, 'pub) rsa_lib \<Rightarrow> 'prv szcipher \<Rightarrow> NetContext \<Rightarrow> bytes \<Rightarrow> bytes
    \<Rightarrow> NetContext \<times> bytes outcome" where
  "DecodeData L c ctx spare data =
     (if length data + length spare < packhdrsize then (ctx, slice_panic)
      else let hdr = hdr_decode (take packhdrsize (data @ spare)) in
      case CalcCheckSum data of
        Panic p \<Rightarrow> (ctx, Panic p)
      | Err e \<Rightarrow> (ctx, Err e)
      | Ok (checkSum, data) \<Rightarrow>
          if checkSum \<noteq> Checksum hdr
          then (ctx, Panic (PErr (Errorf
                 ''packet checksum error hdr %+v s %x and c %x and data % x ''
                 [AStr (string_of_bytes (hdr_encode hdr)), AInt (uint checkSum),
                  AInt (uint (Checksum hdr)), AStr (string_of_bytes data)])))
          else let (fresh, ctx) = checkSetAck ctx (Seq hdr) in
          if \<not> fresh then (ctx, Ok [])
          else let ctx = ctx\<lparr>nc_ack := Seq hdr, nc_recvsig := Checksum hdr\<rparr> in
          case obind (slice_from packhdrsize data) (DecryptSyncData L c hdr) of
            Panic p \<Rightarrow> (ctx, Panic p)
          | Err e \<Rightarrow> (ctx, Err e)
          | Ok (rs, aeskeyb, iv) \<Rightarrow>
              (ctx\<lparr>nc_recviv := iv, nc_aeskey := aeskeyb, nc_updateiv := True,
                   nc_state := (if Msgtype hdr = 1 then 2 else 10)\<rparr>, Ok rs))"

definition DecodeRead :: "('prv, 'pub) rsa_lib \<Rightarrow> 'prv szcipher \<Rightarrow> NetContext \<Rightarrow> bytes \<Rightarrow> reader
    \<Rightarrow> NetContext \<times> (bytes \<times> reader) outcome" where
  "DecodeRead L c ctx spare rd =
     (case ReadAllData rd of
        Panic p \<Rightarrow> (ctx, Panic p)
      | Err e \<Rightarrow> (ctx, Err e)
      | Ok (data, rd) \<Rightarrow>
          (let (ctx, rs) = DecodeData L c ctx spare data in (ctx, obind rs (\<lambda>rs. Ok (rs, rd)))))"

subsection \<open>Replies\<close>

definition EncryptAckData :: "NetContext \<Rightarrow> bytes \<Rightarrow> bytes outcome" where
  "EncryptAckData ctx data =
     obind (CheckError (aes_NewCipher (nc_aeskey ctx))) (\<lambda>aesblock.
       obind (NewCBCEncrypter (nc_sendiv ctx)) (\<lambda>iv.
       if length data = 0 then Panic (PErr (Errorf ''encrypt data size is zero'' []))
       else obind (CheckError (Pkcs7Pad data 16)) (\<lambda>data.
         cbc_encrypt_blocks aesblock iv data)))"

text \<open>The size field of a packet: \<open>n\<close> is the length of the whole packet, \<open>datalen\<close> that of the plain text.\<close>

definition ack_size :: "NetContext \<Rightarrow> nat \<Rightarrow> nat \<Rightarrow> 32 word outcome option" where
  "ack_size ctx n datalen =
     (if \<not> nc_stream ctx then Some (Ok (of_nat (n - 4)))
      else if nc_state ctx = 2 then Some (Panic (PErr (Errorf ''not supoort stream mode'' [])))
      else if nc_size ctx < int datalen
      then Some (Panic (PErr (Errorf ''not valid stream size %v'' [AInt (nc_size ctx)])))
      else case CalcStreamSize ctx (int (length (nc_aeskey ctx))) of
             None \<Rightarrow> None
           | Some s \<Rightarrow> Some (obind s (\<lambda>s. Ok (of_int s + of_nat (packhdrsize + 4)))))"

text \<open>The packet \<open>WriteAckData\<close> assembles once the header is built.\<close>

definition ack_packet :: "('prv, 'pub) rsa_lib \<Rightarrow> 'prv szcipher \<Rightarrow> NetContext \<Rightarrow> TransPacketHdr
    \<Rightarrow> bytes \<Rightarrow> bytes outcome option" where
  "ack_packet L c ctx hdr data =
     (case obind (EncryptAckData ctx data) (\<lambda>encodedData.
             obind (if nc_state ctx = 2
                    then CheckError (SignPKCS1v15WithKey L encodedData (sz_rsaKey c) MD5)
                    else Ok []) (\<lambda>sig.
             Ok (le_enc 4 0 @ hdr_encode hdr @ le_enc 4 (unat (nc_ack ctx + 1)) @ sig @ encodedData))) of
        Panic p \<Rightarrow> Some (Panic p)
      | Err e \<Rightarrow> Some (Err e)
      | Ok newdata \<Rightarrow>
          (case ack_size ctx (length newdata) (length data) of
             None \<Rightarrow> None
           | Some s \<Rightarrow> Some (obind s (\<lambda>s.
               obind (CalcCheckSum (drop 4 newdata)) (\<lambda>(checkSum, body).
               Ok (le_enc 4 (unat s) @ le_enc 8 (unat checkSum) @ drop 8 body))))))"

text \<open>The bytes written are the value; \<open>now\<close> is the clock \<open>BuildAckHdr\<close> reads.\<close>

definition WriteAckData :: "('prv, 'pub) rsa_lib \<Rightarrow> 64 word \<Rightarrow> 'prv szcipher \<Rightarrow> NetContext \<Rightarrow> bytes
    \<Rightarrow> ('prv szcipher \<times> NetContext \<times> bytes outcome) option" where
  "WriteAckData L now c ctx data =
     (let c = c\<lparr>sz_Seq := sz_Seq c + 1\<rparr>;
          ctx = ctx\<lparr>nc_seq := sz_Seq c\<rparr>;
          (hdr, ctx) = BuildAckHdr now ctx zero_hdr
      in case ack_packet L c ctx hdr data of
           None \<Rightarrow> None
         | Some (Ok out) \<Rightarrow> Some (c, ctx\<lparr>nc_state := nc_state ctx + 1\<rparr>, Ok out)
         | Some (Err e) \<Rightarrow> Some (c, ctx, Err e)
         | Some (Panic p) \<Rightarrow> Some (c, ctx, Panic p))"

definition EncodeWrite :: "('prv, 'pub) rsa_lib \<Rightarrow> 64 word \<Rightarrow> 'prv szcipher \<Rightarrow> NetContext \<Rightarrow> bytes
    \<Rightarrow> ('prv szcipher \<times> NetContext \<times> bytes outcome) option" where
  "EncodeWrite L now c ctx data =
     (if nc_state ctx = 2 \<or> nc_state ctx = 10 then WriteAckData L now c ctx data
      else let ctx = UpdateIv ctx in Some (c, ctx, EncryptAckData ctx data))"

text \<open>A handler that writes several pieces, one call each.\<close>

fun write_chunks :: "('prv, 'pub) rsa_lib \<Rightarrow> 64 word \<Rightarrow> 'prv szcipher \<Rightarrow> NetContext \<Rightarrow> bytes list
    \<Rightarrow> ('prv szcipher \<times> NetContext \<times> bytes outcome) option" where
  "write_chunks L now c ctx [] = Some (c, ctx, Ok [])"
| "write_chunks L now c ctx (d # ds) =
     (case EncodeWrite L now c ctx d of
        None \<Rightarrow> None
      | Some (c, ctx, Err e) \<Rightarrow> Some (c, ctx, Err e)
      | Some (c, ctx, Panic p) \<Rightarrow> Some (c, ctx, Panic p)
      | Some (c, ctx, Ok out) \<Rightarrow>
          (case write_chunks L now c ctx ds of
             None \<Rightarrow> None
           | Some (c, ctx, r) \<Rightarrow> Some (c, ctx, obind r (\<lambda>rest. Ok (out @ rest)))))"

subsection \<open>Lemmas\<close>

lemma CalcCheckSum_Ok: "8 \<le> length data \<Longrightarrow>
  CalcCheckSum data = Ok (of_nat (le_dec (take 8 (drop 4 (md5 (le_enc 8 0 @ drop 8 data))))),
    le_enc 8 0 @ drop 8 data)"
  by (simp add: CalcCheckSum_def Let_def)

lemma CalcCheckSum_clear:
  "length a = 8 \<Longrightarrow> CalcCheckSum (a @ b) = CalcCheckSum (le_enc 8 0 @ b)"
  by (simp add: CalcCheckSum_Ok)

text \<open>Every packet has a checksum that fits into its own header.\<close>

lemma checksum_exists:
  "\<exists>ck x. CalcCheckSum (hdr_encode (h\<lparr>Checksum := ck\<rparr>) @ rest) = Ok (ck, x)"
proof -
  have "hdr_encode (h\<lparr>Checksum := ck\<rparr>) = le_enc 8 (unat ck) @ drop 8 (hdr_encode h)" for ck
    by (simp add: hdr_encode_checksum)
  then show ?thesis by (simp add: CalcCheckSum_Ok)
qed

lemma UpdateIv_keeps [simp]:
  "nc_aeskey (UpdateIv ctx) = nc_aeskey ctx" "nc_state (UpdateIv ctx) = nc_state ctx"
  "nc_stream (UpdateIv ctx) = nc_stream ctx" "nc_ack (UpdateIv ctx) = nc_ack ctx"
  "nc_size (UpdateIv ctx) = nc_size ctx" "nc_packsize (UpdateIv ctx) = nc_packsize ctx"
  "nc_seq (UpdateIv ctx) = nc_seq ctx" "nc_updateiv (UpdateIv ctx) = False"
  by (simp_all add: UpdateIv_def)

text \<open>The stream size depends on two fields of the context only.\<close>

lemma calc_stream_loop_cong:
  assumes "calc_stream_loop ctx b n sz = Some r"
  shows "nc_size ctx' = nc_size ctx \<Longrightarrow> nc_packsize ctx' = nc_packsize ctx \<Longrightarrow>
    calc_stream_loop ctx' b n sz = Some r"
proof (induction rule: calc_stream_loop.raw_induct [OF _ assms])
  case (1 loop ctx b n sz y)
  have g: "GetPackSize ctx' n b = GetPackSize ctx n b"
    using "1.prems" by (simp add: GetPackSize_def Let_def cong: if_cong)
  show ?case
  proof (cases "n < nc_size ctx")
    case True
    with 1 g show ?thesis
      by (cases "GetPackSize ctx n b") (simp_all add: calc_stream_loop.simps [of ctx'])
  next
    case False
    with 1 show ?thesis by (simp add: calc_stream_loop.simps)
  qed
qed

lemma CalcStreamSize_cong:
  assumes "nc_size ctx' = nc_size ctx" "nc_packsize ctx' = nc_packsize ctx"
  shows "CalcStreamSize ctx' b = CalcStreamSize ctx b"
  using calc_stream_loop_cong [OF _ assms] calc_stream_loop_cong [OF _ assms [symmetric]]
  unfolding CalcStreamSize_def by (metis not_Some_eq)

text \<open>The send vector is in place once it has been updated or was set before.\<close>

lemma length_UpdateIv_sendiv:
  "nc_updateiv ctx \<or> length (nc_sendiv ctx) = 16 \<Longrightarrow> length (nc_sendiv (UpdateIv ctx)) = 16"
  by (auto simp: UpdateIv_def)

lemma EncryptAckData_eq: "data \<noteq> [] \<Longrightarrow> length (nc_aeskey ctx) \<in> {16, 24, 32} \<Longrightarrow>
  EncryptAckData ctx data = AesEncrypt (nc_aeskey ctx) (nc_sendiv ctx) data"
  by (simp add: EncryptAckData_def AesEncrypt_def aes_NewCipher_def Pkcs7Pad_Ok)


lemma BuildAckHdr_eq:
  "BuildAckHdr now ctx h =
     (h\<lparr>Msgtype := (if nc_state ctx = 2 then 2 else if nc_stream ctx then 4 else 3),
        Version := 2, Seq := nc_seq ctx, Nonce := now\<rparr>, UpdateIv (ctx\<lparr>nc_nonce := now\<rparr>))"
  by (simp add: BuildAckHdr_def Let_def)

text \<open>What a packet looks like on the wire once the encryption, signature and size are known.\<close>

lemma ack_packet_eq:
  assumes "EncryptAckData ctx data = Ok enc"
    and "(if nc_state ctx = 2 then CheckError (SignPKCS1v15WithKey L enc (sz_rsaKey c) MD5) else Ok [])
         = Ok sig"
    and "ack_size ctx (36 + (length sig + length enc)) (length data) = Some (Ok s)"
  shows "\<exists>ck x. ack_packet L c ctx h data =
           Some (Ok (le_enc 4 (unat s) @ hdr_encode (h\<lparr>Checksum := ck\<rparr>) @
             le_enc 4 (unat (nc_ack ctx + 1)) @ sig @ enc)) \<and>
         CalcCheckSum (hdr_encode (h\<lparr>Checksum := ck\<rparr>) @ le_enc 4 (unat (nc_ack ctx + 1)) @ sig @ enc)
           = Ok (ck, x)"
proof -
  let ?rest = "le_enc 4 (unat (nc_ack ctx + 1)) @ sig @ enc"
  define ck :: "64 word" where
    "ck = of_nat (le_dec (take 8 (drop 4 (md5 (le_enc 8 0 @ drop 8 (hdr_encode h) @ ?rest)))))"
  have h: "hdr_encode (h\<lparr>Checksum := ck\<rparr>) = le_enc 8 (unat ck) @ drop 8 (hdr_encode h)"
    by (simp add: hdr_encode_checksum)
  have "ack_packet L c ctx h data = Some (Ok (le_enc 4 (unat s) @
      (le_enc 8 (unat ck) @ drop 8 (hdr_encode h)) @ ?rest))"
    using assms by (simp add: ack_packet_def CalcCheckSum_Ok ck_def)
  moreover have "CalcCheckSum ((le_enc 8 (unat ck) @ drop 8 (hdr_encode h)) @ ?rest) =
      Ok (ck, le_enc 8 0 @ drop 8 (hdr_encode h) @ ?rest)"
    by (simp add: CalcCheckSum_Ok ck_def)
  ultimately show ?thesis unfolding h [symmetric] by blast
qed

lemma WriteAckData_Ok:
  assumes "ack_packet L (c\<lparr>sz_Seq := sz_Seq c + 1\<rparr>)
      (UpdateIv (ctx\<lparr>nc_seq := sz_Seq c + 1, nc_nonce := now\<rparr>))
      (zero_hdr\<lparr>Msgtype := (if nc_state ctx = 2 then 2 else if nc_stream ctx then 4 else 3),
         Version := 2, Seq := sz_Seq c + 1, Nonce := now\<rparr>) data = Some (Ok out)"
  shows "WriteAckData L now c ctx data = Some (c\<lparr>sz_Seq := sz_Seq c + 1\<rparr>,
     UpdateIv (ctx\<lparr>nc_seq := sz_Seq c + 1, nc_nonce := now\<rparr>)\<lparr>nc_state := nc_state ctx + 1\<rparr>, Ok out)"
  using assms by (cases "nc_state ctx = 2"; cases "nc_stream ctx")
    (simp_all add: WriteAckData_def BuildAckHdr_eq Let_def)

text \<open>A non-stream packet is written whenever the key, the vector and the signature are usable.\<close>

lemma WriteAckData_packet:
  assumes "\<not> nc_stream ctx" and "length (nc_aeskey ctx) \<in> {16, 24, 32}"
    and "nc_updateiv ctx \<or> length (nc_sendiv ctx) = 16" and "data \<noteq> []"
    and sign: "\<And>d. length d = 16 \<Longrightarrow> \<exists>s. rsa_SignPKCS1v15 L (sz_rsaKey c) MD5 d = Ok s \<and>
                   length s = modulus_bytes L (sz_rsaKey c)"
    and "length data + modulus_bytes L (sz_rsaKey c) + 48 < 2 ^ 32"
  shows "\<exists>h sig enc ctx' x.
    (let body = hdr_encode h @ le_enc 4 (unat (nc_ack ctx + 1)) @ sig @ enc in
     WriteAckData L now c ctx data =
       Some (c\<lparr>sz_Seq := sz_Seq c + 1\<rparr>, ctx', Ok (le_enc 4 (length body) @ body)) \<and>
     length body < 2 ^ 32 \<and> CalcCheckSum body = Ok (Checksum h, x)) \<and>
    Msgtype h = (if nc_state ctx = 2 then 2 else 3) \<and> Version h = 2 \<and>
    Seq h = sz_Seq c + 1 \<and> Nonce h = now \<and>
    (if nc_state ctx = 2 then SignPKCS1v15WithKey L enc (sz_rsaKey c) MD5 = Ok sig else sig = []) \<and>
    AesDecrypt (nc_aeskey ctx) (nc_sendiv ctx') enc = Ok data \<and> nc_state ctx' = nc_state ctx + 1"
proof -
  let ?c = "c\<lparr>sz_Seq := sz_Seq c + 1\<rparr>"
  let ?ctx = "UpdateIv (ctx\<lparr>nc_seq := sz_Seq c + 1, nc_nonce := now\<rparr>)"
  let ?h = "zero_hdr\<lparr>Msgtype := (if nc_state ctx = 2 then 2 else 3), Version := 2,
              Seq := sz_Seq c + 1, Nonce := now\<rparr>"
  have iv: "length (nc_sendiv ?ctx) = 16" by (rule length_UpdateIv_sendiv) (use assms(3) in simp)
  obtain enc where enc: "AesEncrypt (nc_aeskey ctx) (nc_sendiv ?ctx) data = Ok enc"
    and len: "length enc = length data + (16 - length data mod 16)"
    and dec: "AesDecrypt (nc_aeskey ctx) (nc_sendiv ?ctx) enc = Ok data"
    using AesDecrypt_AesEncrypt [OF assms(2) iv] by blast
  have e: "EncryptAckData ?ctx data = Ok enc" using enc assms(2,4) by (simp add: EncryptAckData_eq)
  obtain s where s: "rsa_SignPKCS1v15 L (sz_rsaKey c) MD5 (md5 enc) = Ok s"
    "length s = modulus_bytes L (sz_rsaKey c)" using sign [of "md5 enc"] by auto
  define sig where "sig = (if nc_state ctx = 2 then s else [])"
  have sg: "(if nc_state ?ctx = 2 then CheckError (SignPKCS1v15WithKey L enc (sz_rsaKey ?c) MD5)
      else Ok []) = Ok sig"
    using s by (simp add: sig_def SignPKCS1v15WithKey_def hash_sum_def)
  have sz: "ack_size ?ctx (36 + (length sig + length enc)) (length data)
      = Some (Ok (of_nat (32 + (length sig + length enc))))"
    using assms(1) by (simp add: ack_size_def)
  have lt: "32 + (length sig + length enc) < 2 ^ 32" using assms(6) s(2) len by (auto simp: sig_def)
  then have u: "unat (of_nat (32 + (length sig + length enc)) :: 32 word) = 32 + (length sig + length enc)"
    by (simp only: unat_of_nat) simp
  obtain ck x where pk: "ack_packet L ?c ?ctx ?h data =
        Some (Ok (le_enc 4 (32 + (length sig + length enc)) @ hdr_encode (?h\<lparr>Checksum := ck\<rparr>) @
          le_enc 4 (unat (nc_ack ?ctx + 1)) @ sig @ enc))"
      and ck: "CalcCheckSum (hdr_encode (?h\<lparr>Checksum := ck\<rparr>) @
          le_enc 4 (unat (nc_ack ?ctx + 1)) @ sig @ enc) = Ok (ck, x)"
    using ack_packet_eq [OF e sg sz] unfolding u by blast
  have "WriteAckData L now c ctx data = Some (?c, ?ctx\<lparr>nc_state := nc_state ctx + 1\<rparr>,
      Ok (le_enc 4 (32 + (length sig + length enc)) @ hdr_encode (?h\<lparr>Checksum := ck\<rparr>) @
        le_enc 4 (unat (nc_ack ctx + 1)) @ sig @ enc))"
    using pk assms(1) by (intro WriteAckData_Ok) (simp split del: if_split cong: if_cong)
  with ck lt dec s show ?thesis
    by (intro exI [of _ "?h\<lparr>Checksum := ck\<rparr>"] exI [of _ sig] exI [of _ enc]
        exI [of _ "?ctx\<lparr>nc_state := nc_state ctx + 1\<rparr>"] exI [of _ x])
       (simp add: Let_def sig_def SignPKCS1v15WithKey_def hash_sum_def)
qed

lemma DecryptSyncData_eq:
  assumes "length block = modulus_bytes L (sz_rsaKey c)"
    and "rsa_DecryptPKCS1v15 L (sz_rsaKey c) block = Ok (key @ p1)" and "length key = 16"
    and "GetSynAesIv hdr key = Ok iv" and "AesEncrypt key iv p2 = Ok aesdata"
  shows "DecryptSyncData L c hdr (block @ aesdata) = Ok (p1 @ p2, key, iv)"
proof -
  have iv: "length iv = 16" using assms(4) by (auto simp: GetSynAesIv_def split: if_splits)
  obtain c' where "AesEncrypt key iv p2 = Ok c'" "length c' = length p2 + (16 - length p2 mod 16)"
    and d: "AesDecrypt key iv c' = Ok p2"
    using AesDecrypt_AesEncrypt [of key iv p2] assms(3) iv by auto
  with assms(5) have ne: "aesdata \<noteq> []" and d: "AesDecrypt key iv aesdata = Ok p2"
    by (auto simp flip: length_greater_0_conv)
  then obtain aes where "cbc_decrypt_blocks key iv aesdata = Ok aes" "Pkcs7Unpad aes 16 = Ok p2"
    using assms(3) iv
    by (auto simp: AesDecrypt_def aes_NewCipher_def NewCBCDecrypter_def outcome_simps)
  with assms ne iv show ?thesis
    by (simp add: DecryptSyncData_def slice_to_def slice_from_def aes_NewCipher_def
        NewCBCDecrypter_def)
qed

lemma CalcCheckSum_sizes: "CalcCheckSum data = Ok (ck, data') \<Longrightarrow>
    8 \<le> length data \<and> length data' = length data \<and> drop 28 data' = drop 28 data"
  by (auto simp: CalcCheckSum_def Let_def split: if_splits)

subsection \<open>Streams\<close>

lemma EncryptAckData_Ok:
  assumes "data \<noteq> []" "length (nc_aeskey ctx) = 16" "length (nc_sendiv ctx) = 16" "Pkcs7Pad data 16 = Ok e"
  shows "\<exists>enc. EncryptAckData ctx data = Ok enc \<and> length enc = length e \<and>
               AesDecrypt (nc_aeskey ctx) (nc_sendiv ctx) enc = Ok data"
  using AesDecrypt_AesEncrypt [of "nc_aeskey ctx" "nc_sendiv ctx" data] assms
  by (auto simp: EncryptAckData_eq Pkcs7Pad_Ok)

lemma write_chunks_tail:
  assumes "nc_state ctx \<notin> {2, 10}" "\<not> nc_updateiv ctx"
    "length (nc_aeskey ctx) = 16" "length (nc_sendiv ctx) = 16"
    and "list_all2 (\<lambda>d e. Pkcs7Pad d 16 = Ok e) ds es" and "[] \<notin> set ds"
  shows "\<exists>encs. write_chunks L now c ctx ds = Some (c, ctx, Ok (concat encs)) \<and>
    length (concat encs) = length (concat es) \<and>
    list_all2 (\<lambda>d enc. AesDecrypt (nc_aeskey ctx) (nc_sendiv ctx) enc = Ok d) ds encs"
  using assms(5,6)
proof (induction ds es rule: list_all2_induct)
  case Nil
  show ?case by (intro exI [of _ "[]"]) simp
next
  case (Cons d ds e es)
  then obtain enc encs where "EncryptAckData ctx d = Ok enc" "length enc = length e"
    "AesDecrypt (nc_aeskey ctx) (nc_sendiv ctx) enc = Ok d"
    "write_chunks L now c ctx ds = Some (c, ctx, Ok (concat encs))"
    "length (concat encs) = length (concat es)"
    "list_all2 (\<lambda>d enc. AesDecrypt (nc_aeskey ctx) (nc_sendiv ctx) enc = Ok d) ds encs"
    using EncryptAckData_Ok [OF _ assms(3,4), of d e] by auto
  with assms(1,2) show ?case
    by (intro exI [of _ "enc # encs"]) (auto simp: EncodeWrite_def UpdateIv_def)
qed

lemma padded_total_bound:
  assumes "list_all2 (\<lambda>d e. Pkcs7Pad d 16 = Ok e) ds es" and "[] \<notin> set ds"
  shows "length (concat es) \<le> 17 * length (concat ds)"
  using assms
proof (induction ds es rule: list_all2_induct)
  case (Cons d ds e es)
  then have "length e \<le> length d + 16" "1 \<le> length d" by (auto simp: Pkcs7Pad_Ok Suc_le_eq)
  with Cons show ?case by simp
qed simp

lemma chunks_nonempty: "[] \<notin> set (chunks n xs)"
proof (induction n xs rule: chunks.induct)
  case (1 n xs)
  then show ?case by (cases "n = 0 \<or> xs = []") (auto simp: chunks.simps)
qed

text \<open>In the handshake no stream reply is written.\<close>

lemma handshake_stream_panics:
  assumes "nc_stream ctx" and "nc_state ctx = 2"
  shows "\<exists>c' ctx' p. EncodeWrite L now c ctx data = Some (c', ctx', Panic p)"
proof -
  have "EncryptAckData ctx' data \<noteq> Err e" for ctx' e
    by (auto simp: EncryptAckData_def obind_eq_Err CheckError_not_Err NewCBCEncrypter_def cbc_encrypt_blocks_def)
  then show ?thesis using assms
    by (auto simp: EncodeWrite_def WriteAckData_def BuildAckHdr_eq Let_def ack_packet_def ack_size_def outcome_simps
        CheckError_not_Err split: option.splits outcome.splits)
qed

text \<open>The head of a stream announces the padded size of all of it.\<close>

lemma WriteAckData_stream:
  assumes "nc_stream ctx" "nc_state ctx = 10" "length (nc_aeskey ctx) = 16"
    "nc_updateiv ctx \<or> length (nc_sendiv ctx) = 16" "0 < nc_packsize ctx"
    "data \<noteq> []" "int (length data) \<le> nc_size ctx"
    and "CalcStreamSize ctx 16 = Some (Ok (int tot))" and "tot + 32 < 2 ^ 32"
    and "Pkcs7Pad data 16 = Ok e"
  shows "\<exists>ctx' hd enc. WriteAckData L now c ctx data =
      Some (c\<lparr>sz_Seq := sz_Seq c + 1\<rparr>, ctx', Ok (le_enc 4 (tot + 32) @ hd @ enc)) \<and>
    length hd = 32 \<and> length enc = length e \<and>
    AesDecrypt (nc_aeskey ctx) (nc_sendiv ctx') enc = Ok data \<and>
    nc_state ctx' = 11 \<and> \<not> nc_updateiv ctx' \<and> length (nc_sendiv ctx') = 16 \<and>
    nc_aeskey ctx' = nc_aeskey ctx"
proof -
  let ?ctx = "UpdateIv (ctx\<lparr>nc_seq := sz_Seq c + 1, nc_nonce := now\<rparr>)"
  let ?h = "zero_hdr\<lparr>Msgtype := 4, Version := 2, Seq := sz_Seq c + 1, Nonce := now\<rparr>"
  have iv: "length (nc_sendiv ?ctx) = 16" by (rule length_UpdateIv_sendiv) (use assms(4) in simp)
  obtain enc where e: "EncryptAckData ?ctx data = Ok enc" "length enc = length e"
    "AesDecrypt (nc_aeskey ctx) (nc_sendiv ?ctx) enc = Ok data"
    using EncryptAckData_Ok [of data ?ctx e] assms(3,6,10) iv by auto
  have "CalcStreamSize ?ctx 16 = CalcStreamSize ctx 16"
    by (intro CalcStreamSize_cong) simp_all
  then have sz: "ack_size ?ctx (36 + (length [] + length enc)) (length data)
      = Some (Ok (of_nat (tot + 32)))"
    using assms(1,2,3,7,8) by (simp add: ack_size_def)
  have u: "unat (of_nat (tot + 32) :: 32 word) = tot + 32"
    using assms(9) by (simp only: unat_of_nat) simp
  obtain ck x where "ack_packet L (c\<lparr>sz_Seq := sz_Seq c + 1\<rparr>) ?ctx ?h data =
        Some (Ok (le_enc 4 (tot + 32) @ hdr_encode (?h\<lparr>Checksum := ck\<rparr>) @
          le_enc 4 (unat (nc_ack ?ctx + 1)) @ [] @ enc))"
    using ack_packet_eq [OF e(1) _ sz, of L "c\<lparr>sz_Seq := sz_Seq c + 1\<rparr>" ?h] assms(2)
    unfolding u by auto
  then have "WriteAckData L now c ctx data = Some (c\<lparr>sz_Seq := sz_Seq c + 1\<rparr>,
      ?ctx\<lparr>nc_state := nc_state ctx + 1\<rparr>, Ok (le_enc 4 (tot + 32) @
        (hdr_encode (?h\<lparr>Checksum := ck\<rparr>) @ le_enc 4 (unat (nc_ack ctx + 1))) @ enc))"
    using assms(1,2) by (intro WriteAckData_Ok) simp
  with e iv assms(2) show ?thesis
    by (intro exI [of _ "?ctx\<lparr>nc_state := nc_state ctx + 1\<rparr>"] exI
      [of _ "hdr_encode (?h\<lparr>Checksum := ck\<rparr>) @ le_enc 4 (unat (nc_ack ctx + 1))"] exI [of _ enc]) simp
qed

subsection \<open>Properties\<close>

text \<open>
  C1: A request packet with a correct checksum and a fresh sequence number, whose body is an RSA
  block holding an AES key and the head of the plain text, followed by the rest under AES with
  the vector derived from the header, decodes to the whole plain text. The context then holds
  the key, a receive vector, and the state of a handshake (message type 1) or of a request.
\<close>

theorem DecodeData_request:
  assumes "CalcCheckSum data = Ok (Checksum hdr, x)"
    and "data = hdr_encode hdr @ block @ aesdata"
    and "length block = modulus_bytes L (sz_rsaKey c)"
    and "rsa_DecryptPKCS1v15 L (sz_rsaKey c) block = Ok (key @ p1)" and "length key = 16"
    and "GetSynAesIv hdr key = Ok iv" and "AesEncrypt key iv p2 = Ok aesdata"
    and "nc_ack ctx = 0 \<or> nc_ack ctx \<noteq> Seq hdr"
  shows "DecodeData L c ctx spare data =
    (ctx\<lparr>nc_ack := Seq hdr, nc_recvsig := Checksum hdr, nc_recviv := iv, nc_aeskey := key,
         nc_updateiv := True, nc_state := (if Msgtype hdr = 1 then 2 else 10)\<rparr>, Ok (p1 @ p2))"
proof -
  have x: "slice_from 28 x = Ok (block @ aesdata)"
    using CalcCheckSum_sizes [OF assms(1)] assms(2) by (simp add: slice_from_def)
  have h: "hdr_decode (take 28 (data @ spare)) = hdr"
    using hdr_roundtrip [of hdr "[]"] by (simp add: assms(2))
  from DecryptSyncData_eq [OF assms(3-7)] x h assms(1,8) show ?thesis
    by (simp add: DecodeData_def Let_def checkSetAck_def assms(2))
qed

theorem DecodeData_request_witness:
  "\<exists>hdr data. data = hdr_encode hdr @ drop 28 data \<and>
     snd (DecodeData echo_rsa \<lparr>sz_rsakeyb = [], sz_rsaKey = [], sz_Seq = 0\<rparr>
       (NewNetContext []) [] data) = Ok [1, 2, 3, 4, 5, 6]"
proof -
  let ?c = "\<lparr>sz_rsakeyb = [], sz_rsaKey = [], sz_Seq = 0\<rparr> :: bytes szcipher"
  let ?key = "replicate 16 9 :: bytes" and ?iv = "le_enc 8 0 @ le_enc 8 0 :: bytes"
  obtain aesdata where a: "AesEncrypt ?key ?iv [5, 6] = Ok aesdata"
    using AesDecrypt_AesEncrypt [of ?key ?iv "[5, 6]"] by auto
  let ?h = "zero_hdr\<lparr>Msgtype := 1, Version := 1, Seq := 7\<rparr>"
  obtain ck x where ck: "CalcCheckSum (hdr_encode (?h\<lparr>Checksum := ck\<rparr>) @ (?key @ [1, 2, 3, 4]) @ aesdata)
      = Ok (ck, x)"
    using checksum_exists by blast
  let ?hdr = "?h\<lparr>Checksum := ck\<rparr>"
  have iv: "GetSynAesIv ?hdr ?key = Ok ?iv"
    by (simp add: GetSynAesIv_def zero_hdr_def)
  have "DecodeData echo_rsa ?c (NewNetContext []) [] (hdr_encode ?hdr @ (?key @ [1, 2, 3, 4]) @ aesdata)
    = ((NewNetContext [])\<lparr>nc_ack := 7, nc_recvsig := ck, nc_recviv := ?iv, nc_aeskey := ?key,
         nc_updateiv := True, nc_state := 2\<rparr>, Ok ([1, 2, 3, 4] @ [5, 6]))"
    using DecodeData_request [OF _ refl _ _ _ iv a, where L = echo_rsa and c = ?c and
        block = "?key @ [1, 2, 3, 4]" and ?p1.0 = "[1, 2, 3, 4]" and ctx = "NewNetContext []" and x = x]
      ck by (simp add: echo_rsa_def NewNetContext_def)
  then show ?thesis
    by (intro exI [of _ ?hdr] exI [of _ "hdr_encode ?hdr @ (?key @ [1, 2, 3, 4]) @ aesdata"]) simp
qed

text \<open>
  C2: Once a packet with a correct checksum and a non-zero sequence number has been decoded on a
  context, whatever came of it, the same packet again yields no data and leaves the context
  as it is.
\<close>

theorem DecodeData_replay:
  assumes "DecodeData L c ctx spare data = (ctx', r)"
    and "hdr = hdr_decode (take 28 data)" and "28 \<le> length data"
    and "CalcCheckSum data = Ok (Checksum hdr, x)" and "Seq hdr \<noteq> 0"
  shows "DecodeData L c ctx' spare' data = (ctx', Ok [])"
proof -
  have "nc_ack ctx' = Seq hdr"
    using assms by (auto simp: DecodeData_def Let_def checkSetAck_def split: outcome.splits if_splits)
  moreover from this have "ctx'\<lparr>nc_ack := Seq hdr\<rparr> = ctx'" by simp
  ultimately show ?thesis using assms(2-) by (simp add: DecodeData_def Let_def checkSetAck_def)
qed

theorem DecodeData_replay_witness:
  "\<exists>data ctx' r. DecodeData echo_rsa \<lparr>sz_rsakeyb = [], sz_rsaKey = [], sz_Seq = 0\<rparr>
       (NewNetContext []) [] data = (ctx', r) \<and> r \<noteq> Ok [] \<and>
     DecodeData echo_rsa \<lparr>sz_rsakeyb = [], sz_rsaKey = [], sz_Seq = 0\<rparr> ctx' [] data = (ctx', Ok [])"
proof -
  let ?c = "\<lparr>sz_rsakeyb = [], sz_rsaKey = [], sz_Seq = 0\<rparr> :: bytes szcipher"
  let ?h = "zero_hdr\<lparr>Version := 1, Seq := 7\<rparr>"
  obtain ck x where ck: "CalcCheckSum (hdr_encode (?h\<lparr>Checksum := ck\<rparr>) @ [1]) = Ok (ck, x)"
    using checksum_exists by blast
  let ?d = "hdr_encode (?h\<lparr>Checksum := ck\<rparr>) @ [1]"
  have h: "hdr_decode (take 28 ?d) = ?h\<lparr>Checksum := ck\<rparr>"
    using hdr_roundtrip [of "?h\<lparr>Checksum := ck\<rparr>" "[]"] by simp
  obtain ctx' r where d: "DecodeData echo_rsa ?c (NewNetContext []) [] ?d = (ctx', r)" by fastforce
  have "r \<noteq> Ok []"
    using d ck h CalcCheckSum_sizes [OF ck]
    by (auto simp: DecodeData_def checkSetAck_def NewNetContext_def slice_from_def
        DecryptSyncData_def echo_rsa_def)
  moreover have "DecodeData echo_rsa ?c ctx' [] ?d = (ctx', Ok [])"
    by (rule DecodeData_replay [OF d h [symmetric], where x = x]) (use ck in simp_all)
  ultimately show ?thesis using d by blast
qed

text \<open>
  C3: A reply in the handshake or in the request state, of data that is not empty, outside the stream mode, with a
  usable key, vector and signing key and a frame below 2^32 bytes, is one frame: \<open>ReadAllData\<close> on the other
  side returns its body and consumes exactly the written bytes, the checksum in the header is
  the checksum of the body, the sequence number is the next one, the acknowledgement follows
  the request's, the signature (in the handshake only) is the server's on the ciphertext, and
  the ciphertext decrypts to the data with the key and the vector of the context.
\<close>

theorem EncodeWrite_frame:
  assumes "nc_state ctx \<in> {2, 10}" and "\<not> nc_stream ctx"
    and "length (nc_aeskey ctx) \<in> {16, 24, 32}"
    and "nc_updateiv ctx \<or> length (nc_sendiv ctx) = 16" and "data \<noteq> []"
    and "\<And>d. length d = 16 \<Longrightarrow> \<exists>s. rsa_SignPKCS1v15 L (sz_rsaKey c) MD5 d = Ok s \<and>
                   length s = modulus_bytes L (sz_rsaKey c)"
    and "length data + modulus_bytes L (sz_rsaKey c) + 48 < 2 ^ 32"
    and "rd_ok rd"
  shows "\<exists>out body h sig enc ctx' x.
    EncodeWrite L now c ctx data = Some (c\<lparr>sz_Seq := sz_Seq c + 1\<rparr>, ctx', Ok out) \<and>
    ReadAllData (rd\<lparr>rd_data := out @ rest\<rparr>) = Ok (body, rd\<lparr>rd_data := rest\<rparr>) \<and>
    body = hdr_encode h @ le_enc 4 (unat (nc_ack ctx + 1)) @ sig @ enc \<and>
    CalcCheckSum body = Ok (Checksum h, x) \<and>
    Msgtype h = (if nc_state ctx = 2 then 2 else 3) \<and> Seq h = sz_Seq c + 1 \<and>
    (if nc_state ctx = 2 then SignPKCS1v15WithKey L enc (sz_rsaKey c) MD5 = Ok sig else sig = []) \<and>
    AesDecrypt (nc_aeskey ctx) (nc_sendiv ctx') enc = Ok data \<and> nc_state ctx' = nc_state ctx + 1"
proof -
  obtain h sig enc ctx' x where w:
    "let body = hdr_encode h @ le_enc 4 (unat (nc_ack ctx + 1)) @ sig @ enc in
     WriteAckData L now c ctx data =
       Some (c\<lparr>sz_Seq := sz_Seq c + 1\<rparr>, ctx', Ok (le_enc 4 (length body) @ body)) \<and>
     length body < 2 ^ 32 \<and> CalcCheckSum body = Ok (Checksum h, x)"
    and r: "Msgtype h = (if nc_state ctx = 2 then 2 else 3)" "Seq h = sz_Seq c + 1"
    "if nc_state ctx = 2 then SignPKCS1v15WithKey L enc (sz_rsaKey c) MD5 = Ok sig else sig = []"
    "AesDecrypt (nc_aeskey ctx) (nc_sendiv ctx') enc = Ok data" "nc_state ctx' = nc_state ctx + 1"
    using WriteAckData_packet [OF assms(2-7), where now = now] by blast
  define body where "body = hdr_encode h @ le_enc 4 (unat (nc_ack ctx + 1)) @ sig @ enc"
  have ne: "body \<noteq> []" by (simp add: body_def flip: length_greater_0_conv)
  note w = w [folded body_def, unfolded Let_def]
  let ?out = "le_enc 4 (length body) @ body"
  have rd: "rd_ok (rd\<lparr>rd_data := ?out @ rest\<rparr>)" using assms(8) by (simp add: rd_ok_def)
  have "ReadAllData (rd\<lparr>rd_data := ?out @ rest\<rparr>) = Ok (body, rd\<lparr>rd_data := rest\<rparr>)"
    using ReadAllData_frame [OF rd _ ne] w by (simp add: Discard_def)
  moreover have "EncodeWrite L now c ctx data = Some (c\<lparr>sz_Seq := sz_Seq c + 1\<rparr>, ctx', Ok ?out)"
    using w assms(1) by (auto simp: EncodeWrite_def)
  ultimately show ?thesis using w r body_def by blast
qed


theorem EncodeWrite_frame_witness:
  "\<exists>out body c' ctx'.
     EncodeWrite echo_rsa 5 \<lparr>sz_rsakeyb = [], sz_rsaKey = [1, 2, 3, 4], sz_Seq = 8\<rparr>
       ((NewNetContext [])\<lparr>nc_state := 2, nc_aeskey := replicate 16 1, nc_updateiv := True\<rparr>) [1, 2, 3]
       = Some (c', ctx', Ok out) \<and>
     ReadAllData \<lparr>rd_data = out @ [7], rd_err = Sentinel ''EOF'', rd_size = 4096\<rparr>
       = Ok (body, \<lparr>rd_data = [7], rd_err = Sentinel ''EOF'', rd_size = 4096\<rparr>)"
  using EncodeWrite_frame
    [of "(NewNetContext [])\<lparr>nc_state := 2, nc_aeskey := replicate 16 1, nc_updateiv := True\<rparr>"
      "[1, 2, 3]" echo_rsa "\<lparr>sz_rsakeyb = [], sz_rsaKey = [1, 2, 3, 4], sz_Seq = 8\<rparr>"
      "\<lparr>rd_data = [], rd_err = Sentinel ''EOF'', rd_size = 4096\<rparr>" 5 "[7]"]
  by (auto simp: NewNetContext_def echo_rsa_def rd_ok_def)

text \<open>
  C4: A stream reply to a request (state 10, a key of 16 bytes, a vector or the order to make one), of data that is
  not empty and short enough for the size field (17 times its length and 32 is less than \<open>2 ^ 32\<close>), started with its exact size and
  a positive packet size and written packet by packet, completes; the size field of its first packet is the
  number of bytes that follow it over all packets, and packet by packet the ciphertext behind the 36
  bytes of size, header and acknowledgement decrypts to the data. In the handshake (state 2) every write of
  a stream reply panics.
\<close>

theorem stream_announces_size:
  assumes "nc_stream ctx" and "nc_state ctx = 10" and "length (nc_aeskey ctx) = 16"
    and "nc_updateiv ctx \<or> length (nc_sendiv ctx) = 16" and "0 < nc_packsize ctx"
    and "data \<noteq> []" and "nc_size ctx = int (length data)" and "17 * length data + 32 < 2 ^ 32"
  shows "\<exists>c' ctx' prefix encs.
    write_chunks L now c ctx (chunks (nat (nc_packsize ctx)) data)
      = Some (c', ctx', Ok (prefix @ concat encs)) \<and>
    length prefix = 36 \<and> le_dec (take 4 prefix) + 4 = length (prefix @ concat encs) \<and>
    list_all2 (\<lambda>d enc. AesDecrypt (nc_aeskey ctx) (nc_sendiv ctx') enc = Ok d)
      (chunks (nat (nc_packsize ctx)) data) encs \<and>
    (\<forall>d. \<exists>c2 ctx2 p. EncodeWrite L now c (ctx\<lparr>nc_state := 2\<rparr>) d = Some (c2, ctx2, Panic p))"
proof -
  have handshake: "\<forall>d. \<exists>c2 ctx2 p. EncodeWrite L now c (ctx\<lparr>nc_state := 2\<rparr>) d = Some (c2, ctx2, Panic p)"
    using assms(1) by (intro allI handshake_stream_panics) simp_all
  let ?n = "nat (nc_packsize ctx)"
  obtain es where es: "padded_packets 16 ?n data es"
    and sz: "CalcStreamSize ctx 16 = Some (Ok (int (length (concat es))))"
    using CalcStreamSize_ok [of ctx 16 data] assms by auto
  let ?total = "length (concat es)"
  obtain d ds where ch: "chunks ?n data = d # ds" "d = take ?n data"
    using assms(5,6) by (auto simp: chunks_rec)
  with es obtain e es' where e: "es = e # es'" "Pkcs7Pad d 16 = Ok e"
    "list_all2 (\<lambda>d e. Pkcs7Pad d 16 = Ok e) ds es'"
    by (auto simp: padded_packets_def list_all2_Cons1)
  have ne: "d \<noteq> []" "[] \<notin> set ds" using chunks_nonempty [of ?n data] ch(1) by auto
  have "?total \<le> 17 * length data"
    using padded_total_bound [of "chunks ?n data" es] es chunks_nonempty [of ?n data] concat_chunks [of ?n data] assms(5)
    by (simp add: padded_packets_def)
  then have lt: "?total + 32 < 2 ^ 32" using assms(8) by linarith
  have "int (length d) \<le> nc_size ctx" using assms(7) ch(2) by simp
  then obtain ctx' hd enc where w: "WriteAckData L now c ctx d =
      Some (c\<lparr>sz_Seq := sz_Seq c + 1\<rparr>, ctx', Ok (le_enc 4 (?total + 32) @ hd @ enc))"
    and r: "length hd = 32" "length enc = length e"
      "AesDecrypt (nc_aeskey ctx) (nc_sendiv ctx') enc = Ok d"
    and ctx': "nc_state ctx' = 11" "\<not> nc_updateiv ctx'" "length (nc_sendiv ctx') = 16"
      "nc_aeskey ctx' = nc_aeskey ctx"
    using WriteAckData_stream [OF assms(1-5) ne(1) _ sz lt e(2)] by blast
  obtain encs where "write_chunks L now (c\<lparr>sz_Seq := sz_Seq c + 1\<rparr>) ctx' ds =
      Some (c\<lparr>sz_Seq := sz_Seq c + 1\<rparr>, ctx', Ok (concat encs))"
    "length (concat encs) = length (concat es')"
    "list_all2 (\<lambda>d enc. AesDecrypt (nc_aeskey ctx) (nc_sendiv ctx') enc = Ok d) ds encs"
    using write_chunks_tail [OF _ ctx'(2) _ ctx'(3) e(3) ne(2), of L now "c\<lparr>sz_Seq := sz_Seq c + 1\<rparr>"]
      ctx' assms(3) by auto
  with w r e(1) ch(1) lt assms(2) handshake show ?thesis
    by (intro exI [of _ "c\<lparr>sz_Seq := sz_Seq c + 1\<rparr>"] exI [of _ ctx']
        exI [of _ "le_enc 4 (?total + 32) @ hd"] exI [of _ "enc # encs"])
       (simp add: EncodeWrite_def le_dec_le_enc)
qed


theorem stream_announces_size_witness:
  "\<exists>c' ctx' prefix encs.
    write_chunks echo_rsa 5 \<lparr>sz_rsakeyb = [], sz_rsaKey = [], sz_Seq = 8\<rparr>
      ((NewNetContext [])\<lparr>nc_state := 10, nc_aeskey := replicate 16 1, nc_updateiv := True,
         nc_stream := True, nc_size := 3, nc_packsize := 2\<rparr>) (chunks 2 [1, 2, 3])
      = Some (c', ctx', Ok (prefix @ concat encs)) \<and>
    le_dec (take 4 prefix) + 4 = length (prefix @ concat encs)"
  using stream_announces_size
    [of "(NewNetContext [])\<lparr>nc_state := 10, nc_aeskey := replicate 16 1, nc_updateiv := True,
         nc_stream := True, nc_size := 3, nc_packsize := 2\<rparr>" "[1, 2, 3]" echo_rsa 5
      "\<lparr>sz_rsakeyb = [], sz_rsaKey = [], sz_Seq = 8\<rparr>"]
  by (auto simp: NewNetContext_def)

end
