(* ===== verification/Std_Strings.thy ===== *)
theory Std_Strings
  imports Go_Prelude "HOL-Library.Sublist"
begin

text \<open>
  What the repository uses of \<^verbatim>\<open>strings\<close>, \<^verbatim>\<open>strconv\<close> and the verbs of \<^verbatim>\<open>fmt\<close>: decimal and
  hexadecimal printing, parsing of integers, lower case, splitting, joining, replacing.
\<close>

subsection \<open>Decimal numbers\<close>

definition digit_char :: "nat \<Rightarrow> char" where
  "digit_char d = char_of (48 + d)"

definition digit_val :: "char \<Rightarrow> nat option" where
  "digit_val c = (let n = of_char c in if 48 \<le> n \<and> n \<le> 57 then Some (n - 48) else None)"

fun dec_of_nat :: "nat \<Rightarrow> string" where
  "dec_of_nat n = (if n < 10 then [digit_char n] else dec_of_nat (n div 10) @ [digit_char (n mod 10)])"

declare dec_of_nat.simps [simp del]

definition FormatInt :: "int \<Rightarrow> string" where
  "FormatInt i = (if i < 0 then CHR ''-'' # dec_of_nat (nat (- i)) else dec_of_nat (nat i))"

fun dec_digits :: "nat \<Rightarrow> string \<Rightarrow> nat option" where
  "dec_digits acc [] = Some acc"
| "dec_digits acc (c # cs) =
     (case digit_val c of None \<Rightarrow> None | Some d \<Rightarrow> dec_digits (10 * acc + d) cs)"

definition dec_to_nat :: "string \<Rightarrow> nat option" where
  "dec_to_nat s = (if s = [] then None else dec_digits 0 s)"

abbreviation ErrSyntax :: gerr where
  "ErrSyntax \<equiv> Sentinel ''invalid syntax''"

abbreviation ErrRange :: gerr where
  "ErrRange \<equiv> Sentinel ''value out of range''"

text \<open>\<open>strconv.ParseUint(s, 10, bits)\<close> and \<open>strconv.ParseInt(s, 10, bits)\<close>; \<open>Atoi\<close> is the latter at 64 bits.\<close>

definition ParseUint :: "nat \<Rightarrow> string \<Rightarrow> nat outcome" where
  "ParseUint bits s =
     (case dec_to_nat s of
        None \<Rightarrow> Err ErrSyntax
      | Some n \<Rightarrow> if n < 2 ^ bits then Ok n else Err ErrRange)"

definition ParseInt :: "nat \<Rightarrow> string \<Rightarrow> int outcome" where
  "ParseInt bits s =
     (let (neg, t) = (case s of [] \<Rightarrow> (False, [])
                        | c # cs \<Rightarrow> if c = CHR ''-'' then (True, cs)
                                    else if c = CHR ''+'' then (False, cs) else (False, s)) in
      case dec_to_nat t of
        None \<Rightarrow> Err ErrSyntax
      | Some n \<Rightarrow>
          if neg then (if n \<le> 2 ^ (bits - 1) then Ok (- int n) else Err ErrRange)
          else (if n < 2 ^ (bits - 1) then Ok (int n) else Err ErrRange))"

abbreviation Atoi :: "string \<Rightarrow> int outcome" where
  "Atoi \<equiv> ParseInt 64"

lemma digit_val_char [simp]: "d < 10 \<Longrightarrow> digit_val (digit_char d) = Some d"
  by (simp add: digit_val_def digit_char_def)

lemma dec_digits_append:
  "dec_digits acc (s @ t) = (case dec_digits acc s of None \<Rightarrow> None | Some a \<Rightarrow> dec_digits a t)"
  by (induction s arbitrary: acc) (auto split: option.splits)

lemma dec_digits_dec_of_nat: "dec_digits 0 (dec_of_nat n) = Some n"
proof (induction n rule: dec_of_nat.induct)
  case (1 n)
  then show ?case by (subst dec_of_nat.simps) (auto simp: dec_digits_append)
qed

lemma dec_of_nat_not_Nil [simp]: "dec_of_nat n \<noteq> []"
  by (subst dec_of_nat.simps) simp

lemma dec_to_nat_dec_of_nat [simp]: "dec_to_nat (dec_of_nat n) = Some n"
  by (simp add: dec_to_nat_def dec_digits_dec_of_nat)

lemma dec_of_nat_inject [simp]: "dec_of_nat m = dec_of_nat n \<longleftrightarrow> m = n"
  by (metis dec_to_nat_dec_of_nat option.inject)

lemma dec_of_nat_digits: "c \<in> set (dec_of_nat n) \<Longrightarrow> digit_val c \<noteq> None"
proof (induction n rule: dec_of_nat.induct)
  case (1 n)
  then show ?case by (subst (asm) dec_of_nat.simps) (auto split: if_splits)
qed

lemma digit_val_sign [simp]: "digit_val (CHR ''-'') = None" "digit_val (CHR ''+'') = None"
  by (simp_all add: digit_val_def)

lemma dec_of_nat_no_sign: "dec_of_nat n = c # cs \<Longrightarrow> c \<noteq> CHR ''-'' \<and> c \<noteq> CHR ''+''"
  using dec_of_nat_digits [of c n] by auto

lemma ParseInt_FormatInt:
  assumes "- (2 ^ (bits - 1)) \<le> i" "i < 2 ^ (bits - 1)"
  shows "ParseInt bits (FormatInt i) = Ok i"
proof (cases "i < 0")
  case True
  then have "nat (- i) \<le> 2 ^ (bits - 1)" using assms(1) by (simp add: nat_le_iff)
  with True show ?thesis by (simp add: ParseInt_def FormatInt_def)
next
  case False
  then have "nat i < 2 ^ (bits - 1)" using assms(2) by (simp add: nat_less_iff)
  moreover obtain c cs where "dec_of_nat (nat i) = c # cs" by (cases "dec_of_nat (nat i)") auto
  moreover from this have "c \<noteq> CHR ''-''" "c \<noteq> CHR ''+''" using dec_of_nat_no_sign by auto
  moreover from calculation have "dec_to_nat (c # cs) = Some (nat i)"
    by (metis dec_to_nat_dec_of_nat)
  ultimately show ?thesis using False by (simp add: ParseInt_def FormatInt_def)
qed

subsection \<open>Hexadecimal\<close>

definition hex_char :: "nat \<Rightarrow> char" where
  "hex_char d = (if d < 10 then char_of (48 + d) else char_of (87 + d))"

text \<open>The verb \<^verbatim>\<open>%x\<close> on bytes.\<close>

definition hex_byte :: "byte \<Rightarrow> string" where
  "hex_byte b = [hex_char (unat b div 16), hex_char (unat b mod 16)]"

definition hex_of_bytes :: "bytes \<Rightarrow> string" where
  "hex_of_bytes b = concat (map hex_byte b)"

definition hex_val :: "char \<Rightarrow> nat option" where
  "hex_val c = (let n = of_char c in
     if 48 \<le> n \<and> n \<le> 57 then Some (n - 48)
     else if 97 \<le> n \<and> n \<le> 102 then Some (n - 87)
     else if 65 \<le> n \<and> n \<le> 70 then Some (n - 55) else None)"

fun bytes_of_hex :: "string \<Rightarrow> bytes option" where
  "bytes_of_hex [] = Some []"
| "bytes_of_hex (a # b # s) =
     (case (hex_val a, hex_val b, bytes_of_hex s) of
        (Some x, Some y, Some r) \<Rightarrow> Some (of_nat (16 * x + y) # r)
      | _ \<Rightarrow> None)"
| "bytes_of_hex [a] = None"

lemma hex_val_char [simp]: "d < 16 \<Longrightarrow> hex_val (hex_char d) = Some d"
  by (auto simp: hex_val_def hex_char_def)

lemma bytes_of_hex_of_bytes [simp]: "bytes_of_hex (hex_of_bytes b) = Some b"
proof (induction b)
  case (Cons x b)
  have "unat x div 16 < 16" using byte_less_256 [of x] by (simp add: div_less_iff_less_mult del: byte_less_256)
  with Cons show ?case by (simp add: hex_of_bytes_def hex_byte_def)
qed (simp add: hex_of_bytes_def)

lemma hex_of_bytes_inject [simp]: "hex_of_bytes a = hex_of_bytes b \<longleftrightarrow> a = b"
  by (metis bytes_of_hex_of_bytes option.inject)

lemma length_hex_of_bytes [simp]: "length (hex_of_bytes b) = 2 * length b"
  by (induction b) (auto simp: hex_of_bytes_def hex_byte_def)

subsection \<open>Lower case\<close>

definition is_ascii :: "string \<Rightarrow> bool" where
  "is_ascii s = list_all (\<lambda>c. of_char c < (128 :: nat)) s"

definition lower_char :: "char \<Rightarrow> char" where
  "lower_char c = (let n = of_char c in if 65 \<le> n \<and> n \<le> (90 :: nat) then char_of (n + 32) else c)"

text \<open>
  \<open>strings.ToLower\<close>. Text with bytes outside ASCII goes through the Unicode tables, which are the
  parameter \<open>uni\<close>.
\<close>

definition ToLower :: "(string \<Rightarrow> string) \<Rightarrow> string \<Rightarrow> string" where
  "ToLower uni s = (if is_ascii s then map lower_char s else uni s)"

lemma lower_char_idem [simp]: "lower_char (lower_char c) = lower_char c"
  by (auto simp: lower_char_def Let_def)

subsection \<open>Splitting, joining, replacing\<close>

text \<open>\<open>strings.Split\<close> with a separator of one character.\<close>

fun Split :: "char \<Rightarrow> string \<Rightarrow> string list" where
  "Split d [] = [[]]"
| "Split d (c # cs) =
     (if c = d then [] # Split d cs
      else case Split d cs of [] \<Rightarrow> [[c]] | p # ps \<Rightarrow> (c # p) # ps)"

fun Join :: "string list \<Rightarrow> string \<Rightarrow> string" where
  "Join [] sep = []"
| "Join [a] sep = a"
| "Join (a # b # as) sep = a @ sep @ Join (b # as) sep"

lemma Split_not_Nil [simp]: "Split d s \<noteq> []"
  by (induction s) (auto split: list.splits)

lemma Join_Split [simp]: "Join (Split d s) [d] = s"
proof (induction s)
  case (Cons c s)
  show ?case
  proof (cases "Split d s")
    case Nil
    then show ?thesis by simp
  next
    case (Cons p ps)
    with \<open>Join (Split d s) [d] = s\<close> show ?thesis by (cases ps) auto
  qed
qed simp

lemma Split_no_sep: "p \<in> set (Split d s) \<Longrightarrow> d \<notin> set p"
proof (induction s arbitrary: p)
  case (Cons c s)
  then show ?case by (cases "Split d s") (auto split: if_splits)
qed simp

lemma Split_plain: "d \<notin> set s \<Longrightarrow> Split d s = [s]"
  by (induction s) auto

lemma Split_cons: "d \<notin> set s \<Longrightarrow> Split d (s @ d # t) = s # Split d t"
  by (induction s) auto

lemma length_Split: "length (Split d s) = Suc (count_list s d)"
proof (induction s)
  case (Cons c s)
  then show ?case by (cases "Split d s") auto
qed simp

text \<open>\<open>strings.SplitN(s, d, 2)\<close>: \<open>None\<close> when \<open>d\<close> does not occur.\<close>

definition Cut :: "char \<Rightarrow> string \<Rightarrow> (string \<times> string) option" where
  "Cut d s = (if d \<in> set s then Some (takeWhile (\<lambda>c. c \<noteq> d) s, tl (dropWhile (\<lambda>c. c \<noteq> d) s)) else None)"

lemma Cut_append: "d \<notin> set s \<Longrightarrow> Cut d (s @ d # t) = Some (s, t)"
  by (induction s) (auto simp: Cut_def)

lemma Cut_plain: "d \<notin> set s \<Longrightarrow> Cut d s = None"
  by (simp add: Cut_def)

lemma Cut_SomeD: "Cut d s = Some (a, b) \<Longrightarrow> s = a @ d # b \<and> d \<notin> set a"
proof -
  assume "Cut d s = Some (a, b)"
  then have d: "d \<in> set s" and a: "a = takeWhile (\<lambda>c. c \<noteq> d) s" and b: "b = tl (dropWhile (\<lambda>c. c \<noteq> d) s)"
    by (auto simp: Cut_def split: if_splits)
  obtain t where t: "dropWhile (\<lambda>c. c \<noteq> d) s = d # t"
    using d by (metis (mono_tags, lifting) dropWhile_eq_Cons_conv dropWhile_eq_Nil_conv neq_Nil_conv)
  have "s = takeWhile (\<lambda>c. c \<noteq> d) s @ dropWhile (\<lambda>c. c \<noteq> d) s" by simp
  then show ?thesis using a b t set_takeWhileD [of d "\<lambda>c. c \<noteq> d" s] by auto
qed

text \<open>\<open>strings.Replace(s, old, new, -1)\<close> for one old character.\<close>

definition ReplaceChar :: "char \<Rightarrow> string \<Rightarrow> string \<Rightarrow> string" where
  "ReplaceChar old new s = concat (map (\<lambda>c. if c = old then new else [c]) s)"

text \<open>\<open>strings.Contains\<close>.\<close>

definition Contains :: "string \<Rightarrow> string \<Rightarrow> bool" where
  "Contains s t \<longleftrightarrow> sublist t s"

text \<open>\<open>bytes.Trim(b, "\x00")\<close>.\<close>

definition trim_zero :: "bytes \<Rightarrow> bytes" where
  "trim_zero b = rev (dropWhile (\<lambda>x. x = 0) (rev (dropWhile (\<lambda>x. x = 0) b)))"

lemma trim_zero_padded:
  assumes "b \<noteq> []" "hd b \<noteq> 0" "last b \<noteq> 0"
  shows "trim_zero (b @ replicate n 0) = b"
proof -
  have "dropWhile (\<lambda>x. x = 0) (b @ replicate n 0) = b @ replicate n 0"
    using assms by (cases b) auto
  moreover have "dropWhile (\<lambda>x. x = 0) (replicate n (0 :: byte) @ rev b) = rev b"
    using assms by (induction n) (auto simp: dropWhile_eq_self_iff hd_rev)
  ultimately show ?thesis by (simp add: trim_zero_def)
qed

end
