(* ===== verification/Std_Url.thy ===== *)
theory Std_Url
  imports Std_Strings "HOL-Library.Char_ord" "HOL-Library.List_Lexorder"
begin

text \<open>
  What the repository uses of \<^verbatim>\<open>net/url\<close>: query escaping, \<open>url.Values\<close>, \<open>Encode\<close> and \<open>ParseQuery\<close>.
  A Go map is a partial function; code that ranges over one takes the order of iteration as the
  list \<open>ks\<close> of its keys, because the language leaves that order open.
\<close>

type_synonym url_values = "string \<rightharpoonup> string list"

definition iter_order :: "('a \<rightharpoonup> 'b) \<Rightarrow> 'a list \<Rightarrow> bool" where
  "iter_order m ks \<longleftrightarrow> distinct ks \<and> set ks = dom m"

lemma sort_iter_order: "iter_order m ks \<Longrightarrow> iter_order m ks' \<Longrightarrow> sort ks = sort (ks' :: 'a::linorder list)"
  by (auto simp: iter_order_def intro: sorted_distinct_set_unique)

subsection \<open>Escaping\<close>

definition unreserved :: "char \<Rightarrow> bool" where
  "unreserved c = (let n = of_char c :: nat in
     (48 \<le> n \<and> n \<le> 57) \<or> (65 \<le> n \<and> n \<le> 90) \<or> (97 \<le> n \<and> n \<le> 122) \<or> c \<in> set ''-_.~'')"

definition upper_hex :: "nat \<Rightarrow> char" where
  "upper_hex d = (if d < 10 then char_of (48 + d) else char_of (55 + d))"

definition escape_char :: "char \<Rightarrow> string" where
  "escape_char c =
     (if unreserved c then [c] else if c = CHR '' '' then ''+''
      else [CHR ''%'', upper_hex (of_char c div 16), upper_hex (of_char c mod 16)])"

definition QueryEscape :: "string \<Rightarrow> string" where
  "QueryEscape s = concat (map escape_char s)"

abbreviation EscapeError :: gerr where
  "EscapeError \<equiv> Sentinel ''invalid URL escape''"

fun QueryUnescape :: "string \<Rightarrow> string outcome" where
  "QueryUnescape [] = Ok []"
| "QueryUnescape (c # s) =
     (if c = CHR ''%'' then
        (case s of
           a # b # r \<Rightarrow>
             (case (hex_val a, hex_val b) of
                (Some x, Some y) \<Rightarrow> obind (QueryUnescape r) (\<lambda>t. Ok (char_of (16 * x + y) # t))
              | _ \<Rightarrow> Err EscapeError)
         | _ \<Rightarrow> Err EscapeError)
      else obind (QueryUnescape s) (\<lambda>t. Ok ((if c = CHR ''+'' then CHR '' '' else c) # t)))"

lemma of_char_256: "(of_char c :: nat) < 256"
  by (metis of_char_mod_256 mod_less_divisor zero_less_numeral)

lemma hex_val_upper [simp]: "d < 16 \<Longrightarrow> hex_val (upper_hex d) = Some d"
  by (auto simp: hex_val_def upper_hex_def)

lemma unreserved_plain: "unreserved c \<Longrightarrow> c \<noteq> CHR ''%'' \<and> c \<noteq> CHR ''+'' \<and> c \<noteq> CHR ''&'' \<and> c \<noteq> CHR ''='' \<and> c \<noteq> CHR '';''"
  by (auto simp: unreserved_def Let_def)

lemma QueryUnescape_char:
  "QueryUnescape (escape_char c @ s) = obind (QueryUnescape s) (\<lambda>t. Ok (c # t))"
proof -
  have "(of_char c :: nat) div 16 < 16"
    using of_char_256 [of c] by (simp add: div_less_iff_less_mult)
  then show ?thesis using unreserved_plain [of c]
    by (auto simp: escape_char_def)
qed

lemma QueryUnescape_QueryEscape [simp]: "QueryUnescape (QueryEscape s) = Ok s"
  by (induction s) (auto simp: QueryEscape_def QueryUnescape_char)

lemma upper_hex_unreserved: "d < 16 \<Longrightarrow> unreserved (upper_hex d)"
  by (auto simp: upper_hex_def unreserved_def Let_def)

lemma escape_char_plain: "x \<in> set (escape_char c) \<Longrightarrow> x \<noteq> CHR ''&'' \<and> x \<noteq> CHR ''='' \<and> x \<noteq> CHR '';''"
proof -
  have "(of_char c :: nat) div 16 < 16"
    using of_char_256 [of c] by (simp add: div_less_iff_less_mult)
  then show "x \<in> set (escape_char c) \<Longrightarrow> x \<noteq> CHR ''&'' \<and> x \<noteq> CHR ''='' \<and> x \<noteq> CHR '';''"
    using unreserved_plain [of x] upper_hex_unreserved unreserved_plain [OF upper_hex_unreserved]
    by (auto simp: escape_char_def split: if_splits)
qed

lemma QueryEscape_plain:
  "CHR ''&'' \<notin> set (QueryEscape s)" "CHR ''='' \<notin> set (QueryEscape s)" "CHR '';'' \<notin> set (QueryEscape s)"
  unfolding QueryEscape_def by (auto dest: escape_char_plain)

lemma escape_char_not_zero: "x \<in> set (escape_char c) \<Longrightarrow> (of_char x :: byte) \<noteq> 0"
proof -
  assume "x \<in> set (escape_char c)"
  moreover have "(of_char c :: nat) div 16 < 16"
    using of_char_256 [of c] by (simp add: div_less_iff_less_mult)
  ultimately have "unreserved x \<or> x = CHR ''+'' \<or> x = CHR ''%''"
    using upper_hex_unreserved by (auto simp: escape_char_def split: if_splits)
  then have "(of_char x :: nat) \<noteq> 0" by (auto simp: unreserved_def Let_def)
  then show ?thesis by (metis unat_of_char unsigned_0)
qed

subsection \<open>Values\<close>

definition url_Get :: "url_values \<Rightarrow> string \<Rightarrow> string" where
  "url_Get v key = (case v key of Some (x # xs) \<Rightarrow> x | _ \<Rightarrow> [])"

definition url_Set :: "url_values \<Rightarrow> string \<Rightarrow> string \<Rightarrow> url_values" where
  "url_Set v key x = v(key \<mapsto> [x])"

definition url_Add :: "url_values \<Rightarrow> string \<Rightarrow> string \<Rightarrow> url_values" where
  "url_Add v key x = v(key \<mapsto> (case v key of None \<Rightarrow> [x] | Some xs \<Rightarrow> xs @ [x]))"

lemma url_Get_Set [simp]: "url_Get (url_Set v k x) k' = (if k = k' then x else url_Get v k')"
  by (simp add: url_Get_def url_Set_def)

definition url_pair :: "string \<Rightarrow> string \<Rightarrow> string" where
  "url_pair k x = QueryEscape k @ ''='' @ QueryEscape x"

definition url_pairs :: "string list \<Rightarrow> url_values \<Rightarrow> (string \<times> string) list" where
  "url_pairs ks v = concat (map (\<lambda>k. map (Pair k) (the (v k))) ks)"

definition url_Encode :: "string list \<Rightarrow> url_values \<Rightarrow> string" where
  "url_Encode ks v = Join (map (\<lambda>(k, x). url_pair k x) (url_pairs (sort ks) v)) ''&''"

text \<open>One piece of a query; the first error is remembered and the piece skipped.\<close>

definition parse_part :: "url_values \<times> gerr option \<Rightarrow> string \<Rightarrow> url_values \<times> gerr option" where
  "parse_part st p =
     (let (m, err) = st; fail = (\<lambda>e. (m, if err = None then Some e else err)) in
      if CHR '';'' \<in> set p then fail (Sentinel ''invalid semicolon separator in query'')
      else if p = [] then (m, err)
      else let (k, x) = (case Cut (CHR ''='') p of None \<Rightarrow> (p, []) | Some kx \<Rightarrow> kx) in
        case QueryUnescape k of
          Ok k \<Rightarrow> (case QueryUnescape x of Ok x \<Rightarrow> (url_Add m k x, err) | Err e \<Rightarrow> fail e | Panic _ \<Rightarrow> st)
        | Err e \<Rightarrow> fail e | Panic _ \<Rightarrow> st)"

definition ParseQuery :: "string \<Rightarrow> url_values \<times> gerr option" where
  "ParseQuery q = foldl parse_part (Map.empty, None) (Split (CHR ''&'') q)"

lemma parse_part_pair [simp]: "parse_part (m, err) (url_pair k x) = (url_Add m k x, err)"
  using Cut_append [OF QueryEscape_plain(2), of k "QueryEscape x"]
  by (simp add: parse_part_def url_pair_def QueryEscape_plain)

lemma Split_Join:
  "ps \<noteq> [] \<Longrightarrow> \<forall>p \<in> set ps. d \<notin> set p \<Longrightarrow> Split d (Join ps [d]) = ps"
proof (induction ps rule: induct_list012)
  case (3 p q ps)
  then show ?case by (simp add: Split_cons)
qed (simp_all add: Split_plain)

lemma foldl_parse_pairs:
  "foldl parse_part (m, err) (map (\<lambda>(k, x). url_pair k x) kxs) = (foldl (\<lambda>m (k, x). url_Add m k x) m kxs, err)"
  by (induction kxs arbitrary: m) auto

lemma foldl_url_Add:
  "foldl (\<lambda>m (k, x). url_Add m k x) (m(k \<mapsto> ys)) (map (Pair k) xs) = m(k \<mapsto> ys @ xs)"
  by (induction xs arbitrary: ys) (auto simp: url_Add_def)

lemma foldl_url_pairs:
  assumes "distinct ks" "\<forall>k \<in> set ks. \<exists>x xs. v k = Some (x # xs)" "\<forall>k \<in> set ks. m k = None"
  shows "foldl (\<lambda>m (k, x). url_Add m k x) m (url_pairs ks v) = m ++ (v |` set ks)"
  using assms
proof (induction ks arbitrary: m)
  case (Cons k ks)
  then obtain x xs where v: "v k = Some (x # xs)" by auto
  have "foldl (\<lambda>m (k, x). url_Add m k x) m (map (Pair k) (x # xs)) = m(k \<mapsto> x # xs)"
    using foldl_url_Add [of m k "[x]" xs] Cons.prems(3) by (simp add: url_Add_def)
  then have "foldl (\<lambda>m (k, x). url_Add m k x) m (url_pairs (k # ks) v) =
      foldl (\<lambda>m (k, x). url_Add m k x) (m(k \<mapsto> x # xs)) (url_pairs ks v)"
    by (simp add: url_pairs_def v)
  also have "\<dots> = m(k \<mapsto> x # xs) ++ (v |` set ks)"
    using Cons.prems by (intro Cons.IH) auto
  also have "\<dots> = m ++ (v |` set (k # ks))"
    using Cons.prems(1) v by (auto simp: fun_eq_iff map_add_def restrict_map_def split: option.splits)
  finally show ?case .
qed (simp add: url_pairs_def)

lemma restrict_dom: "v |` dom v = v"
  by (rule ext) (auto simp: restrict_map_def domIff)

text \<open>Parsing undoes encoding when every key has a value.\<close>

lemma ParseQuery_Encode:
  assumes "iter_order v ks" and "\<forall>k xs. v k = Some xs \<longrightarrow> xs \<noteq> []"
  shows "ParseQuery (url_Encode ks v) = (v, None)"
proof -
  have ks: "distinct (sort ks)" "set (sort ks) = dom v" using assms(1) by (auto simp: iter_order_def)
  have "\<forall>k \<in> set (sort ks). \<exists>x xs. v k = Some (x # xs)"
    using ks(2) assms(2) by (metis domD neq_Nil_conv)
  then have f: "foldl (\<lambda>m (k, x). url_Add m k x) Map.empty (url_pairs (sort ks) v) = v |` dom v"
    using foldl_url_pairs [OF ks(1), of v Map.empty] ks(2) by simp
  let ?ps = "map (\<lambda>(k, x). url_pair k x) (url_pairs (sort ks) v)"
  show ?thesis
  proof (cases "?ps = []")
    case True
    then have "v |` dom v = Map.empty" using f by simp
    then have "v = Map.empty" by (simp add: restrict_dom)
    with True show ?thesis by (simp add: ParseQuery_def url_Encode_def parse_part_def)
  next
    case False
    have "\<forall>p \<in> set ?ps. CHR ''&'' \<notin> set p" by (auto simp: url_pair_def QueryEscape_plain)
    with False have "Split (CHR ''&'') (url_Encode ks v) = ?ps" by (simp add: url_Encode_def Split_Join)
    then have "ParseQuery (url_Encode ks v) = (v |` dom v, None)"
      using f by (simp add: ParseQuery_def foldl_parse_pairs)
    then show ?thesis by (simp add: restrict_dom)
  qed
qed

end
