(* ===== verification/Net_Decoder.thy ===== *)
theory Net_Decoder
  imports Std_Url Std_Base64 Std_Md5
begin

text \<open>
  \<^verbatim>\<open>netserve/pdecoder.go\<close>: the decoders that turn a received message into an API code and its
  data. The handler's callbacks are fields of a record; the JSON decoder of the standard
  library is a parameter \<open>unmarshal\<close>, because its result is all the code depends on.
\<close>

record api_handler =
  ConvertSApiToCode :: "string \<Rightarrow> int"
  ConvertAPIToCode :: "int \<Rightarrow> int"
  QueryAppSecretKey :: "string \<Rightarrow> string"

subsection \<open>The query decoder\<close>

definition VerifyValues :: "url_values \<Rightarrow> string \<times> bool" where
  "VerifyValues v =
     (let data = url_Get v ''data''; data = (if data = [] then url_Get v ''Data'' else data)
      in (data, data \<noteq> []))"

definition ele_Decode :: "api_handler \<Rightarrow> bytes \<Rightarrow> (int \<times> bytes) outcome" where
  "ele_Decode hdl buf =
     (let valueText = string_of_bytes (trim_zero buf); (v, err) = ParseQuery valueText in
      case err of
        Some e \<Rightarrow> Err e
      | None \<Rightarrow>
          let (dataS, ret) = VerifyValues v in
          if \<not> ret then Ok (0, [])
          else obind (b64_decode dataS) (\<lambda>p. Ok (ConvertSApiToCode hdl (url_Get v ''type''), p)))"

subsection \<open>The JSON decoder\<close>

record szApiData =
  sz_Api :: string
  sz_Data :: bytes

definition sz_Decode :: "(bytes \<Rightarrow> szApiData outcome) \<Rightarrow> api_handler \<Rightarrow> bytes \<Rightarrow> (int \<times> bytes) outcome" where
  "sz_Decode unmarshal hdl buf =
     (if buf = [] then Ok (0, [])
      else let s = trim_zero buf; p = filter (\<lambda>b. b \<noteq> 10) s in
        obind (CheckError (unmarshal p)) (\<lambda>apiData.
          Ok (ConvertSApiToCode hdl (sz_Api apiData), sz_Data apiData)))"

subsection \<open>The signed web decoder\<close>

record WebApiData =
  wa_Api :: string
  wa_App :: string
  wa_Nonce :: "64 word"
  wa_Data :: bytes
  wa_Sig :: string

definition web_CalcSig :: "api_handler \<Rightarrow> WebApiData \<Rightarrow> string" where
  "web_CalcSig hdl a =
     (let secrectKey = QueryAppSecretKey hdl (wa_App a);
          p = wa_Api a @ ''&'' @ wa_App a @ ''&'' @ dec_of_nat (unat (wa_Nonce a)) @ ''&'' @
              string_of_bytes (wa_Data a) @ ''&'' @ secrectKey
      in hex_of_bytes (md5 (bytes_of_string p)))"

text \<open>The panic value is a string made by \<open>fmt.Sprintf\<close>, not an error.\<close>

definition web_CheckSig :: "(string \<Rightarrow> string) \<Rightarrow> api_handler \<Rightarrow> WebApiData \<Rightarrow> unit outcome" where
  "web_CheckSig uni hdl a =
     (let sig = web_CalcSig hdl a in
      if ToLower uni sig \<noteq> ToLower uni (wa_Sig a)
      then Panic (PStr ''sig %v is error, mine %v'' [AStr (wa_Sig a), AStr sig])
      else Ok ())"

definition web_Decode :: "(string \<Rightarrow> string) \<Rightarrow> (bytes \<Rightarrow> WebApiData outcome) \<Rightarrow> api_handler \<Rightarrow> bytes
    \<Rightarrow> (int \<times> bytes) outcome" where
  "web_Decode uni unmarshal hdl buf =
     (let s = string_of_bytes (trim_zero buf) in
      obind (CheckError (b64_decode s)) (\<lambda>tmp.
      obind (CheckError (unmarshal tmp)) (\<lambda>apidata.
      obind (web_CheckSig uni hdl apidata) (\<lambda>_.
      Ok (ConvertSApiToCode hdl (wa_Api apidata), wa_Data apidata)))))"

subsection \<open>The binary decoder\<close>

definition mt_Decode :: "api_handler \<Rightarrow> bytes \<Rightarrow> (int \<times> bytes) outcome" where
  "mt_Decode hdl buf =
     (if length buf < 2 then index_panic
      else Ok (ConvertAPIToCode hdl (int (le_dec (take 2 buf))), drop 2 buf))"

subsection \<open>Choosing a decoder\<close>

datatype decoder = EleDecoder | SzDecoder | MtDecoder

definition newDecoder :: "string \<Rightarrow> decoder outcome" where
  "newDecoder codeType =
     (if codeType = ''nj11'' then Ok EleDecoder
      else if codeType = ''sz12'' then Ok SzDecoder
      else if codeType = ''mt'' then Ok MtDecoder
      else Panic (PErr (Errorf ''not support trans cipher type %s'' [AStr codeType])))"

definition Decode :: "(bytes \<Rightarrow> szApiData outcome) \<Rightarrow> api_handler \<Rightarrow> decoder \<Rightarrow> bytes \<Rightarrow> (int \<times> bytes) outcome" where
  "Decode unmarshal hdl d buf =
     (case d of
        EleDecoder \<Rightarrow> ele_Decode hdl buf
      | SzDecoder \<Rightarrow> sz_Decode unmarshal hdl buf
      | MtDecoder \<Rightarrow> mt_Decode hdl buf)"

subsection \<open>Lemmas\<close>

text \<open>The characters of an encoded query are never the zero byte, so trimming stops at them.\<close>

lemma url_pair_not_zero: "b \<in> set (bytes_of_string (url_pair k x)) \<Longrightarrow> b \<noteq> 0"
proof -
  assume "b \<in> set (bytes_of_string (url_pair k x))"
  then obtain c where b: "b = of_char c" and "c \<in> set (url_pair k x)"
    by (auto simp: bytes_of_string_def)
  then have "(\<exists>d. c \<in> set (escape_char d)) \<or> c = CHR ''=''"
    by (auto simp: url_pair_def QueryEscape_def)
  then have "(of_char c :: byte) \<noteq> 0" using escape_char_not_zero by auto
  with b show ?thesis by simp
qed

lemma Join_not_zero:
  "b \<in> set (bytes_of_string (Join (map (\<lambda>(k, x). url_pair k x) kxs) ''&'')) \<Longrightarrow> b \<noteq> 0"
proof (induction kxs rule: induct_list012)
  case (3 a c kxs)
  have "b \<in> set (bytes_of_string (case_prod url_pair a)) \<or> b = of_char (CHR ''&'') \<or>
      b \<in> set (bytes_of_string (Join (map (\<lambda>(k, x). url_pair k x) (c # kxs)) ''&''))"
    using "3.prems" by (auto simp: bytes_of_string_def)
  with 3 url_pair_not_zero show ?case by (cases a) auto
next
  case (2 a)
  then show ?case using url_pair_not_zero by (cases a) auto
qed (simp add: bytes_of_string_def)

lemma trim_zero_Encode:
  "trim_zero (bytes_of_string (url_Encode ks v) @ replicate n 0) = bytes_of_string (url_Encode ks v)"
proof (cases "url_Encode ks v = []")
  case True
  then show ?thesis
    by (simp add: trim_zero_def bytes_of_string_def dropWhile_replicate)
next
  case False
  let ?b = "bytes_of_string (url_Encode ks v)"
  have "length ?b \<noteq> 0" using False by simp
  then have ne: "?b \<noteq> []" by (simp only: length_0_conv not_False_eq_True)
  have nz: "b \<noteq> 0" if "b \<in> set ?b" for b
    using that Join_not_zero unfolding url_Encode_def by blast
  have "hd ?b \<noteq> 0" "last ?b \<noteq> 0"
    using nz hd_in_set [OF ne] last_in_set [OF ne] by blast+
  with ne show ?thesis by (rule trim_zero_padded)
qed

lemma ele_Decode_request:
  assumes "iter_order v ks" and "\<forall>k xs. v k = Some xs \<longrightarrow> xs \<noteq> []"
    and "url_Get v ''data'' = b64_encode p" and "p \<noteq> []"
  shows "ele_Decode hdl (bytes_of_string (url_Encode ks v) @ replicate n 0)
       = Ok (ConvertSApiToCode hdl (url_Get v ''type''), p)"
  using assms by (simp add: ele_Decode_def trim_zero_Encode ParseQuery_Encode VerifyValues_def)

end
