(* ===== verification/Net_Conn.thy ===== *)
theory Net_Conn
  imports Net_Sz Net_Line Net_Decoder
begin

text \<open>
  \<^verbatim>\<open>netserve/conn.go\<close> and \<^verbatim>\<open>NewTransCipher\<close> of \<^verbatim>\<open>netserve/transcipher.go\<close>: the choice of the cipher, and the
  handler of a request with its recovery from panics. The connection object is in \<open>Net_Peer\<close>.
\<close>

subsection \<open>Ciphers behind one interface\<close>

datatype 'prv trans_cipher = Ele eleCipher | Sz "'prv szcipher" | Cccfg "cccfgcipher option"

definition NewTransCipher :: "('prv, 'pub) rsa_lib \<Rightarrow> 32 word \<Rightarrow> string list \<Rightarrow> 'prv trans_cipher outcome" where
  "NewTransCipher L seed cipherCfg =
     obind (checkArgsMinSize cipherCfg 1) (\<lambda>_.
     if cipherCfg ! 0 = ''nj11'' then
       obind (checkArgsMinSize cipherCfg 3) (\<lambda>_.
       obind (newEleCipher (cipherCfg ! 1) (cipherCfg ! 2)) (\<lambda>c. Ok (Ele c)))
     else if cipherCfg ! 0 = ''sz12'' then
       obind (checkArgsMinSize cipherCfg 2) (\<lambda>_.
       obind (CheckError (b64_decode (cipherCfg ! 1))) (\<lambda>key.
       obind (newszcipher L seed key) (\<lambda>c. Ok (Sz c))))
     else if cipherCfg ! 0 = ''cccfg'' then
       obind (checkArgsMinSize cipherCfg 2) (\<lambda>_.
       obind (newCccfgCipher (cipherCfg ! 1)) (\<lambda>c. Ok (Cccfg c)))
     else Panic (PErr (Errorf ''not support trans cipher type %s'' [AStr (cipherCfg ! 0)])))"

text \<open>A write through the interface; the new cipher, context and buffered output.\<close>

definition cipher_write :: "('prv, 'pub) rsa_lib \<Rightarrow> 64 word \<Rightarrow> 'prv trans_cipher \<Rightarrow> NetContext \<Rightarrow> bytes
    \<Rightarrow> bytes \<Rightarrow> ('prv trans_cipher \<times> NetContext \<times> bytes outcome) option" where
  "cipher_write L now c ctx buf data =
     (case c of
        Ele e \<Rightarrow> Some (c, ctx, ele_EncodeWrite e buf data)
      | Cccfg None \<Rightarrow> Some (c, ctx, nil_panic)
      | Cccfg (Some e) \<Rightarrow> Some (c, ctx, cfg_EncodeWrite e buf data)
      | Sz s \<Rightarrow>
          (case EncodeWrite L now s ctx data of
             None \<Rightarrow> None
           | Some (s, ctx, r) \<Rightarrow> Some (Sz s, ctx, obind r (\<lambda>out. Ok (buf @ out)))))"

definition cipher_read :: "('prv, 'pub) rsa_lib \<Rightarrow> nat \<Rightarrow> bytes \<Rightarrow> 'prv trans_cipher \<Rightarrow> NetContext \<Rightarrow> reader
    \<Rightarrow> NetContext \<times> (bytes \<times> reader) outcome" where
  "cipher_read L avail spare c ctx rd =
     (case c of
        Ele e \<Rightarrow> (ctx, ele_DecodeRead e rd)
      | Cccfg None \<Rightarrow> (ctx, nil_panic)
      | Cccfg (Some e) \<Rightarrow> (ctx, cfg_DecodeRead avail e rd)
      | Sz s \<Rightarrow> DecodeRead L s ctx spare rd)"

subsection \<open>A connection\<close>

definition BeginWriteStream :: "NetContext \<Rightarrow> int \<Rightarrow> int \<Rightarrow> NetContext" where
  "BeginWriteStream ctx sz packsize =
     ctx\<lparr>nc_stream := True, nc_size := sz, nc_packsize := packsize\<rparr>"

definition PeerAddrIP :: "string \<Rightarrow> string" where
  "PeerAddrIP addr =
     (let ips = Split (CHR '':'') addr in if length ips > 1 then ips ! 0 else addr)"

text \<open>
  How a request handler ends. \<open>RClosed\<close>: the connection is closed, with the request that reached
  the handler, if any, and the errors logged. \<open>RCrash\<close>: a panic left the deferred function
  itself, which ends the process.
\<close>

datatype request_end = RClosed "(int \<times> bytes) option" "gerr list" | RCrash gpanic

text \<open>
  The deferred recovery of \<open>HandleRequest\<close>: \<^verbatim>\<open>x.(error)\<close> panics again when the recovered value is
  not an error. \<open>msg\<close> is the text of an error.
\<close>

definition recover_request :: "(gerr \<Rightarrow> string) \<Rightarrow> (int \<times> bytes) option \<Rightarrow> gerr list \<Rightarrow> gpanic option \<Rightarrow> request_end" where
  "recover_request msg req logged x =
     (case x of
        None \<Rightarrow> RClosed req logged
      | Some (PErr e) \<Rightarrow>
          RClosed req (if Contains (msg e) ''timeout'' then logged else logged @ [e])
      | Some (PStr s args) \<Rightarrow> RCrash (PErr (RuntimeError ''interface conversion'')))"

text \<open>
  \<open>HandleRequest\<close> over the outcome of reading, a decoder and a handler. An error return does not
  occur in reading, which reports failures by panics. The list in the result has the errors that
  \<open>HandleRequest\<close> logs itself; a decoder may have logged its error before.
\<close>

definition HandleRequest :: "(gerr \<Rightarrow> string) \<Rightarrow> bytes outcome \<Rightarrow> (bytes \<Rightarrow> (int \<times> bytes) outcome)
    \<Rightarrow> (int \<Rightarrow> bytes \<Rightarrow> unit outcome) \<Rightarrow> request_end" where
  "HandleRequest msg read decode handle =
     (case read of
        Panic p \<Rightarrow> recover_request msg None [] (Some p)
      | Err e \<Rightarrow> recover_request msg None [e] None
      | Ok rawData \<Rightarrow>
          if rawData = [] then recover_request msg None [] None
          else (case decode rawData of
                  Panic p \<Rightarrow> recover_request msg None [] (Some p)
                | Err e \<Rightarrow> recover_request msg None [e] None
                | Ok (api, data) \<Rightarrow>
                    (case handle api data of
                       Panic p \<Rightarrow> recover_request msg (Some (api, data)) [] (Some p)
                     | _ \<Rightarrow> recover_request msg (Some (api, data)) [] None)))"

subsection \<open>Lemmas\<close>

lemma readLine_no_panic: "readLine rd \<noteq> Panic p"
proof -
  have "line_loop rd acc \<noteq> Panic p" for rd acc
  proof (induction rd acc rule: line_loop.induct)
    case (1 rd line)
    have "ReadLine rd \<noteq> Panic p" by (simp add: ReadLine_def Let_def)
    with 1 show ?case
      by (cases "ReadLine rd") (auto simp: line_loop.simps [of rd] split: if_splits)
  qed
  then show ?thesis by (simp add: readLine_def)
qed

lemma b64_decode_no_panic: "b64_decode s \<noteq> Panic p"
  by (simp add: b64_decode_def split: option.splits)

lemma ele_Decode_no_panic: "ele_Decode hdl buf \<noteq> Panic p"
  by (auto simp: ele_Decode_def Let_def outcome_simps b64_decode_no_panic split: prod.splits option.splits)

subsection \<open>Properties\<close>

text \<open>
  C6: With the line cipher and the query decoder, and a handler that panics with errors only, the
  process is brought down exactly by a line that is base64 of something other than whole
  blocks of 16 bytes: the string panic of the block mode passes the recovery code.
\<close>

theorem ele_request_crash_iff:
  assumes "ele_aesblock c = Some key" and "length (ele_aesivb c) = 16"
    and "\<forall>api data s args. handle api data \<noteq> Panic (PStr s args)"
  shows "(\<exists>p. HandleRequest msg (obind (ele_DecodeRead c rd) (\<lambda>(d, rd'). Ok d)) (ele_Decode hdl) handle
           = RCrash p) \<longleftrightarrow>
         (\<exists>line rd' raw. readLine rd = Ok (line, rd') \<and>
            b64_decode (string_of_bytes line) = Ok raw \<and> length raw mod 16 \<noteq> 0)"
proof -
  have h: "(\<exists>p. HandleRequest msg r (ele_Decode hdl) handle = RCrash p) \<longleftrightarrow> (\<exists>s a. r = Panic (PStr s a))" for r
    using assms(3) ele_Decode_no_panic
    by (auto simp: HandleRequest_def recover_request_def split: outcome.splits gpanic.splits)
  show ?thesis
  proof (cases "readLine rd")
    case (Ok lr)
    obtain line rd' where l: "lr = (line, rd')" by fastforce
    show ?thesis unfolding h
      using assms(1,2) Ok l b64_decode_no_panic
      by (cases "b64_decode (string_of_bytes line)")
         (auto simp: ele_DecodeRead_def NewCBCDecrypter_def cbc_decrypt_blocks_def)
  qed (auto simp: h ele_DecodeRead_def readLine_no_panic)
qed

theorem ele_request_crash_iff_witness:
  "\<exists>p. HandleRequest (\<lambda>e. []) (obind (ele_DecodeRead
       \<lparr>ele_aeskeyb = replicate 16 3, ele_aesivb = replicate 16 0, ele_aesblock = Some (replicate 16 3)\<rparr>
       \<lparr>rd_data = bytes_of_string (b64_encode [1, 2, 3]) @ [CR, LF], rd_err = io_EOF, rd_size = 4096\<rparr>)
       (\<lambda>(d, rd'). Ok d))
     (ele_Decode \<lparr>ConvertSApiToCode = (\<lambda>s. 0), ConvertAPIToCode = (\<lambda>n. n), QueryAppSecretKey = (\<lambda>s. s)\<rparr>)
     (\<lambda>api data. Ok ()) = RCrash p"
proof -
  let ?c = "\<lparr>ele_aeskeyb = replicate 16 3, ele_aesivb = replicate 16 0, ele_aesblock = Some (replicate 16 3)\<rparr>"
  let ?l = "bytes_of_string (b64_encode [1, 2, 3])"
  let ?rd = "\<lparr>rd_data = ?l @ [CR, LF], rd_err = io_EOF, rd_size = 4096\<rparr>"
  have "readLine ?rd = Ok (?l, Discard ?rd (length ?l + 2))"
    by (rule readLine_crlf [OF _ _ b64_line, where rest = "[]"]) (simp_all only: rd_ok_def reader.select_convs append_Nil2, simp)
  moreover have "b64_decode (string_of_bytes ?l) = Ok [1, 2, 3]"
    by (simp only: string_of_bytes_of_string b64_decode_encode)
  moreover have "length [1, 2, 3 :: byte] mod 16 \<noteq> 0" by simp
  ultimately have ex: "\<exists>line rd' raw. readLine ?rd = Ok (line, rd') \<and>
      b64_decode (string_of_bytes line) = Ok raw \<and> length raw mod 16 \<noteq> 0" by blast
  show ?thesis
    by (rule ele_request_crash_iff [THEN iffD2, OF _ _ _ ex]) simp_all
qed

text \<open>
  C5: End to end: a query with a \<open>data\<close> field in base64, encoded, written by the line cipher and
  received over any connection, reaches the handler with the decoded data and the code of its
  \<open>type\<close> field, and the connection is closed without a logged error.
\<close>

theorem ele_request_handled:
  assumes "ele_aesblock c = Some key" and "length (ele_aesivb c) = 16" and "rd_ok rd"
    and "iter_order v ks" and "\<forall>k xs. v k = Some xs \<longrightarrow> xs \<noteq> []"
    and "url_Get v ''data'' = b64_encode p" and "p \<noteq> []"
    and "handle (ConvertSApiToCode hdl (url_Get v ''type'')) p = Ok ()"
  shows "\<exists>out. ele_EncodeWrite c [] (bytes_of_string (url_Encode ks v)) = Ok out \<and>
    HandleRequest msg (obind (ele_DecodeRead c (rd\<lparr>rd_data := out @ rest\<rparr>)) (\<lambda>(d, rd'). Ok d))
      (ele_Decode hdl) handle = RClosed (Some (ConvertSApiToCode hdl (url_Get v ''type''), p)) []"
proof -
  let ?d = "bytes_of_string (url_Encode ks v)"
  let ?p = "?d @ replicate ((16 - length ?d mod 16) mod 16) 0"
  obtain out where out: "ele_EncodeWrite c [] ?d = Ok out"
    using ele_write_Ok [OF assms(1,2)] by blast
  have "?p \<noteq> []"
  proof
    assume "?p = []"
    then have "url_Encode ks v = []" by (simp flip: length_0_conv)
    then have "v = Map.empty" using ParseQuery_Encode [OF assms(4,5)] by (simp add: ParseQuery_def parse_part_def)
    then have "b64_encode p = []" using assms(6) by (simp add: url_Get_def)
    with assms(7) show False by simp
  qed
  then have "HandleRequest msg (obind (ele_DecodeRead c (rd\<lparr>rd_data := out @ rest\<rparr>)) (\<lambda>(d, rd'). Ok d))
      (ele_Decode hdl) handle = RClosed (Some (ConvertSApiToCode hdl (url_Get v ''type''), p)) []"
    using ele_write_read [OF assms(1-3) out] ele_Decode_request [OF assms(4-7)] assms(8)
    by (simp add: HandleRequest_def recover_request_def)
  with out show ?thesis by blast
qed

theorem ele_request_handled_witness:
  "\<exists>out. ele_EncodeWrite
      \<lparr>ele_aeskeyb = replicate 16 3, ele_aesivb = replicate 16 0, ele_aesblock = Some (replicate 16 3)\<rparr> []
      (bytes_of_string (url_Encode [''type'', ''data'']
        [''type'' \<mapsto> [''login''], ''data'' \<mapsto> [b64_encode [1, 2, 3]]])) = Ok out \<and>
    HandleRequest (\<lambda>e. []) (obind (ele_DecodeRead
      \<lparr>ele_aeskeyb = replicate 16 3, ele_aesivb = replicate 16 0, ele_aesblock = Some (replicate 16 3)\<rparr>
      \<lparr>rd_data = out @ [], rd_err = io_EOF, rd_size = 4096\<rparr>) (\<lambda>(d, rd'). Ok d))
      (ele_Decode \<lparr>ConvertSApiToCode = (\<lambda>s. int (length s)), ConvertAPIToCode = (\<lambda>n. n), QueryAppSecretKey = (\<lambda>s. s)\<rparr>)
      (\<lambda>api data. if api = 5 then Ok () else nil_panic) = RClosed (Some (5, [1, 2, 3])) []"
proof -
  let ?v = "[''type'' \<mapsto> [''login''], ''data'' \<mapsto> [b64_encode [1, 2, 3]]]"
  have "iter_order ?v [''type'', ''data'']" by (auto simp: iter_order_def)
  moreover have "\<forall>k xs. ?v k = Some xs \<longrightarrow> xs \<noteq> []" by simp
  moreover have "url_Get ?v ''data'' = b64_encode [1, 2, 3]" by (simp add: url_Get_def)
  moreover have "url_Get ?v ''type'' = ''login''" by (simp add: url_Get_def)
  ultimately show ?thesis
    using ele_request_handled [of
      "\<lparr>ele_aeskeyb = replicate 16 3, ele_aesivb = replicate 16 0, ele_aesblock = Some (replicate 16 3)\<rparr>"
      "replicate 16 3" "\<lparr>rd_data = [], rd_err = io_EOF, rd_size = 4096\<rparr>" ?v "[''type'', ''data'']" "[1, 2, 3]"
      "\<lambda>api data. if api = 5 then Ok () else nil_panic"
      "\<lparr>ConvertSApiToCode = (\<lambda>s. int (length s)), ConvertAPIToCode = (\<lambda>n. n), QueryAppSecretKey = (\<lambda>s. s)\<rparr>"
      "\<lambda>e. []" "[]"]
    by (simp add: rd_ok_def del: b64_encode.simps)
qed

end
