(* ===== verification/Std_Writer.thy ===== *)
theory Std_Writer
  imports Go_Prelude
begin

text \<open>
  \<^verbatim>\<open>bufio.Writer\<close> over an \<^verbatim>\<open>io.Writer\<close>. A writer is a function of its state \<open>'s\<close> and the bytes; the
  contract of \<^verbatim>\<open>io.Writer\<close> is the locale \<open>io_writer\<close>, over the bytes it has taken so far. The first
  error of the writer below is kept, and nothing is written after it.
\<close>

type_synonym 's write_fun = "'s \<Rightarrow> bytes \<Rightarrow> nat \<times> gerr option \<times> 's"

abbreviation ErrShortWrite :: gerr where
  "ErrShortWrite \<equiv> Sentinel ''short write''"

record bufw =
  bw_buf :: bytes
  bw_size :: nat
  bw_err :: "gerr option"

definition NewWriterSize :: "nat \<Rightarrow> bufw" where
  "NewWriterSize n = \<lparr>bw_buf = [], bw_size = n, bw_err = None\<rparr>"

text \<open>\<open>Reset\<close> drops the contents and the error, and keeps the buffer.\<close>

definition bw_Reset :: "bufw \<Rightarrow> bufw" where
  "bw_Reset b = b\<lparr>bw_buf := [], bw_err := None\<rparr>"

definition bw_Flush :: "'s write_fun \<Rightarrow> bufw \<Rightarrow> 's \<Rightarrow> gerr option \<times> bufw \<times> 's" where
  "bw_Flush wr b s =
     (if bw_err b \<noteq> None then (bw_err b, b, s)
      else if bw_buf b = [] then (None, b, s)
      else (case wr s (bw_buf b) of (n, err, s) \<Rightarrow>
        let err = (if n < length (bw_buf b) \<and> err = None then Some ErrShortWrite else err) in
        if err \<noteq> None then (err, b\<lparr>bw_buf := drop n (bw_buf b), bw_err := err\<rparr>, s)
        else (None, b\<lparr>bw_buf := []\<rparr>, s)))"

text \<open>The number of bytes taken, the error, and the new states.\<close>

partial_function (option) bw_Write :: "'s write_fun \<Rightarrow> bufw \<Rightarrow> 's \<Rightarrow> bytes \<Rightarrow> nat
    \<Rightarrow> (nat \<times> gerr option \<times> bufw \<times> 's) option" where
  "bw_Write wr b s p nn =
     (if bw_size b - length (bw_buf b) < length p \<and> bw_err b = None
      then (if bw_buf b = []
            then (case wr s p of (n, err, s) \<Rightarrow> bw_Write wr (b\<lparr>bw_err := err\<rparr>) s (drop n p) (nn + n))
            else (let n = bw_size b - length (bw_buf b) in
                  case bw_Flush wr (b\<lparr>bw_buf := bw_buf b @ take n p\<rparr>) s of (err, b, s) \<Rightarrow>
                    bw_Write wr b s (drop n p) (nn + n)))
      else if bw_err b \<noteq> None then Some (nn, bw_err b, b, s)
      else Some (nn + length p, None, b\<lparr>bw_buf := bw_buf b @ p\<rparr>, s))"

text \<open>\<open>WriteString\<close>, which never passes the buffer by.\<close>

partial_function (option) bw_WriteString :: "'s write_fun \<Rightarrow> bufw \<Rightarrow> 's \<Rightarrow> bytes \<Rightarrow> nat
    \<Rightarrow> (nat \<times> gerr option \<times> bufw \<times> 's) option" where
  "bw_WriteString wr b s p nn =
     (if bw_size b - length (bw_buf b) < length p \<and> bw_err b = None
      then (let n = bw_size b - length (bw_buf b) in
            case bw_Flush wr (b\<lparr>bw_buf := bw_buf b @ take n p\<rparr>) s of (err, b, s) \<Rightarrow>
              bw_WriteString wr b s (drop n p) (nn + n))
      else if bw_err b \<noteq> None then Some (nn, bw_err b, b, s)
      else Some (nn + length p, None, b\<lparr>bw_buf := bw_buf b @ p\<rparr>, s))"

definition bw_ok :: "bufw \<Rightarrow> bool" where
  "bw_ok b \<longleftrightarrow> 0 < bw_size b \<and> length (bw_buf b) \<le> bw_size b"

locale io_writer =
  fixes wr :: "'s write_fun" and sent :: "'s \<Rightarrow> bytes"
  assumes takes: "wr s p = (n, err, s') \<Longrightarrow> n \<le> length p \<and> sent s' = sent s @ take n p"
    and takes_all: "wr s p = (n, None, s') \<Longrightarrow> n = length p"
begin

lemma flush_spec:
  assumes "bw_Flush wr b s = (e, b', s')" and "bw_ok b"
  shows "sent s' @ bw_buf b' = sent s @ bw_buf b \<and> bw_ok b' \<and> bw_err b' = e \<and> (e = None \<longrightarrow> bw_buf b' = []) \<and>
    bw_size b' = bw_size b \<and> (bw_err b \<noteq> None \<longrightarrow> e = bw_err b)"
proof (cases "bw_err b \<noteq> None \<or> bw_buf b = []")
  case True
  with assms show ?thesis by (auto simp: bw_Flush_def split: if_splits)
next
  case False
  obtain n err t where w: "wr s (bw_buf b) = (n, err, t)" by (cases "wr s (bw_buf b)")
  show ?thesis using assms False w takes [OF w] takes_all
    by (auto simp: bw_Flush_def bw_ok_def Let_def split: if_splits)
qed

text \<open>What has been taken and what is buffered is all that was written; short writes come with an error.\<close>

definition wrote :: "bufw \<Rightarrow> 's \<Rightarrow> bytes \<Rightarrow> nat \<Rightarrow> (nat \<times> gerr option \<times> bufw \<times> 's) option \<Rightarrow> bool" where
  "wrote b s p nn r \<longleftrightarrow> (\<exists>n e b' s'. r = Some (nn + n, e, b', s') \<and> n \<le> length p \<and>
     sent s' @ bw_buf b' = sent s @ bw_buf b @ take n p \<and> bw_ok b' \<and> bw_err b' = e \<and> (e = None \<longrightarrow> n = length p))"

lemma write_ends:
  "bw_ok b \<Longrightarrow> bw_err b \<noteq> None \<or> length p \<le> bw_size b - length (bw_buf b) \<Longrightarrow> wrote b s p nn (bw_Write wr b s p nn)"
  unfolding bw_Write.simps [of wr b s p nn] wrote_def by (auto simp: bw_ok_def)

lemma wrote_more:
  assumes "wrote b' s' (drop m p) (nn + m) r" and "m \<le> length p" and "sent s' @ bw_buf b' = sent s @ bw_buf b @ take m p"
  shows "wrote b s p nn r"
proof -
  obtain n e b'' s'' where r: "r = Some (nn + m + n, e, b'', s'')" "n \<le> length (drop m p)"
      "sent s'' @ bw_buf b'' = sent s' @ bw_buf b' @ take n (drop m p)" "bw_ok b''" "bw_err b'' = e"
      "e = None \<longrightarrow> n = length (drop m p)"
    using assms(1) unfolding wrote_def by blast
  have "sent s'' @ bw_buf b'' = sent s @ bw_buf b @ take (m + n) p"
    using r(3) assms(3) by (simp add: take_add flip: append_assoc)
  with r assms(2) show ?thesis unfolding wrote_def
    by (intro exI [of _ "m + n"] exI [of _ e] exI [of _ b''] exI [of _ s'']) auto
qed

lemma write_empty:
  assumes "bw_ok b" and "bw_buf b = []"
  shows "wrote b s p nn (bw_Write wr b s p nn)"
proof (cases "bw_err b \<noteq> None \<or> length p \<le> bw_size b")
  case False
  obtain n err t where w: "wr s p = (n, err, t)" by (cases "wr s p")
  have "bw_Write wr b s p nn = bw_Write wr (b\<lparr>bw_err := err\<rparr>) t (drop n p) (nn + n)"
    using False assms(2) w by (subst bw_Write.simps) simp
  moreover have "wrote (b\<lparr>bw_err := err\<rparr>) t (drop n p) (nn + n) (bw_Write wr (b\<lparr>bw_err := err\<rparr>) t (drop n p) (nn + n))"
    by (rule write_ends; use assms w takes_all [of s p n t] in \<open>cases err; simp add: bw_ok_def\<close>)
  ultimately show ?thesis using wrote_more takes [OF w] assms(2) by simp
qed (use assms write_ends in simp)

lemma write_spec:
  assumes "bw_ok b"
  shows "wrote b s p nn (bw_Write wr b s p nn)"
proof (cases "bw_err b \<noteq> None \<or> length p \<le> bw_size b - length (bw_buf b) \<or> bw_buf b = []")
  case False
  let ?n = "bw_size b - length (bw_buf b)"
  let ?b = "b\<lparr>bw_buf := bw_buf b @ take ?n p\<rparr>"
  obtain e c t where f: "bw_Flush wr ?b s = (e, c, t)" by (cases "bw_Flush wr ?b s")
  have "bw_ok ?b" using assms False by (auto simp: bw_ok_def)
  note c = flush_spec [OF f this]
  have "bw_Write wr b s p nn = bw_Write wr c t (drop ?n p) (nn + ?n)"
    using False f by (subst bw_Write.simps) (simp add: Let_def)
  moreover have "wrote c t (drop ?n p) (nn + ?n) (bw_Write wr c t (drop ?n p) (nn + ?n))"
    using c by (cases "e = None") (auto intro: write_empty write_ends)
  ultimately show ?thesis using wrote_more [of c t ?n] c False by simp
qed (use assms write_ends write_empty in auto)

text \<open>The same for \<open>WriteString\<close>: its first flush empties the buffer, and each later one takes \<open>bw_size\<close> bytes.\<close>

lemma write_string_ends:
  "bw_ok b \<Longrightarrow> bw_err b \<noteq> None \<or> length p \<le> bw_size b - length (bw_buf b) \<Longrightarrow> wrote b s p nn (bw_WriteString wr b s p nn)"
  unfolding bw_WriteString.simps [of wr b s p nn] wrote_def by (auto simp: bw_ok_def)

lemma write_string_step:
  assumes "bw_ok b" and "bw_err b = None" and "n = bw_size b - length (bw_buf b)" and "n < length p"
    and step: "\<And>c t. bw_ok c \<Longrightarrow> bw_size c = bw_size b \<Longrightarrow> bw_err c \<noteq> None \<or> bw_buf c = [] \<Longrightarrow>
      wrote c t (drop n p) (nn + n) (bw_WriteString wr c t (drop n p) (nn + n))"
  shows "wrote b s p nn (bw_WriteString wr b s p nn)"
proof -
  let ?b = "b\<lparr>bw_buf := bw_buf b @ take n p\<rparr>"
  obtain e c t where f: "bw_Flush wr ?b s = (e, c, t)" by (cases "bw_Flush wr ?b s")
  have "bw_ok ?b" using assms(1,3,4) by (auto simp: bw_ok_def)
  note c = flush_spec [OF f this]
  have "bw_WriteString wr b s p nn = bw_WriteString wr c t (drop n p) (nn + n)"
    using assms(2,3,4) f by (subst bw_WriteString.simps) (simp add: Let_def)
  moreover have "wrote c t (drop n p) (nn + n) (bw_WriteString wr c t (drop n p) (nn + n))"
    by (rule step) (use c in \<open>cases e; auto\<close>)+
  ultimately show ?thesis using wrote_more [of c t n] c assms(4) by simp
qed

lemma write_string_empty:
  assumes "bw_ok b" and "bw_err b \<noteq> None \<or> bw_buf b = []"
  shows "wrote b s p nn (bw_WriteString wr b s p nn)"
  using assms
proof (induction "length p" arbitrary: b s p nn rule: less_induct)
  case less
  show ?case
  proof (cases "bw_err b \<noteq> None \<or> length p \<le> bw_size b")
    case True
    with less.prems show ?thesis by (intro write_string_ends) auto
  next
    case False
    with less.prems have e: "bw_err b = None" "bw_buf b = []" "bw_size b < length p" "0 < bw_size b"
      by (auto simp: bw_ok_def)
    show ?thesis
    proof (rule write_string_step [OF less.prems(1) e(1)])
      show "wrote c t (drop (bw_size b) p) (nn + bw_size b) (bw_WriteString wr c t (drop (bw_size b) p) (nn + bw_size b))"
        if "bw_ok c" and "bw_err c \<noteq> None \<or> bw_buf c = []" for c t
        by (rule less.hyps) (use that e in auto)
    qed (use e in auto)
  qed
qed

lemma write_string_spec:
  assumes "bw_ok b"
  shows "wrote b s p nn (bw_WriteString wr b s p nn)"
proof (cases "bw_err b \<noteq> None \<or> length p \<le> bw_size b - length (bw_buf b)")
  case False
  with assms show ?thesis by (intro write_string_step [OF assms _ refl]) (auto intro: write_string_empty)
qed (use assms write_string_ends in blast)

end

text \<open>A writer below that notes its failures: the buffered writer has an error exactly when it failed.\<close>

locale noting_writer = io_writer wr sent for wr :: "'s write_fun" and sent :: "'s \<Rightarrow> bytes" +
  fixes failed :: "'s \<Rightarrow> bool"
  assumes notes_failure: "wr s p = (n, err, s') \<Longrightarrow> failed s' \<longleftrightarrow> failed s \<or> err \<noteq> None"
begin

lemma flush_notes:
  assumes "bw_Flush wr b s = (e, b', s')" and "failed s \<longleftrightarrow> bw_err b \<noteq> None"
  shows "failed s' \<longleftrightarrow> bw_err b' \<noteq> None"
proof (cases "bw_err b \<noteq> None \<or> bw_buf b = []")
  case False
  obtain n err t where w: "wr s (bw_buf b) = (n, err, t)" by (cases "wr s (bw_buf b)")
  then show ?thesis using assms False notes_failure [OF w] takes_all [of s "bw_buf b" n t]
    by (auto simp: bw_Flush_def Let_def split: if_splits)
next
  case True
  then have "b' = b \<and> s' = s" using assms(1) by (auto simp: bw_Flush_def split: if_splits)
  with assms(2) show ?thesis by simp
qed

lemma ends_notes:
  assumes "bw_Write wr b s p nn = Some (n, e, b', s')" and "failed s \<longleftrightarrow> bw_err b \<noteq> None"
    and "bw_err b \<noteq> None \<or> length p \<le> bw_size b - length (bw_buf b)"
  shows "failed s' \<longleftrightarrow> bw_err b' \<noteq> None"
proof -
  have "s' = s \<and> bw_err b' = bw_err b"
    using assms(1,3) by (subst (asm) bw_Write.simps) (auto split: if_splits)
  with assms(2) show ?thesis by simp
qed

lemma empty_notes:
  assumes "bw_Write wr b s p nn = Some (n, e, b', s')" and "failed s \<longleftrightarrow> bw_err b \<noteq> None"
    and "bw_ok b" and "bw_buf b = []"
  shows "failed s' \<longleftrightarrow> bw_err b' \<noteq> None"
proof (cases "bw_err b \<noteq> None \<or> length p \<le> bw_size b")
  case False
  obtain m err t where w: "wr s p = (m, err, t)" by (cases "wr s p")
  have "bw_Write wr (b\<lparr>bw_err := err\<rparr>) t (drop m p) (nn + m) = Some (n, e, b', s')"
    using False assms(1,4) w by (subst (asm) bw_Write.simps) simp
  then show ?thesis
    by (rule ends_notes) (use False assms(2) notes_failure [OF w] takes_all [of s p m t] w in \<open>cases err; simp\<close>)+
qed (use assms ends_notes in auto)

lemma write_notes:
  assumes "bw_Write wr b s p nn = Some (n, e, b', s')" and "failed s \<longleftrightarrow> bw_err b \<noteq> None" and "bw_ok b"
  shows "failed s' \<longleftrightarrow> bw_err b' \<noteq> None"
proof (cases "bw_err b \<noteq> None \<or> length p \<le> bw_size b - length (bw_buf b) \<or> bw_buf b = []")
  case False
  let ?n = "bw_size b - length (bw_buf b)"
  let ?b = "b\<lparr>bw_buf := bw_buf b @ take ?n p\<rparr>"
  obtain e' c t where f: "bw_Flush wr ?b s = (e', c, t)" by (cases "bw_Flush wr ?b s")
  have "bw_ok ?b" using assms(3) False by (auto simp: bw_ok_def)
  note c = flush_spec [OF f this]
  have t: "failed t \<longleftrightarrow> bw_err c \<noteq> None" by (rule flush_notes [OF f]) (use assms(2) in simp)
  have w: "bw_Write wr c t (drop ?n p) (nn + ?n) = Some (n, e, b', s')"
    using False f assms(1) by (subst (asm) bw_Write.simps) (simp add: Let_def)
  show ?thesis
  proof (cases "e' = None")
    case True
    then show ?thesis using c by (intro empty_notes [OF w t]) simp_all
  next
    case False
    then show ?thesis using c by (intro ends_notes [OF w t]) simp
  qed
qed (use assms ends_notes empty_notes in blast)

lemma write_string_notes_aux:
  assumes "bw_WriteString w b s p nn = Some r"
  shows "w = wr \<longrightarrow> (failed s \<longleftrightarrow> bw_err b \<noteq> None) \<longrightarrow>
    (case r of (n, e, b', s') \<Rightarrow> failed s' \<longleftrightarrow> bw_err b' \<noteq> None)"
proof (induction rule: bw_WriteString.raw_induct [OF _ assms])
  case (1 rec w b s p nn r)
  let ?n = "bw_size b - length (bw_buf b)"
  let ?b = "b\<lparr>bw_buf := bw_buf b @ take ?n p\<rparr>"
  obtain e c t where f: "bw_Flush w ?b s = (e, c, t)" by (cases "bw_Flush w ?b s")
  show ?case
  proof (intro impI)
    assume w: "w = wr" and s: "failed s \<longleftrightarrow> bw_err b \<noteq> None"
    show "case r of (n, e, b', s') \<Rightarrow> failed s' \<longleftrightarrow> bw_err b' \<noteq> None"
    proof (cases "?n < length p \<and> bw_err b = None")
      case True
      then have "rec w c t (drop ?n p) (nn + ?n) = Some r" using 1(2) f by (simp add: Let_def)
      from 1(1) [OF this] w flush_notes [of ?b s e c t] f s show ?thesis by auto
    next
      case False
      then show ?thesis using 1(2) s by (auto split: if_splits)
    qed
  qed
qed

lemma write_string_notes:
  assumes "bw_WriteString wr b s p nn = Some (n, e, b', s')" and "failed s \<longleftrightarrow> bw_err b \<noteq> None"
  shows "failed s' \<longleftrightarrow> bw_err b' \<noteq> None"
  using write_string_notes_aux [OF assms(1)] assms(2) by simp

end

end
