(* ===== verification/Net_Peer.thy ===== *)
theory Net_Peer
  imports Net_Conn Std_Writer
begin

text \<open>
  The connection object of \<^verbatim>\<open>netserve/conn.go\<close>: the three kinds of raw connections, the buffered
  writer between a cipher and its peer, and the life of a connection from \<open>newConn\<close> to \<open>Close\<close>.
\<close>

subsection \<open>Raw connections\<close>

text \<open>
  A TCP connection has the stream its peer will send, with the error that ends it, and its
  time-outs; a datagram and the body of a request are complete. The flag is the debug mode of UDP.
\<close>

datatype raw_conn =
    TcpConn string "bytes \<times> gerr" int int
  | UdpConn string bytes bool
  | WebConn string bytes

fun raw_PeerAddr :: "raw_conn \<Rightarrow> string" where
  "raw_PeerAddr (TcpConn remote input rt wt) = remote"
| "raw_PeerAddr (UdpConn addr d debug) = addr"
| "raw_PeerAddr (WebConn remote d) = remote"

fun raw_input :: "raw_conn \<Rightarrow> bytes \<times> gerr" where
  "raw_input (TcpConn remote input rt wt) = input"
| "raw_input (UdpConn addr d debug) = (d, io_EOF)"
| "raw_input (WebConn remote d) = (d, io_EOF)"

text \<open>
  What a peer has received, the deadline set for writing, the pauses of the debug mode, the error the
  connection keeps, and what the system will answer to the next writes: all bytes taken, or an error
  after some of them. When the list is at its end, every write is taken. \<open>sk_packets\<close> are the writes taken
  whole; for UDP each of them is a datagram.
\<close>

record sink =
  sk_sent :: bytes
  sk_packets :: "bytes list"
  sk_answers :: "(nat \<times> gerr) option list"
  sk_deadline :: "int option"
  sk_slept :: int
  sk_werr :: "gerr option"

definition os_write :: "sink write_fun" where
  "os_write s p =
     (case sk_answers s of
        Some (n, e) # as \<Rightarrow>
          (min n (length p), Some e, s\<lparr>sk_sent := sk_sent s @ take n p, sk_answers := as\<rparr>)
      | as \<Rightarrow> (length p, None, s\<lparr>sk_sent := sk_sent s @ p, sk_packets := sk_packets s @ [p], sk_answers := tl as\<rparr>))"

text \<open>\<open>now\<close> is the clock, in seconds.\<close>

definition tcpconn_Write :: "int \<Rightarrow> int \<Rightarrow> sink write_fun" where
  "tcpconn_Write now writeTimeOut s p =
     os_write (if writeTimeOut \<noteq> 0 then s\<lparr>sk_deadline := Some (now + writeTimeOut)\<rparr> else s) p"

definition udpconn_Write :: "bool \<Rightarrow> sink write_fun" where
  "udpconn_Write debug s p = os_write (if debug then s\<lparr>sk_slept := sk_slept s + 2\<rparr> else s) p"

definition webconn_Write :: "sink write_fun" where
  "webconn_Write s p = os_write s p"

lemmas conn_Write_defs = tcpconn_Write_def udpconn_Write_def webconn_Write_def

fun raw_Write :: "int \<Rightarrow> raw_conn \<Rightarrow> sink write_fun" where
  "raw_Write now (TcpConn remote input rt wt) s p = tcpconn_Write now wt s p"
| "raw_Write now (UdpConn addr d debug) s p = udpconn_Write debug s p"
| "raw_Write now (WebConn remote d) s p = webconn_Write s p"

text \<open>\<open>close_err\<close> is what closing the socket returns; a datagram and a request need no closing.\<close>

fun raw_Close :: "gerr option \<Rightarrow> raw_conn \<Rightarrow> gerr option" where
  "raw_Close close_err (TcpConn remote input rt wt) = close_err"
| "raw_Close close_err (UdpConn addr d debug) = None"
| "raw_Close close_err (WebConn remote d) = None"

text \<open>The first write error of a connection is kept in \<open>werr\<close>.\<close>

definition checkConnErrorWriter_Write :: "int \<Rightarrow> raw_conn \<Rightarrow> sink write_fun" where
  "checkConnErrorWriter_Write now c s p =
     (case raw_Write now c s p of (n, err, s) \<Rightarrow>
        (n, err, if err \<noteq> None \<and> sk_werr s = None then s\<lparr>sk_werr := err\<rparr> else s))"

subsection \<open>Connections\<close>

text \<open>A connection has its own context (TCP) or shares the one at an address of the table (UDP).\<close>

datatype ctx_ref = OwnCtx NetContext | SharedCtx nat

text \<open>
  \<open>cn_buf\<close> is the writing half of \<open>buf\<close>, \<open>None\<close> when it is nil; \<open>cn_rd\<close> the reading half.
  \<open>cn_status\<close> are the status codes written to \<open>rsw\<close>.
\<close>

record conn =
  cn_c :: "raw_conn option"
  cn_buf :: "bufw option"
  cn_rd :: reader
  cn_rsw :: bool
  cn_readTimeOut :: int
  cn_writeTimeOut :: int
  cn_context :: ctx_ref
  cn_sink :: sink
  cn_status :: "int list"

definition noLimit :: int where "noLimit = 2 ^ 63 - 1"

definition LimitReader :: "bytes \<times> gerr \<Rightarrow> int \<Rightarrow> bytes \<times> gerr" where
  "LimitReader input n =
     (if int (length (fst input)) < n then input else (take (nat n) (fst input), io_EOF))"

definition newBufioReader :: "bytes \<times> gerr \<Rightarrow> reader" where
  "newBufioReader r = \<lparr>rd_data = fst r, rd_err = snd r, rd_size = 4096\<rparr>"

text \<open>\<open>pooled\<close> is what the pool of writers gives, if anything.\<close>

definition newBufioWriter :: "bufw option \<Rightarrow> nat \<Rightarrow> bufw" where
  "newBufioWriter pooled n = (case pooled of Some b \<Rightarrow> bw_Reset b | None \<Rightarrow> NewWriterSize n)"

definition putBufioWriter :: "bufw \<Rightarrow> bufw list \<Rightarrow> bufw list" where
  "putBufioWriter b pool = bw_Reset b # pool"

definition newConn :: "bufw option \<Rightarrow> (nat \<times> gerr) option list \<Rightarrow> udp_table \<Rightarrow> raw_conn \<Rightarrow> bool \<Rightarrow> conn \<times> udp_table" where
  "newConn pooled answers t netconn isTCP =
     (let (ctx, t) = (if isTCP then (OwnCtx (NewNetContext (raw_PeerAddr netconn)), t)
                      else (let (p, t) = GetUdpNetContext (raw_PeerAddr netconn) t in (SharedCtx p, t)))
      in (\<lparr>cn_c = Some netconn, cn_buf = Some (newBufioWriter pooled 4096),
           cn_rd = newBufioReader (LimitReader (raw_input netconn) noLimit),
           cn_rsw = (case netconn of WebConn remote d \<Rightarrow> True | _ \<Rightarrow> False),
           cn_readTimeOut = 0, cn_writeTimeOut = 0, cn_context = ctx,
           cn_sink = \<lparr>sk_sent = [], sk_packets = [], sk_answers = answers, sk_deadline = None, sk_slept = 0, sk_werr = None\<rparr>,
           cn_status = []\<rparr>, t))"

definition conn_PeerAddr :: "conn \<Rightarrow> string outcome" where
  "conn_PeerAddr cn = (case cn_c cn of None \<Rightarrow> nil_panic | Some c \<Rightarrow> Ok (raw_PeerAddr c))"

text \<open>The flush of a connection with a buffer and no raw connection would dereference nil; it does not occur.\<close>

definition finalFlush :: "int \<Rightarrow> bufw list \<Rightarrow> conn \<Rightarrow> bufw list \<times> conn" where
  "finalFlush now pool cn =
     (case (cn_buf cn, cn_c cn) of
        (Some b, Some c) \<Rightarrow>
          (case bw_Flush (checkConnErrorWriter_Write now c) b (cn_sink cn) of (e, b, s) \<Rightarrow>
             (putBufioWriter b pool, cn\<lparr>cn_buf := None, cn_sink := s\<rparr>))
      | _ \<Rightarrow> (pool, cn))"

definition conn_Close :: "int \<Rightarrow> gerr option \<Rightarrow> bufw list \<Rightarrow> conn \<Rightarrow> gerr option \<times> bufw list \<times> conn" where
  "conn_Close now close_err pool cn =
     (case finalFlush now pool cn of (pool, cn) \<Rightarrow>
       (case cn_c cn of
          None \<Rightarrow> (None, pool, cn)
        | Some c \<Rightarrow> (raw_Close close_err c, pool, cn\<lparr>cn_c := None\<rparr>)))"

text \<open>\<open>Read\<close>: the request, through the cipher of the group.\<close>

definition conn_Read :: "('prv, 'pub) rsa_lib \<Rightarrow> nat \<Rightarrow> bytes \<Rightarrow> 'prv trans_cipher \<Rightarrow> NetContext \<Rightarrow> conn
    \<Rightarrow> NetContext \<times> (bytes \<times> conn) outcome" where
  "conn_Read L avail spare c ctx cn =
     (case cipher_read L avail spare c ctx (cn_rd cn) of
        (ctx, r) \<Rightarrow> (ctx, obind r (\<lambda>(d, rd). Ok (d, cn\<lparr>cn_rd := rd\<rparr>))))"

text \<open>How a cipher hands its output to the buffered writer: \<open>szcipher\<close> with \<open>Write\<close>, the others with \<open>WriteString\<close>.\<close>

definition cipher_out :: "'prv trans_cipher \<Rightarrow> 's write_fun \<Rightarrow> bufw \<Rightarrow> 's \<Rightarrow> bytes
    \<Rightarrow> (nat \<times> gerr option \<times> bufw \<times> 's) option" where
  "cipher_out c wr b s out = (case c of Sz z \<Rightarrow> bw_Write wr b s out 0 | _ \<Rightarrow> bw_WriteString wr b s out 0)"

text \<open>
  \<open>Write\<close>, over the cipher of the group and the context. Whether the peer takes the bytes does not show
  in the result. The outer \<open>None\<close> is a call that never returns.
\<close>

definition conn_Write :: "('prv, 'pub) rsa_lib \<Rightarrow> 64 word \<Rightarrow> int \<Rightarrow> 'prv trans_cipher \<Rightarrow> NetContext \<Rightarrow> conn \<Rightarrow> bytes
    \<Rightarrow> ('prv trans_cipher \<times> NetContext \<times> conn \<times> nat outcome) option" where
  "conn_Write L unix now c ctx cn data =
     (let cn = (if cn_rsw cn then cn\<lparr>cn_status := cn_status cn @ [200]\<rparr> else cn) in
      if length data > 0 then
        (case (cn_buf cn, cn_c cn) of
           (Some b, Some raw) \<Rightarrow>
             (case cipher_write L unix c ctx [] data of
                None \<Rightarrow> None
              | Some (c, ctx, Ok out) \<Rightarrow>
                  (case cipher_out c (checkConnErrorWriter_Write now raw) b (cn_sink cn) out of
                     None \<Rightarrow> None
                   | Some (n, e, b, s) \<Rightarrow>
                       Some (c, ctx, cn\<lparr>cn_buf := Some b, cn_sink := s\<rparr>, Ok (length data)))
              | Some (c, ctx, Err e) \<Rightarrow> Some (c, ctx, cn, Err e)
              | Some (c, ctx, Panic p) \<Rightarrow> Some (c, ctx, cn, Panic p))
         | _ \<Rightarrow> Some (c, ctx, cn, nil_panic))
      else Some (c, ctx, cn, Ok 0))"

subsection \<open>What a peer receives\<close>

lemma os_write_takes:
  "os_write s p = (n, e, s') \<Longrightarrow>
     n \<le> length p \<and> sk_sent s' = sk_sent s @ take n p \<and> (e = None \<longrightarrow> n = length p) \<and> sk_werr s' = sk_werr s"
  by (auto simp: os_write_def min_def split: list.splits option.splits prod.splits if_splits)

lemma raw_Write_takes:
  "raw_Write now c s p = (n, e, s') \<Longrightarrow>
     n \<le> length p \<and> sk_sent s' = sk_sent s @ take n p \<and> (e = None \<longrightarrow> n = length p) \<and> sk_werr s' = sk_werr s"
  by (cases c) (auto simp: conn_Write_defs dest!: os_write_takes split: if_splits)

interpretation peer: noting_writer "checkConnErrorWriter_Write now c" sk_sent "\<lambda>s. sk_werr s \<noteq> None" for now c
proof unfold_locales
  fix s p n err s'
  assume "checkConnErrorWriter_Write now c s p = (n, err, s')"
  then show "n \<le> length p \<and> sk_sent s' = sk_sent s @ take n p"
    and "(sk_werr s' \<noteq> None) \<longleftrightarrow> sk_werr s \<noteq> None \<or> err \<noteq> None"
    by (auto simp: checkConnErrorWriter_Write_def dest!: raw_Write_takes split: prod.splits if_splits)
next
  fix s p n s'
  assume "checkConnErrorWriter_Write now c s p = (n, None, s')"
  then show "n = length p"
    by (auto simp: checkConnErrorWriter_Write_def dest!: raw_Write_takes split: prod.splits if_splits)
qed

lemma cipher_out_wrote:
  "bw_ok b \<Longrightarrow> peer.wrote b s p 0 (cipher_out c (checkConnErrorWriter_Write now raw) b s p)"
  unfolding cipher_out_def by (cases c) (simp_all add: peer.write_spec peer.write_string_spec)

lemma cipher_out_notes:
  assumes "cipher_out c (checkConnErrorWriter_Write now raw) b s p = Some (n, e, b', s')"
    and "sk_werr s \<noteq> None \<longleftrightarrow> bw_err b \<noteq> None" and "bw_ok b"
  shows "sk_werr s' \<noteq> None \<longleftrightarrow> bw_err b' \<noteq> None"
  using assms peer.write_notes [OF _ assms(2,3)] peer.write_string_notes [OF _ assms(2)]
  by (cases c) (simp_all add: cipher_out_def)

lemma cipher_out_kept:
  "cipher_out c wr b s p = Some (n, e, b', s') \<Longrightarrow> bw_err b \<noteq> None \<Longrightarrow> b' = b \<and> s' = s"
  by (cases c) (simp_all add: cipher_out_def bw_Write.simps [of wr b] bw_WriteString.simps [of wr b])

text \<open>A handler that writes several times, and the same writes through the cipher alone.\<close>

fun conn_session :: "('prv, 'pub) rsa_lib \<Rightarrow> 'prv trans_cipher \<Rightarrow> NetContext \<Rightarrow> conn \<Rightarrow> (64 word \<times> int \<times> bytes) list
    \<Rightarrow> ('prv trans_cipher \<times> NetContext \<times> conn \<times> unit outcome) option" where
  "conn_session L c ctx cn [] = Some (c, ctx, cn, Ok ())"
| "conn_session L c ctx cn ((unix, now, data) # ws) =
     (case conn_Write L unix now c ctx cn data of
        None \<Rightarrow> None
      | Some (c, ctx, cn, Ok n) \<Rightarrow> conn_session L c ctx cn ws
      | Some (c, ctx, cn, Err e) \<Rightarrow> Some (c, ctx, cn, Err e)
      | Some (c, ctx, cn, Panic p) \<Rightarrow> Some (c, ctx, cn, Panic p))"

fun cipher_session :: "('prv, 'pub) rsa_lib \<Rightarrow> 'prv trans_cipher \<Rightarrow> NetContext \<Rightarrow> (64 word \<times> int \<times> bytes) list
    \<Rightarrow> ('prv trans_cipher \<times> NetContext \<times> bytes outcome) option" where
  "cipher_session L c ctx [] = Some (c, ctx, Ok [])"
| "cipher_session L c ctx ((unix, now, data) # ws) =
     (if data = [] then cipher_session L c ctx ws
      else case cipher_write L unix c ctx [] data of
        Some (c, ctx, Ok out) \<Rightarrow>
          (case cipher_session L c ctx ws of
             Some (c, ctx, r) \<Rightarrow> Some (c, ctx, obind r (\<lambda>rest. Ok (out @ rest)))
           | None \<Rightarrow> None)
      | r \<Rightarrow> r)"

definition conn_inv :: "bytes \<Rightarrow> conn \<Rightarrow> bool" where
  "conn_inv out cn \<longleftrightarrow> (\<exists>raw b. cn_c cn = Some raw \<and> cn_buf cn = Some b \<and> bw_ok b \<and>
     (sk_werr (cn_sink cn) \<noteq> None \<longleftrightarrow> bw_err b \<noteq> None) \<and>
     (\<exists>k. sk_sent (cn_sink cn) @ bw_buf b = take k out) \<and>
     (bw_err b = None \<longrightarrow> sk_sent (cn_sink cn) @ bw_buf b = out))"

lemma conn_invE:
  assumes "conn_inv out cn"
  obtains raw b k where "cn_c cn = Some raw" "cn_buf cn = Some b" "bw_ok b"
    "sk_werr (cn_sink cn) \<noteq> None \<longleftrightarrow> bw_err b \<noteq> None" "bw_err b = None \<longrightarrow> sk_sent (cn_sink cn) @ bw_buf b = out"
    "sk_sent (cn_sink cn) @ bw_buf b = take k out"
  using assms unfolding conn_inv_def by (elim exE conjE) (rule that, assumption+)

lemma newConn_inv:
  assumes "\<forall>b. pooled = Some b \<longrightarrow> 0 < bw_size b"
  shows "conn_inv [] (fst (newConn pooled answers t raw isTCP))"
  using assms by (auto simp: conn_inv_def newConn_def newBufioWriter_def NewWriterSize_def bw_Reset_def bw_ok_def Let_def
    split: option.splits prod.splits)

lemma conn_Write_inv:
  assumes inv: "conn_inv out cn" and w: "cipher_write L unix c ctx [] data = Some (c', ctx', Ok extra)" and "data \<noteq> []"
  shows "\<exists>cn'. conn_Write L unix now c ctx cn data = Some (c', ctx', cn', Ok (length data)) \<and> conn_inv (out @ extra) cn'"
proof -
  from inv obtain raw b k where cn: "cn_c cn = Some raw" "cn_buf cn = Some b" "bw_ok b"
      "sk_werr (cn_sink cn) \<noteq> None \<longleftrightarrow> bw_err b \<noteq> None" "bw_err b = None \<longrightarrow> sk_sent (cn_sink cn) @ bw_buf b = out"
    and k: "sk_sent (cn_sink cn) @ bw_buf b = take k out"
    by (rule conn_invE)
  let ?w = "checkConnErrorWriter_Write now raw"
  obtain n e b' s' where bw: "cipher_out c' ?w b (cn_sink cn) extra = Some (n, e, b', s')"
      "sk_sent s' @ bw_buf b' = sk_sent (cn_sink cn) @ bw_buf b @ take n extra" "bw_ok b'" "bw_err b' = e"
      "e = None \<longrightarrow> n = length extra"
    using cipher_out_wrote [OF cn(3), where now = now and raw = raw and s = "cn_sink cn" and p = extra and c = c'] unfolding peer.wrote_def by auto
  have werr: "sk_werr s' \<noteq> None \<longleftrightarrow> bw_err b' \<noteq> None" by (rule cipher_out_notes [OF bw(1) cn(4,3)])
  have kept: "b' = b \<and> s' = cn_sink cn" if "bw_err b \<noteq> None"
    using cipher_out_kept [OF bw(1)] that by simp
  have prefix: "\<exists>k. sk_sent s' @ bw_buf b' = take k (out @ extra)"
  proof (cases "bw_err b = None")
    case True
    with cn(5) bw(2) have "sk_sent s' @ bw_buf b' = take (length out + n) (out @ extra)" by simp
    then show ?thesis by blast
  next
    case False
    have "sk_sent s' @ bw_buf b' = take (min k (length out)) (out @ extra)"
      using kept [OF False] k by (simp add: min_def)
    then show ?thesis by blast
  qed
  have all: "sk_sent s' @ bw_buf b' = out @ extra" if "bw_err b' = None"
    using that kept bw cn(5) by (cases "bw_err b = None") auto
  show ?thesis using cn bw werr prefix all w \<open>data \<noteq> []\<close>
    by (simp add: conn_Write_def conn_inv_def Let_def)
qed

lemma conn_session_inv:
  assumes "conn_inv out cn" and "cipher_session L c ctx ws = Some (c', ctx', Ok extra)"
  shows "\<exists>cn'. conn_session L c ctx cn ws = Some (c', ctx', cn', Ok ()) \<and> conn_inv (out @ extra) cn'"
  using assms
proof (induction ws arbitrary: c ctx cn out extra)
  case (Cons w ws)
  obtain unix now data where w: "w = (unix, now, data)" by (cases w)
  show ?case
  proof (cases "data = []")
    case True
    let ?cn = "if cn_rsw cn then cn\<lparr>cn_status := cn_status cn @ [200]\<rparr> else cn"
    have "conn_inv out ?cn" using Cons.prems(1) by (simp add: conn_inv_def)
    from Cons.IH [OF this, of c ctx extra] Cons.prems(2) True w show ?thesis
      by (simp add: conn_Write_def Let_def)
  next
    case False
    with Cons.prems(2) w obtain c1 ctx1 o1 o2 where
      1: "cipher_write L unix c ctx [] data = Some (c1, ctx1, Ok o1)" and
      2: "cipher_session L c1 ctx1 ws = Some (c', ctx', Ok o2)" and extra: "extra = o1 @ o2"
      by (auto simp: obind_eq_Ok split: option.splits outcome.splits)
    from conn_Write_inv [OF Cons.prems(1) 1 False] obtain cn1 where
      "conn_Write L unix now c ctx cn data = Some (c1, ctx1, cn1, Ok (length data))" and "conn_inv (out @ o1) cn1"
      by blast
    with Cons.IH [OF this(2) 2] w extra show ?thesis by simp
  qed
qed simp

lemma conn_Close_inv:
  assumes "conn_inv out cn" and "conn_Close now close_err pool cn = (e, pool', cn')"
  shows "(\<exists>k. sk_sent (cn_sink cn') = take k out) \<and> (sk_werr (cn_sink cn') = None \<longrightarrow> sk_sent (cn_sink cn') = out) \<and>
    cn_c cn' = None \<and> cn_buf cn' = None"
proof -
  from assms(1) obtain raw b k where cn: "cn_c cn = Some raw" "cn_buf cn = Some b" "bw_ok b"
      "sk_werr (cn_sink cn) \<noteq> None \<longleftrightarrow> bw_err b \<noteq> None" "bw_err b = None \<longrightarrow> sk_sent (cn_sink cn) @ bw_buf b = out"
      "sk_sent (cn_sink cn) @ bw_buf b = take k out"
    by (rule conn_invE)
  obtain e' b' s' where f: "bw_Flush (checkConnErrorWriter_Write now raw) b (cn_sink cn) = (e', b', s')"
    by (cases "bw_Flush (checkConnErrorWriter_Write now raw) b (cn_sink cn)")
  have cn': "cn' = cn\<lparr>cn_buf := None, cn_sink := s', cn_c := None\<rparr>"
    using assms(2) cn(1,2) f by (auto simp: conn_Close_def finalFlush_def)
  note spec = peer.flush_spec [OF f cn(3)]
  have werr: "sk_werr s' \<noteq> None \<longleftrightarrow> bw_err b' \<noteq> None" by (rule peer.flush_notes [OF f cn(4)])
  have "take (length (sk_sent s')) out = sk_sent s'"
  proof -
    have "sk_sent s' @ bw_buf b' = take k out" using spec cn(6) by simp
    then show ?thesis by (metis append_eq_conv_conj append_take_drop_id append_assoc)
  qed
  moreover have "sk_sent s' = out" if "sk_werr s' = None"
    using that spec werr cn(5) by (metis append_Nil2 option.distinct(1))
  ultimately show ?thesis unfolding cn' by simp metis
qed

subsection \<open>Datagrams\<close>

text \<open>How a text of a writer that never passes its buffer of \<open>n\<close> bytes by is cut.\<close>

fun pieces :: "nat \<Rightarrow> bytes \<Rightarrow> bytes list" where
  "pieces n xs = (if n = 0 \<or> length xs \<le> n then [xs] else take n xs # pieces n (drop n xs))"

declare pieces.simps [simp del]

lemma last_piece:
  "xs \<noteq> [] \<Longrightarrow> last (pieces n xs) \<noteq> []"
proof (induction n xs rule: pieces.induct)
  case (1 n xs)
  have "pieces n (drop n xs) \<noteq> []" by (simp add: pieces.simps [of n "drop n xs"])
  with 1 show ?case by (subst pieces.simps) auto
qed

lemma concat_pieces:
  "concat (pieces n xs) = xs \<and> (\<forall>p \<in> set (pieces n xs). 0 < n \<longrightarrow> length p \<le> n)"
proof (induction n xs rule: pieces.induct)
  case (1 n xs)
  then show ?case by (subst (1 2) pieces.simps) auto
qed

text \<open>A connection whose writes have all been taken so far: those in full, and what is still in the buffer.\<close>

definition calm :: "bytes list \<Rightarrow> bytes \<Rightarrow> conn \<Rightarrow> bool" where
  "calm sent kept cn \<longleftrightarrow> (\<exists>raw. cn_c cn = Some raw) \<and> cn_buf cn = Some \<lparr>bw_buf = kept, bw_size = 4096, bw_err = None\<rparr> \<and>
     sk_packets (cn_sink cn) = sent \<and> sk_answers (cn_sink cn) = []"

lemma newConn_calm:
  assumes "\<forall>b. pooled = Some b \<longrightarrow> bw_size b = 4096"
  shows "calm [] [] (fst (newConn pooled [] t raw isTCP))"
  using assms by (auto simp: calm_def newConn_def newBufioWriter_def NewWriterSize_def bw_Reset_def split: option.splits prod.splits)

lemma raw_Write_takes_all:
  "sk_answers s = [] \<Longrightarrow> \<exists>s'. raw_Write now raw s p = (length p, None, s') \<and>
     sk_packets s' = sk_packets s @ [p] \<and> sk_answers s' = []"
  by (cases raw) (simp_all add: conn_Write_defs os_write_def)

lemma peer_takes_all:
  assumes "sk_answers s = []"
  obtains s' where "checkConnErrorWriter_Write now raw s p = (length p, None, s')"
    "sk_packets s' = sk_packets s @ [p]" "sk_answers s' = []"
  using raw_Write_takes_all [OF assms, of now raw p] that by (auto simp: checkConnErrorWriter_Write_def)

lemma peer_flushes:
  assumes "sk_answers s = []" and "xs \<noteq> []"
  obtains s' where "bw_Flush (checkConnErrorWriter_Write now raw) \<lparr>bw_buf = xs, bw_size = n, bw_err = None\<rparr> s =
      (None, \<lparr>bw_buf = [], bw_size = n, bw_err = None\<rparr>, s')"
    "sk_packets s' = sk_packets s @ [xs]" "sk_answers s' = []"
  by (rule peer_takes_all [OF assms(1), of now raw xs]) (use assms(2) in \<open>auto simp: bw_Flush_def\<close>)

text \<open>What fits is only put into the buffer.\<close>

lemma cipher_out_fits:
  assumes "length xs + length p \<le> n"
  shows "cipher_out c wr \<lparr>bw_buf = xs, bw_size = n, bw_err = None\<rparr> s p =
    Some (length p, None, \<lparr>bw_buf = xs @ p, bw_size = n, bw_err = None\<rparr>, s)"
proof -
  let ?b = "\<lparr>bw_buf = xs, bw_size = n, bw_err = None\<rparr>"
  have "\<not> n - length xs < length p" using assms by linarith
  then show ?thesis
    by (cases c) (simp_all add: cipher_out_def bw_Write.simps [of wr ?b] bw_WriteString.simps [of wr ?b])
qed

lemma write_string_pieces:
  assumes "sk_answers s = []" and "0 < n"
  shows "\<exists>s'. bw_WriteString (checkConnErrorWriter_Write now raw) \<lparr>bw_buf = [], bw_size = n, bw_err = None\<rparr> s p nn =
      Some (nn + length p, None, \<lparr>bw_buf = last (pieces n p), bw_size = n, bw_err = None\<rparr>, s') \<and>
    sk_packets s' = sk_packets s @ butlast (pieces n p) \<and> sk_answers s' = []"
  using assms(1)
proof (induction "length p" arbitrary: p s nn rule: less_induct)
  case less
  let ?b = "\<lparr>bw_buf = [], bw_size = n, bw_err = None\<rparr>"
  show ?case
  proof (cases "length p \<le> n")
    case True
    with less.prems show ?thesis by (subst bw_WriteString.simps) (simp add: pieces.simps [of n p])
  next
    case False
    have "take n p \<noteq> []" using False assms(2) by auto
    from peer_flushes [OF less.prems this, of now raw n] obtain t where
      t: "bw_Flush (checkConnErrorWriter_Write now raw) \<lparr>bw_buf = take n p, bw_size = n, bw_err = None\<rparr> s = (None, ?b, t)"
        "sk_packets t = sk_packets s @ [take n p]" "sk_answers t = []" by blast
    have "pieces n (drop n p) \<noteq> []" by (simp add: pieces.simps [of n "drop n p"])
    moreover have "pieces n p = take n p # pieces n (drop n p)" using False assms(2) by (simp add: pieces.simps [of n p])
    moreover have "bw_WriteString (checkConnErrorWriter_Write now raw) ?b s p nn =
        bw_WriteString (checkConnErrorWriter_Write now raw) ?b t (drop n p) (nn + n)"
      using False t(1) by (subst bw_WriteString.simps) (simp add: Let_def)
    ultimately show ?thesis using less.hyps [of "drop n p" t "nn + n"] t(2,3) False assms(2) by auto
  qed
qed

lemma write_big:
  assumes "sk_answers s = []" and "n < length p"
  shows "\<exists>s'. bw_Write (checkConnErrorWriter_Write now raw) \<lparr>bw_buf = [], bw_size = n, bw_err = None\<rparr> s p nn =
      Some (nn + length p, None, \<lparr>bw_buf = [], bw_size = n, bw_err = None\<rparr>, s') \<and>
    sk_packets s' = sk_packets s @ [p] \<and> sk_answers s' = []"
proof -
  obtain t where t: "checkConnErrorWriter_Write now raw s p = (length p, None, t)"
      "sk_packets t = sk_packets s @ [p]" "sk_answers t = []"
    by (rule peer_takes_all [OF assms(1)])
  let ?w = "checkConnErrorWriter_Write now raw"
  have "bw_Write ?w \<lparr>bw_buf = [], bw_size = n, bw_err = None\<rparr> s p nn =
      bw_Write ?w \<lparr>bw_buf = [], bw_size = n, bw_err = None\<rparr> t [] (nn + length p)"
    using assms(2) t(1) by (subst bw_Write.simps) simp
  also have "\<dots> = Some (nn + length p, None, \<lparr>bw_buf = [], bw_size = n, bw_err = None\<rparr>, t)"
    by (subst bw_Write.simps) simp
  finally show ?thesis using t(2,3) by blast
qed

lemma conn_Close_calm:
  assumes "calm sent kept cn"
  shows "sk_packets (cn_sink (snd (snd (conn_Close now ce pool cn)))) = sent @ (if kept = [] then [] else [kept])"
proof -
  obtain raw where cn: "cn_c cn = Some raw" "cn_buf cn = Some \<lparr>bw_buf = kept, bw_size = 4096, bw_err = None\<rparr>"
      "sk_packets (cn_sink cn) = sent" "sk_answers (cn_sink cn) = []"
    using assms by (auto simp: calm_def)
  show ?thesis
  proof (cases "kept = []")
    case True
    with cn show ?thesis by (simp add: conn_Close_def finalFlush_def bw_Flush_def)
  next
    case False
    show ?thesis by (rule peer_flushes [OF cn(4) False, of now raw 4096]) (use cn False in \<open>auto simp: conn_Close_def finalFlush_def\<close>)
  qed
qed

lemma conn_session_fits:
  assumes "calm [] kept cn" and "cipher_session L c ctx ws = Some (c', ctx', Ok out)" and "length kept + length out \<le> 4096"
  shows "\<exists>cn'. conn_session L c ctx cn ws = Some (c', ctx', cn', Ok ()) \<and> calm [] (kept @ out) cn'"
  using assms
proof (induction ws arbitrary: c ctx cn kept out)
  case (Cons w ws)
  obtain unix now data where w: "w = (unix, now, data)" by (cases w)
  let ?cn = "if cn_rsw cn then cn\<lparr>cn_status := cn_status cn @ [200]\<rparr> else cn"
  have calm: "calm [] kept ?cn" using Cons.prems(1) by (simp add: calm_def)
  show ?case
  proof (cases "data = []")
    case True
    with Cons.IH [OF calm, of c ctx out] Cons.prems(2,3) w show ?thesis by (simp add: conn_Write_def Let_def)
  next
    case False
    with Cons.prems(2) w obtain c1 ctx1 o1 o2 where
      1: "cipher_write L unix c ctx [] data = Some (c1, ctx1, Ok o1)" and
      2: "cipher_session L c1 ctx1 ws = Some (c', ctx', Ok o2)" and out: "out = o1 @ o2"
      by (auto simp: obind_eq_Ok split: option.splits outcome.splits)
    from calm obtain raw where cn: "cn_c ?cn = Some raw" "cn_buf ?cn = Some \<lparr>bw_buf = kept, bw_size = 4096, bw_err = None\<rparr>"
      by (auto simp: calm_def)
    let ?cn1 = "?cn\<lparr>cn_buf := Some \<lparr>bw_buf = kept @ o1, bw_size = 4096, bw_err = None\<rparr>\<rparr>"
    have fits: "cipher_out c1 wr \<lparr>bw_buf = kept, bw_size = 4096, bw_err = None\<rparr> s o1 =
        Some (length o1, None, \<lparr>bw_buf = kept @ o1, bw_size = 4096, bw_err = None\<rparr>, s)" for wr and s :: sink
      by (rule cipher_out_fits) (use Cons.prems(3) out in simp)
    have "conn_Write L unix now c ctx cn data = Some (c1, ctx1, ?cn1, Ok (length data))"
      using 1 False cn fits by (cases "cn_rsw cn") (simp_all add: conn_Write_def Let_def)
    moreover have "calm [] (kept @ o1) ?cn1" using calm by (simp add: calm_def)
    ultimately show ?thesis using Cons.IH [OF _ 2, of "kept @ o1" ?cn1] Cons.prems(3) w out by simp
  qed
qed simp

subsection \<open>Properties\<close>

text \<open>
  C7: A connection refines its cipher: for any handler's writes, on any kind of raw connection, with a
  writer fresh or taken from the pool, the bytes the peer has when the connection is closed are
  what the cipher alone produces, all of them if no write error was kept, and otherwise a part of
  them from the beginning. No write is reported as failed to the handler, and the closed
  connection has given up its raw connection and its buffer.
\<close>

theorem conn_refines_cipher:
  assumes "\<forall>b. pooled = Some b \<longrightarrow> 0 < bw_size b"
    and "cipher_session L c ctx ws = Some (c', ctx', Ok out)"
  shows "\<exists>cn. conn_session L c ctx (fst (newConn pooled answers t raw isTCP)) ws = Some (c', ctx', cn, Ok ()) \<and>
    (case conn_Close now close_err pool cn of (e, pool', cn') \<Rightarrow>
       (\<exists>k. sk_sent (cn_sink cn') = take k out) \<and>
       (sk_werr (cn_sink cn') = None \<longrightarrow> sk_sent (cn_sink cn') = out) \<and>
       cn_c cn' = None \<and> cn_buf cn' = None)"
proof -
  from conn_session_inv [OF newConn_inv [OF assms(1), of answers t raw isTCP] assms(2)] obtain cn where
    "conn_session L c ctx (fst (newConn pooled answers t raw isTCP)) ws = Some (c', ctx', cn, Ok ())"
    and inv: "conn_inv out cn" by auto
  moreover obtain e pool' cn' where cl: "conn_Close now close_err pool cn = (e, pool', cn')"
    by (cases "conn_Close now close_err pool cn")
  ultimately show ?thesis using conn_Close_inv [OF inv cl] by auto
qed

text \<open>Two writes of a line cipher to a peer whose connection breaks after seven bytes.\<close>

theorem conn_refines_cipher_witness:
  "\<forall>L. \<exists>o1 o2 cn k.
    ele_EncodeWrite \<lparr>ele_aeskeyb = replicate 16 3, ele_aesivb = replicate 16 0, ele_aesblock = Some (replicate 16 3)\<rparr> [] [1, 2] = Ok o1 \<and>
    ele_EncodeWrite \<lparr>ele_aeskeyb = replicate 16 3, ele_aesivb = replicate 16 0, ele_aesblock = Some (replicate 16 3)\<rparr> [] [3] = Ok o2 \<and>
    conn_session L (Ele \<lparr>ele_aeskeyb = replicate 16 3, ele_aesivb = replicate 16 0, ele_aesblock = Some (replicate 16 3)\<rparr>)
      (NewNetContext []) (fst (newConn None [Some (7, io_EOF)] empty_udp_table (TcpConn [] ([], io_EOF) 0 30) True))
      [(0, 0, [1, 2]), (0, 0, [3])] =
    Some (Ele \<lparr>ele_aeskeyb = replicate 16 3, ele_aesivb = replicate 16 0, ele_aesblock = Some (replicate 16 3)\<rparr>,
      NewNetContext [], cn, Ok ()) \<and>
    sk_sent (cn_sink (snd (snd (conn_Close 0 None [] cn)))) = take k (o1 @ o2)"
proof
  fix L
  let ?e = "\<lparr>ele_aeskeyb = replicate 16 3, ele_aesivb = replicate 16 0, ele_aesblock = Some (replicate 16 3)\<rparr>"
  obtain o1 o2 where o: "ele_EncodeWrite ?e [] [1, 2] = Ok o1" "ele_EncodeWrite ?e [] [3] = Ok o2"
    using ele_write_Ok [of ?e "replicate 16 3"] by (metis eleCipher.select_convs(2,3) length_replicate)
  then have "cipher_session L (Ele ?e) (NewNetContext []) [(0, 0, [1, 2]), (0, 0, [3])] =
      Some (Ele ?e, NewNetContext [], Ok (o1 @ o2))"
    by (simp add: cipher_write_def)
  from conn_refines_cipher [OF _ this, of None "[Some (7, io_EOF)]" empty_udp_table "TcpConn [] ([], io_EOF) 0 30" True 0 None "[]"]
  obtain cn where "conn_session L (Ele ?e) (NewNetContext [])
      (fst (newConn None [Some (7, io_EOF)] empty_udp_table (TcpConn [] ([], io_EOF) 0 30) True))
      [(0, 0, [1, 2]), (0, 0, [3])] = Some (Ele ?e, NewNetContext [], cn, Ok ())"
    and "\<exists>k. sk_sent (cn_sink (snd (snd (conn_Close 0 None [] cn)))) = take k (o1 @ o2)"
    by (auto simp: case_prod_beta)
  with o show "\<exists>o1 o2 cn k. ele_EncodeWrite ?e [] [1, 2] = Ok o1 \<and> ele_EncodeWrite ?e [] [3] = Ok o2 \<and>
      conn_session L (Ele ?e) (NewNetContext []) (fst (newConn None [Some (7, io_EOF)] empty_udp_table (TcpConn [] ([], io_EOF) 0 30) True))
        [(0, 0, [1, 2]), (0, 0, [3])] = Some (Ele ?e, NewNetContext [], cn, Ok ()) \<and>
      sk_sent (cn_sink (snd (snd (conn_Close 0 None [] cn)))) = take k (o1 @ o2)"
    by blast
qed

text \<open>
  C8: One answer of a handler and the datagrams that carry it, when the system takes every write: with \<open>szcipher\<close>
  it is one datagram of any length; with the line ciphers, which use \<open>WriteString\<close>, it is cut into
  pieces of 4096 bytes, so that a longer answer reaches a UDP client as several messages. Several
  answers that fit into the buffer together are one datagram.
\<close>

theorem answer_datagrams:
  assumes "\<forall>b. pooled = Some b \<longrightarrow> bw_size b = 4096" and "out \<noteq> []"
    and "cipher_session L c ctx ws = Some (c', ctx', Ok out)"
    and "length ws = 1 \<or> length out \<le> 4096"
  shows "\<exists>cn. conn_session L c ctx (fst (newConn pooled [] t raw isTCP)) ws = Some (c', ctx', cn, Ok ()) \<and>
    sk_packets (cn_sink (snd (snd (conn_Close now ce pool cn)))) =
      (case c' of Sz s \<Rightarrow> [out] | _ \<Rightarrow> pieces 4096 out)"
proof (cases "length out \<le> 4096")
  case True
  then show ?thesis
    using conn_session_fits [OF newConn_calm [OF assms(1), of t raw isTCP] assms(3)] conn_Close_calm [of "[]" out] assms(2)
    by (auto simp: pieces.simps [of 4096 out] split: trans_cipher.splits)
next
  case False
  with assms(4) obtain unix clock data where w: "ws = [(unix, clock, data)]"
    by (cases ws) (auto simp: prod_eq_iff)
  then have 1: "cipher_write L unix c ctx [] data = Some (c', ctx', Ok out)" "data \<noteq> []"
    using assms(2,3) by (auto simp: obind_eq_Ok split: if_splits option.splits outcome.splits)
  let ?cn = "fst (newConn pooled [] t raw isTCP)"
  let ?cn1 = "if cn_rsw ?cn then ?cn\<lparr>cn_status := cn_status ?cn @ [200]\<rparr> else ?cn"
  have "calm [] [] ?cn1" using newConn_calm [OF assms(1), of t raw isTCP] by (simp add: calm_def)
  then obtain r where cn: "cn_c ?cn1 = Some r" "cn_buf ?cn1 = Some \<lparr>bw_buf = [], bw_size = 4096, bw_err = None\<rparr>"
      "sk_packets (cn_sink ?cn1) = []" "sk_answers (cn_sink ?cn1) = []"
    by (auto simp: calm_def)
  let ?kept = "case c' of Sz z \<Rightarrow> [] | _ \<Rightarrow> last (pieces 4096 out)"
  let ?sent = "case c' of Sz z \<Rightarrow> [out] | _ \<Rightarrow> butlast (pieces 4096 out)"
  obtain s' where s': "cipher_out c' (checkConnErrorWriter_Write clock r) \<lparr>bw_buf = [], bw_size = 4096, bw_err = None\<rparr>
        (cn_sink ?cn1) out = Some (length out, None, \<lparr>bw_buf = ?kept, bw_size = 4096, bw_err = None\<rparr>, s')"
      "sk_packets s' = ?sent" "sk_answers s' = []"
    using write_big [OF cn(4), of 4096 out clock r 0] write_string_pieces [OF cn(4), of 4096 clock r out 0] False cn(3)
    by (cases c') (auto simp: cipher_out_def)
  let ?cn2 = "?cn1\<lparr>cn_buf := Some \<lparr>bw_buf = ?kept, bw_size = 4096, bw_err = None\<rparr>, cn_sink := s'\<rparr>"
  have "conn_Write L unix clock c ctx ?cn data = Some (c', ctx', ?cn2, Ok (length data))"
    using 1 cn s'(1) by (simp add: conn_Write_def Let_def)
  then have run: "conn_session L c ctx ?cn ws = Some (c', ctx', ?cn2, Ok ())" using w by simp
  have "calm ?sent ?kept ?cn2" using cn(1) s' by (simp add: calm_def)
  note close = conn_Close_calm [OF this, of now ce pool]
  have "pieces 4096 out \<noteq> []" by (simp add: pieces.simps [of 4096 out])
  moreover have "last (pieces 4096 out) \<noteq> []" using last_piece [of out 4096] assms(2) by simp
  ultimately have "?sent @ (if ?kept = [] then [] else [?kept]) = (case c' of Sz s \<Rightarrow> [out] | _ \<Rightarrow> pieces 4096 out)"
    by (cases c') simp_all
  with run close show ?thesis by (intro exI [of _ ?cn2]) simp
qed

theorem answer_datagrams_witness:
  "\<forall>L. \<exists>out cn.
    ele_EncodeWrite \<lparr>ele_aeskeyb = replicate 16 3, ele_aesivb = replicate 16 0, ele_aesblock = Some (replicate 16 3)\<rparr> [] [1, 2] = Ok out \<and>
    conn_session L (Ele \<lparr>ele_aeskeyb = replicate 16 3, ele_aesivb = replicate 16 0, ele_aesblock = Some (replicate 16 3)\<rparr>)
      (NewNetContext []) (fst (newConn None [] empty_udp_table (UdpConn ''10.0.0.7:4711'' [] True) False)) [(0, 0, [1, 2])] =
    Some (Ele \<lparr>ele_aeskeyb = replicate 16 3, ele_aesivb = replicate 16 0, ele_aesblock = Some (replicate 16 3)\<rparr>,
      NewNetContext [], cn, Ok ()) \<and>
    sk_packets (cn_sink (snd (snd (conn_Close 0 None [] cn)))) = pieces 4096 out"
proof
  fix L
  let ?e = "\<lparr>ele_aeskeyb = replicate 16 3, ele_aesivb = replicate 16 0, ele_aesblock = Some (replicate 16 3)\<rparr>"
  obtain out where o: "ele_EncodeWrite ?e [] [1, 2] = Ok out"
    using ele_write_Ok [of ?e "replicate 16 3"] by (metis eleCipher.select_convs(2,3) length_replicate)
  then have ne: "out \<noteq> []" by (auto simp: ele_EncodeWrite_def obind_eq_Ok split: option.splits)
  from o have "cipher_session L (Ele ?e) (NewNetContext []) [(0, 0, [1, 2])] = Some (Ele ?e, NewNetContext [], Ok out)"
    by (simp add: cipher_write_def)
  from answer_datagrams [OF _ ne this, of None empty_udp_table "UdpConn ''10.0.0.7:4711'' [] True" False 0 None "[]"] o
  show "\<exists>out cn. ele_EncodeWrite ?e [] [1, 2] = Ok out \<and>
      conn_session L (Ele ?e) (NewNetContext []) (fst (newConn None [] empty_udp_table (UdpConn ''10.0.0.7:4711'' [] True) False))
        [(0, 0, [1, 2])] = Some (Ele ?e, NewNetContext [], cn, Ok ()) \<and>
      sk_packets (cn_sink (snd (snd (conn_Close 0 None [] cn)))) = pieces 4096 out"
    by auto
qed

end
