(* ===== verification/Net_Serve.thy ===== *)
theory Net_Serve
  imports Net_Peer
begin

text \<open>
  \<^verbatim>\<open>netserve/netserve.go\<close>, \<^verbatim>\<open>netserve/servegroup.go\<close> and the configuration of \<^verbatim>\<open>netserve/netdef.go\<close>: the
  listeners of a group, the connections they make, their accept loops, and the start of groups.
\<close>

subsection \<open>Configuration and connections\<close>

record NetServeConfig =
  nsc_Port :: "int list"
  nsc_NetType :: "string list"
  nsc_ListenIP :: "string list"
  nsc_Cipher :: "string list"
  nsc_CodeType :: string
  nsc_CipherID :: int
  nsc_LogVerbose :: bool
  nsc_ReadTimeOut :: int
  nsc_WriteTimeOut :: int
  nsc_Debug :: int
  nsc_HandlerName :: string

text \<open>\<open>logVerbose\<close> of the context a connection refers to.\<close>

definition set_verbose :: "bool \<Rightarrow> conn \<Rightarrow> udp_table \<Rightarrow> conn \<times> udp_table" where
  "set_verbose v c t =
     (case cn_context c of
        OwnCtx ctx \<Rightarrow> (c\<lparr>cn_context := OwnCtx (ctx\<lparr>nc_logVerbose := v\<rparr>)\<rparr>, t)
      | SharedCtx p \<Rightarrow>
          (c, t\<lparr>udp_heap := (udp_heap t)(p := map_option (\<lambda>ctx. ctx\<lparr>nc_logVerbose := v\<rparr>) (udp_heap t p))\<rparr>))"

text \<open>Times in seconds. Both time-outs are the one for reading.\<close>

definition newTcpConn :: "NetServeConfig \<Rightarrow> bufw option \<Rightarrow> (nat \<times> gerr) option list \<Rightarrow> udp_table \<Rightarrow> string \<Rightarrow> bytes \<times> gerr
    \<Rightarrow> conn \<times> udp_table" where
  "newTcpConn nsc pooled answers t remote input =
     (let rt = nsc_ReadTimeOut nsc; wt = nsc_ReadTimeOut nsc in
      case newConn pooled answers t (TcpConn remote input rt wt) True of (c, t) \<Rightarrow>
        set_verbose (nsc_LogVerbose nsc) (c\<lparr>cn_readTimeOut := rt, cn_writeTimeOut := wt\<rparr>) t)"

definition newUdpConn :: "NetServeConfig \<Rightarrow> bufw option \<Rightarrow> (nat \<times> gerr) option list \<Rightarrow> udp_table \<Rightarrow> bytes \<Rightarrow> string
    \<Rightarrow> conn \<times> udp_table" where
  "newUdpConn nsc pooled answers t data addr =
     (case newConn pooled answers t (UdpConn addr data (nsc_Debug nsc = 1)) False of (c, t) \<Rightarrow>
        set_verbose (nsc_LogVerbose nsc) (c\<lparr>cn_readTimeOut := nsc_ReadTimeOut nsc\<rparr>) t)"

subsection \<open>Listeners\<close>

text \<open>The listeners of a group, in the order the three nested loops create them.\<close>

definition listen_targets :: "NetServeConfig \<Rightarrow> (string \<times> string \<times> int) list" where
  "listen_targets nsc =
     concat (map (\<lambda>nettype. concat (map (\<lambda>ip. map (\<lambda>port. (nettype, ip, port)) (nsc_Port nsc))
       (nsc_ListenIP nsc))) (nsc_NetType nsc))"

datatype net_serve = TcpServe string string | UdpServe string string

definition laddr :: "string \<Rightarrow> int \<Rightarrow> string" where
  "laddr ip port = ip @ '':'' @ FormatInt port"

text \<open>
  \<open>listen\<close> is the operating system's answer to a listen call, \<open>resolve\<close> that to resolving an address.
  Both listeners log the first entry of the cipher's configuration before they listen.
\<close>

definition tcp_Listen :: "(string \<Rightarrow> string \<Rightarrow> unit outcome) \<Rightarrow> NetServeConfig \<Rightarrow> string \<Rightarrow> string \<Rightarrow> int \<Rightarrow> net_serve outcome" where
  "tcp_Listen listen nsc nettype ip port =
     obind (go_index (nsc_Cipher nsc) 0) (\<lambda>c.
     obind (CheckError (listen nettype (laddr ip port))) (\<lambda>l. Ok (TcpServe nettype (laddr ip port))))"

definition udp_Listen :: "(string \<Rightarrow> unit outcome) \<Rightarrow> (string \<Rightarrow> string \<Rightarrow> unit outcome) \<Rightarrow> NetServeConfig \<Rightarrow> string \<Rightarrow> string
    \<Rightarrow> int \<Rightarrow> net_serve outcome" where
  "udp_Listen resolve listen nsc nettype ip port =
     obind (CheckError (resolve (laddr ip port))) (\<lambda>addr.
     obind (go_index (nsc_Cipher nsc) 0) (\<lambda>c.
     obind (CheckError (listen nettype (laddr ip port))) (\<lambda>l. Ok (UdpServe nettype (laddr ip port)))))"

definition newNetServe :: "(string \<Rightarrow> unit outcome) \<Rightarrow> (string \<Rightarrow> string \<Rightarrow> unit outcome) \<Rightarrow> NetServeConfig
    \<Rightarrow> string \<times> string \<times> int \<Rightarrow> net_serve outcome" where
  "newNetServe resolve listen nsc t =
     (case t of (nettype, ip, port) \<Rightarrow>
        if Contains nettype ''tcp'' then tcp_Listen listen nsc nettype ip port
        else udp_Listen resolve listen nsc nettype ip port)"

fun create_serves :: "(string \<times> string \<times> int \<Rightarrow> net_serve outcome) \<Rightarrow> (string \<times> string \<times> int) list
    \<Rightarrow> net_serve list \<Rightarrow> net_serve list outcome" where
  "create_serves new [] serves = Ok serves"
| "create_serves new (t # ts) serves =
     obind (new t) (\<lambda>s. create_serves new ts (serves @ [s]))"

text \<open>\<open>ServeGroup.Serve\<close>: the servers it starts; a panic of a listen call is recovered and logged.\<close>

definition ServeGroup_Serve :: "(string \<Rightarrow> unit outcome) \<Rightarrow> (string \<Rightarrow> string \<Rightarrow> unit outcome) \<Rightarrow> NetServeConfig
    \<Rightarrow> net_serve list \<times> gpanic option" where
  "ServeGroup_Serve resolve listen nsc =
     (case create_serves (newNetServe resolve listen nsc) (listen_targets nsc) [] of
        Ok serves \<Rightarrow> (serves, None)
      | Panic p \<Rightarrow> ([], Some p)
      | Err e \<Rightarrow> ([], None))"

text \<open>
  A group, and the groups that are started: a configuration that is rejected panics out of the
  call, after the groups before it have been started. The seeds are those of the ciphers.
\<close>

record 'prv serve_group =
  sg_nsc :: NetServeConfig
  sg_cipher :: "'prv trans_cipher"
  sg_d :: decoder
  sg_hd :: api_handler

fun ListenAndServeServeGroups :: "('prv, 'pub) rsa_lib \<Rightarrow> (string \<Rightarrow> api_handler) \<Rightarrow> (32 word \<times> NetServeConfig) list
    \<Rightarrow> 'prv serve_group list \<times> unit outcome" where
  "ListenAndServeServeGroups L f [] = ([], Ok ())"
| "ListenAndServeServeGroups L f ((seed, nsc) # ncs) =
     (let hd = f (nsc_HandlerName nsc);
          group = obind (NewTransCipher L seed (nsc_Cipher nsc)) (\<lambda>c.
                  obind (newDecoder (nsc_CodeType nsc)) (\<lambda>d.
                    Ok \<lparr>sg_nsc = nsc, sg_cipher = c, sg_d = d, sg_hd = hd\<rparr>))
      in case group of
           Ok g \<Rightarrow> (case ListenAndServeServeGroups L f ncs of (gs, r) \<Rightarrow> (g # gs, r))
         | Err e \<Rightarrow> ([], Err e)
         | Panic p \<Rightarrow> ([], Panic p))"

text \<open>
  The accept loops as functions of what happens at each round: the flag \<open>terminate\<close> when the
  round ends, and a failed or successful accept. The result is what was handed to request
  handlers and whether the loop was left.
\<close>

datatype 'a net_event = NetErr gerr | NetData 'a

fun tcp_loop :: "(bool \<times> 'a net_event) list \<Rightarrow> 'a list \<times> bool" where
  "tcp_loop [] = ([], False)"
| "tcp_loop ((terminate, NetErr e) # es) = tcp_loop es"
| "tcp_loop ((terminate, NetData c) # es) =
     (if terminate then ([c], True) else let (cs, stopped) = tcp_loop es in (c # cs, stopped))"

text \<open>Datagrams are cut to the buffer of 1024 bytes; empty ones are skipped.\<close>

fun udp_loop :: "(bool \<times> (bytes \<times> string) net_event) list \<Rightarrow> (bytes \<times> string) list \<times> bool" where
  "udp_loop [] = ([], False)"
| "udp_loop ((terminate, NetErr e) # es) = udp_loop es"
| "udp_loop ((terminate, NetData (d, addr)) # es) =
     (let d = take 1024 d in
      if d = [] then udp_loop es
      else if terminate then ([(d, addr)], True)
      else let (cs, stopped) = udp_loop es in ((d, addr) # cs, stopped))"

subsection \<open>Lemmas\<close>

lemma create_serves_ok:
  "\<forall>t \<in> set ts. is_ok (new t) \<Longrightarrow> \<exists>ss. create_serves new ts acc = Ok (acc @ ss) \<and> map Ok ss = map new ts"
proof (induction ts arbitrary: acc)
  case (Cons t ts)
  then obtain s where s: "new t = Ok s" by (auto simp: is_ok_iff)
  from Cons obtain ss where "create_serves new ts (acc @ [s]) = Ok ((acc @ [s]) @ ss) \<and> map Ok ss = map new ts"
    by (metis list.set_intros(2))
  with s show ?case by (intro exI [of _ "s # ss"]) simp
qed simp

lemma create_serves_fails:
  "\<forall>t e. new t \<noteq> Err e \<Longrightarrow> \<exists>t \<in> set ts. \<not> is_ok (new t) \<Longrightarrow> \<exists>p. create_serves new ts acc = Panic p"
proof (induction ts arbitrary: acc)
  case (Cons t ts)
  then show ?case by (cases t; cases "new t") auto
qed simp

lemma newNetServe_no_err: "newNetServe resolve listen nsc t \<noteq> Err e"
  by (auto simp: newNetServe_def tcp_Listen_def udp_Listen_def obind_eq_Err CheckError_not_Err go_index_def split: prod.splits)

subsection \<open>Properties\<close>

text \<open>
  Starting a group is all or nothing: if every listen call succeeds, one server per network
  type, address and port is started, in that nesting, and none is started otherwise.
\<close>

theorem ServeGroup_all_or_nothing:
  "map Ok (fst (ServeGroup_Serve resolve listen nsc)) =
     (if list_all (\<lambda>t. is_ok (newNetServe resolve listen nsc t)) (listen_targets nsc)
      then map (newNetServe resolve listen nsc) (listen_targets nsc) else []) \<and>
   (snd (ServeGroup_Serve resolve listen nsc) = None) =
     list_all (\<lambda>t. is_ok (newNetServe resolve listen nsc t)) (listen_targets nsc)"
proof (cases "list_all (\<lambda>t. is_ok (newNetServe resolve listen nsc t)) (listen_targets nsc)")
  case True
  then show ?thesis using create_serves_ok [of "listen_targets nsc" "newNetServe resolve listen nsc" "[]"]
    by (auto simp: ServeGroup_Serve_def list_all_iff)
next
  case False
  then obtain p where "create_serves (newNetServe resolve listen nsc) (listen_targets nsc) [] = Panic p"
    using create_serves_fails [of "newNetServe resolve listen nsc" "listen_targets nsc" "[]"] newNetServe_no_err
    by (auto simp: list_all_iff)
  with False show ?thesis by (simp add: ServeGroup_Serve_def)
qed

end
