(* ===== verification/Net_Shared.thy ===== *)
theory Net_Shared
  imports Net_Serve
begin

text \<open>
  The datagrams of one UDP server between its goroutines: \<^verbatim>\<open>udpserve.Serve\<close> makes a connection for every datagram and
  starts \<open>HandleRequest\<close> on it; the connections of one peer share a context, those of all peers the cipher and
  the pool of writers. Every rule is one whole operation of \<open>Net_Peer\<close> or \<open>Net_Serve\<close>, so the runs here are some
  of those of the program, whose operations also interleave within themselves.
\<close>

subsection \<open>Goroutines\<close>

text \<open>
  A datagram that has not been received, a connection that has to be read, one with the writes its
  handler still makes, and one that is closed.
\<close>

datatype udp_go = GWaiting | GRead conn | GWrite "bytes list" conn | GDone conn

record 'prv udp_sys =
  us_cipher :: "'prv trans_cipher"
  us_table :: udp_table
  us_pool :: "bufw list"
  us_go :: "nat \<Rightarrow> udp_go"
  us_down :: bool

text \<open>A pool gives one of its elements, or none, whatever it holds.\<close>

definition pool_get :: "bufw list \<Rightarrow> bufw option \<Rightarrow> bufw list \<Rightarrow> bool" where
  "pool_get pool pooled pool' \<longleftrightarrow> (case pooled of None \<Rightarrow> pool' = pool | Some b \<Rightarrow> b \<in> set pool \<and> pool' = remove1 b pool)"

definition put_ctx :: "nat \<Rightarrow> NetContext \<Rightarrow> udp_table \<Rightarrow> udp_table" where
  "put_ctx p ctx t = t\<lparr>udp_heap := (udp_heap t)(p \<mapsto> ctx)\<rparr>"

text \<open>
  \<open>dgram i\<close> is the address and the content of a datagram, \<open>answer\<close> what decoder and handler write for a request,
  call by call. A panic with an error ends the request and closes the connection; one with a string
  passes the recovery and takes the process down (\<open>ele_request_crash_iff\<close>).
\<close>

inductive udp_sys_step :: "('prv, 'pub) rsa_lib \<Rightarrow> NetServeConfig \<Rightarrow> (nat \<Rightarrow> string \<times> bytes) \<Rightarrow> (bytes \<Rightarrow> bytes list)
    \<Rightarrow> 'prv udp_sys \<Rightarrow> 'prv udp_sys \<Rightarrow> bool" for L nsc dgram answer where
  arrive: "\<not> us_down s \<Longrightarrow> us_go s i = GWaiting \<Longrightarrow> pool_get (us_pool s) pooled pool \<Longrightarrow>
    newUdpConn nsc pooled answers (us_table s) (snd (dgram i)) (fst (dgram i)) = (cn, t) \<Longrightarrow>
    udp_sys_step L nsc dgram answer s (s\<lparr>us_table := t, us_pool := pool, us_go := (us_go s)(i := GRead cn)\<rparr>)"
| read: "\<not> us_down s \<Longrightarrow> us_go s i = GRead cn \<Longrightarrow> cn_context cn = SharedCtx p \<Longrightarrow> udp_heap (us_table s) p = Some ctx \<Longrightarrow>
    conn_Read L avail spare (us_cipher s) ctx cn = (ctx', Ok (d, cn')) \<Longrightarrow>
    udp_sys_step L nsc dgram answer s (s\<lparr>us_table := put_ctx p ctx' (us_table s),
      us_go := (us_go s)(i := GWrite (if d = [] then [] else answer d) cn')\<rparr>)"
| read_fails: "\<not> us_down s \<Longrightarrow> us_go s i = GRead cn \<Longrightarrow> cn_context cn = SharedCtx p \<Longrightarrow> udp_heap (us_table s) p = Some ctx \<Longrightarrow>
    conn_Read L avail spare (us_cipher s) ctx cn = (ctx', Panic (PErr e)) \<Longrightarrow>
    udp_sys_step L nsc dgram answer s (s\<lparr>us_table := put_ctx p ctx' (us_table s), us_go := (us_go s)(i := GWrite [] cn)\<rparr>)"
| read_crashes: "\<not> us_down s \<Longrightarrow> us_go s i = GRead cn \<Longrightarrow> cn_context cn = SharedCtx p \<Longrightarrow> udp_heap (us_table s) p = Some ctx \<Longrightarrow>
    conn_Read L avail spare (us_cipher s) ctx cn = (ctx', Panic (PStr m args)) \<Longrightarrow>
    udp_sys_step L nsc dgram answer s (s\<lparr>us_down := True\<rparr>)"
| reply: "\<not> us_down s \<Longrightarrow> us_go s i = GWrite (x # xs) cn \<Longrightarrow> cn_context cn = SharedCtx p \<Longrightarrow> udp_heap (us_table s) p = Some ctx \<Longrightarrow>
    conn_Write L unix now (us_cipher s) ctx cn x = Some (c', ctx', cn', Ok n) \<Longrightarrow>
    udp_sys_step L nsc dgram answer s (s\<lparr>us_cipher := c', us_table := put_ctx p ctx' (us_table s),
      us_go := (us_go s)(i := GWrite xs cn')\<rparr>)"
| write_fails: "\<not> us_down s \<Longrightarrow> us_go s i = GWrite (x # xs) cn \<Longrightarrow> cn_context cn = SharedCtx p \<Longrightarrow> udp_heap (us_table s) p = Some ctx \<Longrightarrow>
    conn_Write L unix now (us_cipher s) ctx cn x = Some (c', ctx', cn', Panic (PErr e)) \<Longrightarrow>
    udp_sys_step L nsc dgram answer s (s\<lparr>us_cipher := c', us_table := put_ctx p ctx' (us_table s),
      us_go := (us_go s)(i := GWrite [] cn')\<rparr>)"
| write_crashes: "\<not> us_down s \<Longrightarrow> us_go s i = GWrite (x # xs) cn \<Longrightarrow> cn_context cn = SharedCtx p \<Longrightarrow> udp_heap (us_table s) p = Some ctx \<Longrightarrow>
    conn_Write L unix now (us_cipher s) ctx cn x = Some (c', ctx', cn', Panic (PStr m args)) \<Longrightarrow>
    udp_sys_step L nsc dgram answer s (s\<lparr>us_down := True\<rparr>)"
| close: "\<not> us_down s \<Longrightarrow> us_go s i = GWrite [] cn \<Longrightarrow> conn_Close now close_err (us_pool s) cn = (e, pool, cn') \<Longrightarrow>
    udp_sys_step L nsc dgram answer s (s\<lparr>us_pool := pool, us_go := (us_go s)(i := GDone cn')\<rparr>)"
| expire: "\<not> us_down s \<Longrightarrow> udp_sys_step L nsc dgram answer s (s\<lparr>us_table := udp_expire addr (us_table s)\<rparr>)"

definition udp_sys_start :: "'prv trans_cipher \<Rightarrow> 'prv udp_sys" where
  "udp_sys_start c = \<lparr>us_cipher = c, us_table = empty_udp_table, us_pool = [], us_go = (\<lambda>i. GWaiting), us_down = False\<rparr>"

text \<open>The reader a connection has for its datagram.\<close>

definition dgram_reader :: "bytes \<Rightarrow> reader" where
  "dgram_reader d = newBufioReader (LimitReader (d, io_EOF) noLimit)"

lemma newUdpConn_rd: "cn_rd (fst (newUdpConn nsc pooled answers t d addr)) = dgram_reader d"
  by (auto simp: newUdpConn_def newConn_def set_verbose_def dgram_reader_def Let_def split: prod.splits ctx_ref.splits)

lemma newUdpConn_inv:
  assumes "\<forall>b. pooled = Some b \<longrightarrow> 0 < bw_size b"
  shows "conn_inv [] (fst (newUdpConn nsc pooled answers t d addr))"
  using newConn_inv [OF assms, of answers t "UdpConn addr d (nsc_Debug nsc = 1)" False]
  by (auto simp: newUdpConn_def set_verbose_def conn_inv_def split: prod.splits ctx_ref.splits)

lemma conn_Close_pool:
  assumes "conn_inv out cn" and "conn_Close now ce pool cn = (e, pool', cn')" and "\<forall>b \<in> set pool. 0 < bw_size b"
  shows "\<forall>b \<in> set pool'. 0 < bw_size b"
proof -
  obtain raw b where cn: "cn_c cn = Some raw" "cn_buf cn = Some b" "bw_ok b"
    using assms(1) by (rule conn_invE)
  obtain f b' s' where f: "bw_Flush (checkConnErrorWriter_Write now raw) b (cn_sink cn) = (f, b', s')"
    by (cases "bw_Flush (checkConnErrorWriter_Write now raw) b (cn_sink cn)")
  have "0 < bw_size b'" using f cn(3) by (auto simp: bw_Flush_def bw_ok_def Let_def split: prod.splits if_splits)
  then show ?thesis using assms(2,3) cn f
    by (auto simp: conn_Close_def finalFlush_def putBufioWriter_def bw_Reset_def)
qed

subsection \<open>The line cipher\<close>

text \<open>What \<open>eleCipher\<close> makes of the writes of a handler, up to the first that panics, and of a datagram.\<close>

fun ele_answers :: "eleCipher \<Rightarrow> bytes list \<Rightarrow> bytes" where
  "ele_answers e [] = []"
| "ele_answers e (x # xs) =
     (if x = [] then ele_answers e xs
      else case ele_EncodeWrite e [] x of Ok out \<Rightarrow> out @ ele_answers e xs | _ \<Rightarrow> [])"

definition ele_own :: "eleCipher \<Rightarrow> (bytes \<Rightarrow> bytes list) \<Rightarrow> bytes \<Rightarrow> bytes" where
  "ele_own e answer d =
     (case ele_DecodeRead e (dgram_reader d) of
        Ok (r, rd) \<Rightarrow> ele_answers e (if r = [] then [] else answer r) | _ \<Rightarrow> [])"

fun ele_go :: "eleCipher \<Rightarrow> bytes \<Rightarrow> bytes \<Rightarrow> udp_go \<Rightarrow> bool" where
  "ele_go e d own GWaiting = True"
| "ele_go e d own (GRead cn) = (conn_inv [] cn \<and> cn_rd cn = dgram_reader d)"
| "ele_go e d own (GWrite ws cn) = (\<exists>out. conn_inv out cn \<and> out @ ele_answers e ws = own)"
| "ele_go e d own (GDone cn) = ((\<exists>k. sk_sent (cn_sink cn) = take k own) \<and>
     (sk_werr (cn_sink cn) = None \<longrightarrow> sk_sent (cn_sink cn) = own))"

definition ele_sys :: "eleCipher \<Rightarrow> (nat \<Rightarrow> string \<times> bytes) \<Rightarrow> (bytes \<Rightarrow> bytes list) \<Rightarrow> 'prv udp_sys \<Rightarrow> bool" where
  "ele_sys e dgram answer s \<longleftrightarrow> us_cipher s = Ele e \<and> (\<forall>b \<in> set (us_pool s). 0 < bw_size b) \<and>
     (\<forall>i. ele_go e (snd (dgram i)) (ele_own e answer (snd (dgram i))) (us_go s i))"

lemma ele_sysI:
  assumes "ele_sys e dgram answer s" and "us_cipher t = Ele e" and "\<forall>b \<in> set (us_pool t). 0 < bw_size b"
    and "us_go t = (us_go s)(i := g)" and "ele_go e (snd (dgram i)) (ele_own e answer (snd (dgram i))) g"
  shows "ele_sys e dgram answer t"
  using assms by (simp add: ele_sys_def)

lemma conn_inv_status: "conn_inv out (if cn_rsw cn then cn\<lparr>cn_status := st\<rparr> else cn) = conn_inv out cn"
  by (simp add: conn_inv_def)

lemma ele_sys_write:
  assumes "conn_inv out cn" and "conn_Write L unix now (Ele e) ctx cn x = Some (c', ctx', cn', r)"
  shows "c' = Ele e \<and> (\<exists>out'. conn_inv out' cn' \<and>
    (case r of Ok n \<Rightarrow> \<forall>xs. out' @ ele_answers e xs = out @ ele_answers e (x # xs) | _ \<Rightarrow> \<forall>xs. out' = out @ ele_answers e (x # xs)))"
proof -
  let ?cn = "if cn_rsw cn then cn\<lparr>cn_status := cn_status cn @ [200]\<rparr> else cn"
  obtain raw b where "cn_c cn = Some raw" "cn_buf cn = Some b" using assms(1) by (rule conn_invE)
  then have cn: "cn_c ?cn = Some raw" "cn_buf ?cn = Some b" by simp_all
  consider (empty) "x = []" | (bytes) o1 where "x \<noteq> []" "ele_EncodeWrite e [] x = Ok o1"
    | (fails) r' where "x \<noteq> []" "ele_EncodeWrite e [] x = r'" "\<forall>z. r' \<noteq> Ok z"
    by (cases "ele_EncodeWrite e [] x") auto
  then show ?thesis
  proof cases
    case empty
    with assms conn_inv_status [of out cn] show ?thesis
      by (auto simp: conn_Write_def Let_def intro!: exI [of _ out])
  next
    case bytes
    then have "cipher_write L unix (Ele e) ctx [] x = Some (Ele e, ctx, Ok o1)" by (simp add: cipher_write_def)
    from conn_Write_inv [OF assms(1) this bytes(1), of now] assms(2) bytes show ?thesis by auto
  next
    case fails
    then have "c' = Ele e" "cn' = ?cn" "\<forall>n. r \<noteq> Ok n"
      using assms(2) cn by (auto simp: conn_Write_def cipher_write_def Let_def split: outcome.splits)
    with assms(1) fails conn_inv_status [of out cn] show ?thesis
      by (auto split: outcome.splits intro!: exI [of _ out])
  qed
qed

lemma ele_sys_step:
  assumes "udp_sys_step L nsc dgram answer s t" and "ele_sys e dgram answer s"
  shows "ele_sys e dgram answer t"
proof -
  have c: "us_cipher s = Ele e" and pool: "\<forall>b \<in> set (us_pool s). 0 < bw_size b"
    and go: "ele_go e (snd (dgram i)) (ele_own e answer (snd (dgram i))) (us_go s i)" for i
    using assms(2) by (auto simp: ele_sys_def)
  note I = ele_sysI [OF assms(2)]
  show ?thesis using assms(1)
  proof (cases rule: udp_sys_step.cases)
    case (arrive i pooled pool' answers cn tab)
    have "\<forall>b. pooled = Some b \<longrightarrow> 0 < bw_size b" and "\<forall>b \<in> set pool'. 0 < bw_size b"
      using arrive(4) pool by (auto simp: pool_get_def split: option.splits dest: notin_set_remove1)
    note this(2)
    moreover have "conn_inv [] cn" "cn_rd cn = dgram_reader (snd (dgram i))"
      using newUdpConn_inv [OF \<open>\<forall>b. pooled = Some b \<longrightarrow> 0 < bw_size b\<close>, of nsc answers "us_table s" "snd (dgram i)" "fst (dgram i)"]
        newUdpConn_rd [of nsc pooled answers "us_table s" "snd (dgram i)" "fst (dgram i)"] arrive(5) by simp_all
    ultimately show ?thesis using c by (intro I [of _ i "GRead cn"]) (auto simp: arrive(1))
  next
    case (read i cn p ctx avail spare ctx' d cn')
    have "ele_DecodeRead e (dgram_reader (snd (dgram i))) = Ok (d, cn_rd cn')" "conn_inv [] cn'"
      using read(6) go [of i] read(3) c
      by (auto simp: conn_Read_def cipher_read_def obind_eq_Ok conn_inv_def)
    then show ?thesis using c pool
      by (intro I [of _ i "GWrite (if d = [] then [] else answer d) cn'"]) (auto simp: read(1) ele_own_def)
  next
    case (read_fails i cn p ctx avail spare ctx' g)
    have "ele_own e answer (snd (dgram i)) = []" "conn_inv [] cn"
      using read_fails(6) go [of i] read_fails(3) c
      by (auto simp: conn_Read_def cipher_read_def ele_own_def obind_eq_Panic)
    then show ?thesis using c pool
      by (intro I [of _ i "GWrite [] cn"]) (auto simp: read_fails(1))
  next
    case (read_crashes i cn p ctx avail spare ctx' m args)
    then show ?thesis using assms(2) by (simp add: ele_sys_def)
  next
    case (reply i x xs cn p ctx unix now c' ctx' cn' n)
    then obtain out where "conn_inv out cn" "out @ ele_answers e (x # xs) = ele_own e answer (snd (dgram i))"
      using go [of i] by auto
    with ele_sys_write [OF this(1)] reply(6) c obtain out' where
      "c' = Ele e" "conn_inv out' cn'" "out' @ ele_answers e xs = ele_own e answer (snd (dgram i))"
      by fastforce
    then show ?thesis using pool by (intro I [of _ i "GWrite xs cn'"]) (auto simp: reply(1))
  next
    case (write_fails i x xs cn p ctx unix now c' ctx' cn' g)
    then obtain out where "conn_inv out cn" "out @ ele_answers e (x # xs) = ele_own e answer (snd (dgram i))"
      using go [of i] by auto
    with ele_sys_write [OF this(1)] write_fails(6) c obtain out' where
      "c' = Ele e" "conn_inv out' cn'" "out' = ele_own e answer (snd (dgram i))"
      by fastforce
    then show ?thesis using pool by (intro I [of _ i "GWrite [] cn'"]) (auto simp: write_fails(1))
  next
    case (write_crashes i x xs cn p ctx unix now c' ctx' cn' m args)
    then show ?thesis using assms(2) by (simp add: ele_sys_def)
  next
    case (close i cn now ce g pool' cn')
    then have "conn_inv (ele_own e answer (snd (dgram i))) cn" using go [of i] by auto
    with close(4) c conn_Close_inv [OF this close(4)] conn_Close_pool [OF this close(4) pool] show ?thesis
      by (intro I [of _ i "GDone cn'"]) (auto simp: close(1))
  next
    case (expire addr)
    then show ?thesis using assms(2) by (simp add: ele_sys_def)
  qed
qed

interpretation line_sys: step_system "udp_sys_step L nsc dgram answer" "ele_sys e dgram answer" for L nsc dgram answer e
  by unfold_locales (rule ele_sys_step)

lemma ele_sys_start: "ele_sys e dgram answer (udp_sys_start (Ele e))"
  by (simp add: ele_sys_def udp_sys_start_def)

subsection \<open>The packet cipher\<close>



























text \<open>Two goroutines with the one context of their peer.\<close>

definition one_peer :: "string \<Rightarrow> NetContext \<Rightarrow> udp_table" where
  "one_peer addr ctx = \<lparr>gUdpNetContext = [addr \<mapsto> 0], udp_heap = [0 \<mapsto> ctx], udp_next = 1\<rparr>"

definition two_gos :: "nat \<Rightarrow> nat \<Rightarrow> string \<Rightarrow> 'prv trans_cipher \<Rightarrow> NetContext \<Rightarrow> bufw list \<Rightarrow> udp_go \<Rightarrow> udp_go \<Rightarrow> 'prv udp_sys" where
  "two_gos i j addr c ctx pool g h =
     \<lparr>us_cipher = c, us_table = one_peer addr ctx, us_pool = pool, us_go = (\<lambda>k. GWaiting)(i := g, j := h), us_down = False\<rparr>"


lemma newUdpConn_context:
  "cn_context (fst (newUdpConn nsc None [] empty_udp_table d addr)) = SharedCtx 0"
  "snd (newUdpConn nsc None [] empty_udp_table d addr) = one_peer addr ((NewNetContext addr)\<lparr>nc_logVerbose := nsc_LogVerbose nsc\<rparr>)"
  "cn_context (fst (newUdpConn nsc None [] (one_peer addr ctx) d addr)) = SharedCtx 0"
  "nc_logVerbose ctx = nsc_LogVerbose nsc \<Longrightarrow> snd (newUdpConn nsc None [] (one_peer addr ctx) d addr) = one_peer addr ctx"
  by (simp_all add: newUdpConn_def newConn_def set_verbose_def GetUdpNetContext_def empty_udp_table_def one_peer_def fun_upd_def cong: if_cong)
    (rule ext, simp)

lemma two_gos_read:
  assumes "i \<noteq> j" and "cn_context cn = SharedCtx 0" and "cn_rd cn = dgram_reader (snd (dgram i))" and "r \<noteq> []"
    and "cipher_read L avail spare c ctx (dgram_reader (snd (dgram i))) = (ctx', Ok (r, rd))"
  shows "udp_sys_step L nsc dgram answer (two_gos i j addr c ctx pool (GRead cn) h)
    (two_gos i j addr c ctx' pool (GWrite (answer r) (cn\<lparr>cn_rd := rd\<rparr>)) h)"
  using assms udp_sys_step.read [of "two_gos i j addr c ctx pool (GRead cn) h" i cn 0 ctx L avail spare ctx' r "cn\<lparr>cn_rd := rd\<rparr>" nsc dgram answer]
  by (simp add: two_gos_def one_peer_def put_ctx_def conn_Read_def fun_upd_twist)

lemma two_gos_write:
  assumes "cn_context cn = SharedCtx 0" and "conn_Write L unix now c ctx cn x = Some (c', ctx', cn', Ok n)" and "i \<noteq> j"
  shows "udp_sys_step L nsc dgram answer (two_gos i j addr c ctx pool (GWrite (x # xs) cn) h)
    (two_gos i j addr c' ctx' pool (GWrite xs cn') h)"
  using assms udp_sys_step.reply [of "two_gos i j addr c ctx pool (GWrite (x # xs) cn) h" i x xs cn 0 ctx L unix now c' ctx' cn' n nsc dgram answer]
  by (simp add: two_gos_def one_peer_def put_ctx_def fun_upd_twist)

lemma two_gos_close:
  assumes "i \<noteq> j"
  shows "udp_sys_step L nsc dgram answer (two_gos i j addr c ctx pool (GWrite [] cn) h)
    (two_gos i j addr c ctx (fst (snd (conn_Close now ce pool cn))) (GDone (snd (snd (conn_Close now ce pool cn)))) h)"
  using assms udp_sys_step.close [of "two_gos i j addr c ctx pool (GWrite [] cn) h" i cn now ce
      "fst (conn_Close now ce pool cn)" "fst (snd (conn_Close now ce pool cn))" "snd (snd (conn_Close now ce pool cn))" L nsc dgram answer]
  by (simp add: two_gos_def fun_upd_twist)

lemma two_gos_arrive:
  fixes i :: nat and nsc dgram and c :: "'prv trans_cipher"
  defines "cn \<equiv> \<lambda>i t. fst (newUdpConn nsc None [] t (snd (dgram i)) (fst (dgram i)))"
    and "ctx \<equiv> (NewNetContext (fst (dgram i)))\<lparr>nc_logVerbose := nsc_LogVerbose nsc\<rparr>"
  assumes "i \<noteq> j" and "fst (dgram i) = fst (dgram j)"
  shows "(udp_sys_step L nsc dgram answer)\<^sup>*\<^sup>* (udp_sys_start c)
    (two_gos i j (fst (dgram i)) c ctx [] (GRead (cn i empty_udp_table)) (GRead (cn j (one_peer (fst (dgram i)) ctx))))"
proof -
  have "udp_sys_step L nsc dgram answer (udp_sys_start c) (two_gos i j (fst (dgram i)) c ctx [] (GRead (cn i empty_udp_table)) GWaiting)"
    using udp_sys_step.arrive [of "udp_sys_start c" i None "[]" nsc "[]" dgram "cn i empty_udp_table" "one_peer (fst (dgram i)) ctx" L answer]
      newUdpConn_context(2) [of nsc "snd (dgram i)" "fst (dgram i)"] assms
    by (simp add: udp_sys_start_def two_gos_def pool_get_def prod_eq_iff fun_upd_twist fun_upd_idem)
  moreover have "udp_sys_step L nsc dgram answer (two_gos i j (fst (dgram i)) c ctx [] (GRead (cn i empty_udp_table)) GWaiting)
      (two_gos i j (fst (dgram i)) c ctx [] (GRead (cn i empty_udp_table)) (GRead (cn j (one_peer (fst (dgram i)) ctx))))"
    using udp_sys_step.arrive [of "two_gos i j (fst (dgram i)) c ctx [] (GRead (cn i empty_udp_table)) GWaiting" j None "[]" nsc "[]" dgram
        "cn j (one_peer (fst (dgram i)) ctx)" "one_peer (fst (dgram i)) ctx" L answer]
      newUdpConn_context(4) [of ctx nsc "fst (dgram i)" "snd (dgram j)"] assms
    by (simp add: two_gos_def pool_get_def prod_eq_iff)
  ultimately show ?thesis by simp
qed




subsection \<open>Properties\<close>

text \<open>
  C12: With the line cipher the answers of concurrent datagrams do not touch: in whatever order the goroutines of a UDP
  server receive, read, write and close, and whichever writers the pool hands out again, a peer whose connection is
  closed has got what the cipher makes of the handler's writes for its own datagram, or, after
  a write error, a part of that from the beginning.
\<close>

theorem line_answers_own:
  assumes "(udp_sys_step L nsc dgram answer)\<^sup>*\<^sup>* (udp_sys_start (Ele e)) t" and "us_go t i = GDone cn"
  shows "(\<exists>k. sk_sent (cn_sink cn) = take k (ele_own e answer (snd (dgram i)))) \<and>
    (sk_werr (cn_sink cn) = None \<longrightarrow> sk_sent (cn_sink cn) = ele_own e answer (snd (dgram i)))"
proof -
  have "ele_sys e dgram answer t"
    by (rule line_sys.run_inv [OF assms(1) ele_sys_start])
  then have "ele_go e (snd (dgram i)) (ele_own e answer (snd (dgram i))) (us_go t i)" by (simp add: ele_sys_def)
  with assms(2) show ?thesis by simp
qed

text \<open>A client that sends two bytes and gets them back.\<close>

lemma b64_length: "length (b64_encode d) \<le> 2 * length d + 4"
  by (induction d rule: b64_encode.induct) (simp_all add: Let_def)

lemma dgram_reader_eq: "length d < 2 ^ 62 \<Longrightarrow> dgram_reader d = \<lparr>rd_data = d, rd_err = io_EOF, rd_size = 4096\<rparr>"
  by (simp add: dgram_reader_def newBufioReader_def LimitReader_def noLimit_def)

lemma ele_echo:
  assumes "ele_aesblock e = Some key" and "length (ele_aesivb e) = 16" and "ele_EncodeWrite e [] [1, 2] = Ok out"
  shows "\<exists>rd. ele_DecodeRead e (dgram_reader out) = Ok ([1, 2] @ replicate 14 0, rd)"
    and "ele_own e (\<lambda>d. [[1, 2]]) out = out"
proof -
  let ?enc = "cbc_enc (aes_encrypt key) 16 (ele_aesivb e) ([1, 2] @ replicate 14 0)"
  have "out = bytes_of_string (b64_encode ?enc) @ [CR, LF]"
    using assms by (simp add: ele_EncodeWrite_def ZeroPad_16 NewCBCEncrypter_def cbc_encrypt_blocks_def)
  moreover have "length ?enc = 16" using aes.cbc_length assms(2) by simp
  ultimately have "length out \<le> 2 * 16 + 6" using b64_length [of ?enc] by simp
  then show "\<exists>rd. ele_DecodeRead e (dgram_reader out) = Ok ([1, 2] @ replicate 14 0, rd)"
    using ele_write_read [OF assms(1,2) _ assms(3), of "dgram_reader []" "[]"]
    by (simp add: dgram_reader_eq rd_ok_def)
  then show "ele_own e (\<lambda>d. [[1, 2]]) out = out" using assms(3) by (auto simp: ele_own_def)
qed

theorem line_answers_own_witness:
  "\<forall>L nsc. \<exists>t cn out.
    ele_EncodeWrite \<lparr>ele_aeskeyb = replicate 16 3, ele_aesivb = replicate 16 0, ele_aesblock = Some (replicate 16 3)\<rparr> [] [1, 2] = Ok out \<and>
    (udp_sys_step L nsc (\<lambda>i. (''10.0.0.7:4711'', out)) (\<lambda>d. [[1, 2]]))\<^sup>*\<^sup>* (udp_sys_start (Ele
      \<lparr>ele_aeskeyb = replicate 16 3, ele_aesivb = replicate 16 0, ele_aesblock = Some (replicate 16 3)\<rparr>)) t \<and>
    us_go t 0 = GDone cn \<and> (sk_werr (cn_sink cn) = None \<longrightarrow> sk_sent (cn_sink cn) = out)"
proof (intro allI)
  fix L and nsc :: NetServeConfig
  let ?e = "\<lparr>ele_aeskeyb = replicate 16 3, ele_aesivb = replicate 16 0, ele_aesblock = Some (replicate 16 3)\<rparr>"
  let ?addr = "''10.0.0.7:4711''" and ?ctx = "(NewNetContext ''10.0.0.7:4711'')\<lparr>nc_logVerbose := nsc_LogVerbose nsc\<rparr>"
  obtain out where o: "ele_EncodeWrite ?e [] [1, 2] = Ok out"
    using ele_write_Ok [of ?e "replicate 16 3"] by (metis eleCipher.select_convs(2,3) length_replicate)
  note echo = ele_echo [OF _ _ o, of "replicate 16 3", simplified]
  let ?R = "udp_sys_step L nsc (\<lambda>i. (?addr, out)) (\<lambda>d. [[1, 2]])"
  let ?a = "fst (newUdpConn nsc None [] empty_udp_table out ?addr)"
  obtain rd where rd: "ele_DecodeRead ?e (dgram_reader out) = Ok ([1, 2] @ replicate 14 0, rd)" using echo(1) by auto
  obtain h where 1: "?R\<^sup>*\<^sup>* (udp_sys_start (Ele ?e)) (two_gos 0 1 ?addr (Ele ?e) ?ctx [] (GRead ?a) h)"
    using two_gos_arrive [of 0 1 "\<lambda>i. (?addr, out)" L nsc "\<lambda>d. [[1, 2]]" "Ele ?e"] by auto
  have 2: "?R (two_gos 0 1 ?addr (Ele ?e) ?ctx [] (GRead ?a) h)
      (two_gos 0 1 ?addr (Ele ?e) ?ctx [] (GWrite [[1, 2]] (?a\<lparr>cn_rd := rd\<rparr>)) h)"
    using two_gos_read [where i = 0 and j = 1 and cn = ?a and dgram = "\<lambda>i. (?addr, out)" and answer = "\<lambda>d. [[1, 2]]" and L = L
        and c = "Ele ?e" and ctx = ?ctx and rd = rd and r = "[1, 2] @ replicate 14 0"] rd
    by (simp add: newUdpConn_context newUdpConn_rd cipher_read_def)
  have "conn_inv [] (?a\<lparr>cn_rd := rd\<rparr>)"
    using newUdpConn_inv [of None nsc "[]" empty_udp_table out ?addr] by (simp add: conn_inv_def)
  from conn_Write_inv [OF this, of L 0 "Ele ?e" ?ctx "[1, 2]" "Ele ?e" ?ctx out 0] o obtain cn where
    w: "conn_Write L 0 0 (Ele ?e) ?ctx (?a\<lparr>cn_rd := rd\<rparr>) [1, 2] = Some (Ele ?e, ?ctx, cn, Ok 2)"
    by (auto simp: cipher_write_def)
  have 3: "?R (two_gos 0 1 ?addr (Ele ?e) ?ctx [] (GWrite [[1, 2]] (?a\<lparr>cn_rd := rd\<rparr>)) h)
      (two_gos 0 1 ?addr (Ele ?e) ?ctx [] (GWrite [] cn) h)"
    by (rule two_gos_write [OF _ w]) (simp_all add: newUdpConn_context)
  let ?cl = "conn_Close 0 None [] cn" and ?t = "\<lambda>cl. two_gos 0 1 ?addr (Ele ?e) ?ctx (fst (snd cl)) (GDone (snd (snd cl))) h"
  have 4: "?R (two_gos 0 1 ?addr (Ele ?e) ?ctx [] (GWrite [] cn) h) (?t ?cl)" by (rule two_gos_close) simp
  have run: "?R\<^sup>*\<^sup>* (udp_sys_start (Ele ?e)) (?t ?cl)" using 1 2 3 4 by (meson rtranclp.rtrancl_into_rtrancl)
  have fin: "us_go (?t ?cl) 0 = GDone (snd (snd ?cl))" by (simp add: two_gos_def)
  from line_answers_own [OF run fin] echo(2) have sent:
    "sk_werr (cn_sink (snd (snd ?cl))) = None \<longrightarrow> sk_sent (cn_sink (snd (snd ?cl))) = out" by simp
  show "\<exists>t cn out. ele_EncodeWrite ?e [] [1, 2] = Ok out \<and> (udp_sys_step L nsc (\<lambda>i. (?addr, out)) (\<lambda>d. [[1, 2]]))\<^sup>*\<^sup>* (udp_sys_start (Ele ?e)) t \<and>
    us_go t 0 = GDone cn \<and> (sk_werr (cn_sink cn) = None \<longrightarrow> sk_sent (cn_sink cn) = out)"
    by (rule exI [of _ "?t ?cl"], rule exI [of _ "snd (snd ?cl)"], rule exI [of _ out]) (intro conjI o run fin sent)
qed





end
