(* ===== verification/Net_Tunnel.thy ===== *)
theory Net_Tunnel
  imports Net_Context
begin

text \<open>
  \<^verbatim>\<open>common/tunneltask.go\<close> between its goroutines, and the table of UDP contexts of \<^verbatim>\<open>netserve/context.go\<close>
  that is reached through it: callers of \<open>TunnelExec\<close> and the goroutine of \<open>RunTunnelTasks\<close> as a step
  relation over their channels. The loop of the runner over the tasks it receives, with panics, is in \<open>Common_Utils\<close>.
\<close>

subsection \<open>Callers and runner\<close>

text \<open>A caller is sending its task, waits for \<open>execOver\<close>, or has returned.\<close>

datatype tunnel_pc = TSend | TWait | TReturned

text \<open>The runner waits for a task, executes the task of a caller, or is about to send to its \<open>execOver\<close>.\<close>

datatype tunnel_runner = RIdle | RTask nat | ROver nat

text \<open>
  \<open>tn_state\<close> is what the tasks share, \<open>tn_result\<close> the variable a task assigns to; \<open>tn_done\<close> lists the executed tasks.
\<close>

record ('s, 'r) tunnel =
  tn_tasks :: "nat list"
  tn_runner :: tunnel_runner
  tn_execOver :: "nat set"
  tn_pc :: "nat \<Rightarrow> tunnel_pc"
  tn_state :: 's
  tn_result :: "nat \<Rightarrow> 'r option"
  tn_done :: "nat list"

text \<open>
  \<open>exec i\<close> is the task of caller \<open>i\<close>, \<open>cap\<close> the capacity of the channel. \<open>env\<close> is what happens to the shared
  state besides the tasks.
\<close>

inductive tunnel_step :: "nat \<Rightarrow> (nat \<Rightarrow> 's \<Rightarrow> 'r \<times> 's) \<Rightarrow> ('s \<Rightarrow> 's \<Rightarrow> bool) \<Rightarrow> ('s, 'r) tunnel \<Rightarrow> ('s, 'r) tunnel \<Rightarrow> bool"
  for cap exec env where
  send: "tn_pc t i = TSend \<Longrightarrow> length (tn_tasks t) < cap \<Longrightarrow>
    tunnel_step cap exec env t (t\<lparr>tn_tasks := tn_tasks t @ [i], tn_pc := (tn_pc t)(i := TWait)\<rparr>)"
| take: "tn_runner t = RIdle \<Longrightarrow> tn_tasks t = i # is \<Longrightarrow>
    tunnel_step cap exec env t (t\<lparr>tn_tasks := is, tn_runner := RTask i\<rparr>)"
| execute: "tn_runner t = RTask i \<Longrightarrow> exec i (tn_state t) = (r, s) \<Longrightarrow>
    tunnel_step cap exec env t (t\<lparr>tn_runner := ROver i, tn_state := s, tn_result := (tn_result t)(i \<mapsto> r),
      tn_done := tn_done t @ [i]\<rparr>)"
| over: "tn_runner t = ROver i \<Longrightarrow>
    tunnel_step cap exec env t (t\<lparr>tn_runner := RIdle, tn_execOver := insert i (tn_execOver t)\<rparr>)"
| return: "tn_pc t i = TWait \<Longrightarrow> i \<in> tn_execOver t \<Longrightarrow>
    tunnel_step cap exec env t (t\<lparr>tn_execOver := tn_execOver t - {i}, tn_pc := (tn_pc t)(i := TReturned)\<rparr>)"
| outside: "env (tn_state t) s \<Longrightarrow> tunnel_step cap exec env t (t\<lparr>tn_state := s\<rparr>)"

inductive_cases tunnel_stepE: "tunnel_step cap exec env t t'"

definition tunnel_start :: "'s \<Rightarrow> ('s, 'r) tunnel" where
  "tunnel_start s = \<lparr>tn_tasks = [], tn_runner = RIdle, tn_execOver = {}, tn_pc = (\<lambda>i. TSend), tn_state = s,
     tn_result = (\<lambda>i. None), tn_done = []\<rparr>"

subsection \<open>Each task is executed once\<close>

fun runs :: "tunnel_runner \<Rightarrow> nat list" where
  "runs (RTask i) = [i]"
| "runs _ = []"

text \<open>
  Tasks in the channel, being executed and done are different ones, of callers that are no longer sending; a result
  is there exactly for the done ones; a caller that has been released or has returned is done.
\<close>

definition tunnel_inv :: "('s, 'r) tunnel \<Rightarrow> bool" where
  "tunnel_inv t \<longleftrightarrow>
     distinct (tn_done t @ runs (tn_runner t) @ tn_tasks t) \<and>
     (\<forall>i \<in> set (tn_done t @ runs (tn_runner t) @ tn_tasks t). tn_pc t i \<noteq> TSend) \<and>
     (\<forall>i. tn_result t i \<noteq> None \<longleftrightarrow> i \<in> set (tn_done t)) \<and>
     (\<forall>i. tn_runner t = ROver i \<longrightarrow> i \<in> set (tn_done t)) \<and> tn_execOver t \<subseteq> set (tn_done t) \<and>
     (\<forall>i. tn_pc t i = TReturned \<longrightarrow> i \<in> set (tn_done t))"

lemma tunnel_step_inv: "tunnel_inv t \<Longrightarrow> tunnel_step cap exec env t t' \<Longrightarrow> tunnel_inv t'"
  by (erule tunnel_stepE) (auto simp: tunnel_inv_def)

lemma tunnel_start_inv: "tunnel_inv (tunnel_start s)"
  by (simp add: tunnel_inv_def tunnel_start_def)

interpretation tunnel: step_system "tunnel_step cap exec env" tunnel_inv for cap exec env
  by unfold_locales (rule tunnel_step_inv)

text \<open>
  The contract of what the tasks share: an invariant of the state, and what a task promises of its result, which
  later tasks and the environment keep.
\<close>

locale tunnel_tasks =
  fixes exec :: "nat \<Rightarrow> 's \<Rightarrow> 'r \<times> 's" and env :: "'s \<Rightarrow> 's \<Rightarrow> bool"
    and inv :: "'s \<Rightarrow> bool" and good :: "nat \<Rightarrow> 'r \<Rightarrow> 's \<Rightarrow> bool"
  assumes exec_inv: "inv s \<Longrightarrow> exec i s = (r, s') \<Longrightarrow> inv s' \<and> good i r s'"
    and exec_keeps: "inv s \<Longrightarrow> exec i s = (r, s') \<Longrightarrow> good j q s \<Longrightarrow> good j q s'"
    and env_keeps: "inv s \<Longrightarrow> env s s' \<Longrightarrow> inv s' \<and> (\<forall>j q. good j q s \<longrightarrow> good j q s')"
begin

lemma results_good:
  assumes "(tunnel_step cap exec env)\<^sup>*\<^sup>* (tunnel_start s) t" and "inv s"
  shows "inv (tn_state t) \<and> (\<forall>i r. tn_result t i = Some r \<longrightarrow> good i r (tn_state t))"
  using assms
proof (induction rule: rtranclp_induct)
  case (step t u)
  then have IH: "inv (tn_state t)" "\<forall>i r. tn_result t i = Some r \<longrightarrow> good i r (tn_state t)" by blast+
  from step.hyps(2) show ?case
  proof cases
    case (execute i r s')
    with exec_inv [OF IH(1) execute(3)] exec_keeps [OF IH(1) execute(3)] IH(2) show ?thesis by simp
  next
    case (outside s')
    with env_keeps [OF IH(1) outside(2)] IH(2) show ?thesis by simp
  qed (use IH in simp_all)
qed (simp add: tunnel_start_def)

lemma returned_good:
  assumes "(tunnel_step cap exec env)\<^sup>*\<^sup>* (tunnel_start s) t" and "inv s" and "tn_pc t i = TReturned"
  shows "\<exists>r. tn_result t i = Some r \<and> good i r (tn_state t)"
proof -
  have "tunnel_inv t" by (rule tunnel.run_inv [OF assms(1) tunnel_start_inv])
  with assms(3) have "tn_result t i \<noteq> None" by (simp add: tunnel_inv_def)
  with results_good [OF assms(1,2)] show ?thesis by blast
qed

end

subsection \<open>Contexts of UDP peers\<close>

text \<open>The goroutine that handles the \<open>i\<close>-th datagram asks for the context of the address \<open>addr i\<close>.\<close>

definition udp_task :: "(nat \<Rightarrow> string) \<Rightarrow> nat \<Rightarrow> udp_table \<Rightarrow> nat \<times> udp_table" where
  "udp_task addr i = GetUdpNetContext (addr i)"

definition udp_expires :: "udp_table \<Rightarrow> udp_table \<Rightarrow> bool" where
  "udp_expires t t' \<longleftrightarrow> (\<exists>a. t' = udp_expire a t)"

definition context_of :: "string \<Rightarrow> nat \<Rightarrow> udp_table \<Rightarrow> bool" where
  "context_of a p t \<longleftrightarrow> (\<exists>ctx. udp_heap t p = Some ctx \<and> nc_peerAdrr ctx = a)"

lemma GetUdpNetContext_keeps:
  assumes "udp_inv t" and "GetUdpNetContext a t = (p, t')"
  shows "context_of b q t \<Longrightarrow> context_of b q t'" and "gUdpNetContext t b = Some q \<Longrightarrow> gUdpNetContext t' b = Some q"
  using assms by (auto simp: GetUdpNetContext_def context_of_def udp_inv_def split: option.splits)

lemma GetUdpNetContext_gives:
  assumes "udp_inv t" and "GetUdpNetContext a t = (p, t')"
  shows "udp_inv t' \<and> context_of a p t'"
  using udp_inv_get [OF assms(1), of a] GetUdpNetContext_cached [OF assms(2)] assms(2)
  by (auto simp: udp_inv_def context_of_def)

interpretation udp: tunnel_tasks "udp_task addr" udp_expires udp_inv "\<lambda>i. context_of (addr i)" for addr
proof unfold_locales
  fix s s' i r
  assume "udp_inv s" and "udp_task addr i s = (r, s')"
  then show "udp_inv s' \<and> context_of (addr i) r s'"
    using GetUdpNetContext_gives by (simp add: udp_task_def)
next
  fix s s' i r j q
  assume "udp_inv s" and "udp_task addr i s = (r, s')" and "context_of (addr j) q s"
  then show "context_of (addr j) q s'" using GetUdpNetContext_keeps(1) by (simp add: udp_task_def)
next
  fix s s'
  assume "udp_inv s" and "udp_expires s s'"
  then show "udp_inv s' \<and> (\<forall>j q. context_of (addr j) q s \<longrightarrow> context_of (addr j) q s')"
    using udp_inv_expire by (auto simp: udp_expires_def context_of_def udp_expire_def)
qed

text \<open>Without expiry a context stays in the table.\<close>

interpretation udp_fresh: tunnel_tasks "udp_task addr" "\<lambda>s s'. False" udp_inv "\<lambda>i p t. gUdpNetContext t (addr i) = Some p" for addr
proof unfold_locales
  fix s s' i r
  assume "udp_inv s" and "udp_task addr i s = (r, s')"
  then show "udp_inv s' \<and> gUdpNetContext s' (addr i) = Some r"
    using GetUdpNetContext_gives GetUdpNetContext_cached by (simp add: udp_task_def)
next
  fix s s' i r j q
  assume "udp_inv s" and "udp_task addr i s = (r, s')" and "gUdpNetContext s (addr j) = Some q"
  then show "gUdpNetContext s' (addr j) = Some q" using GetUdpNetContext_keeps(2) by (simp add: udp_task_def)
qed simp

subsection \<open>Properties\<close>

text \<open>
  C14: Datagrams handled at the same time: whatever the interleaving of the goroutines with each other, with the runner
  of the tunnel and with expiring entries, a call of \<open>GetUdpNetContext\<close> that has returned has given a context of the
  address it asked for.
\<close>

theorem udp_context_of_peer:
  assumes "(tunnel_step cap (udp_task addr) udp_expires)\<^sup>*\<^sup>* (tunnel_start empty_udp_table) t" and "tn_pc t i = TReturned"
  shows "\<exists>p. tn_result t i = Some p \<and> context_of (addr i) p (tn_state t)"
  by (rule udp.returned_good [OF assms(1) udp_inv_empty assms(2)])

text \<open>
  C13: As long as no entry expires, calls for the same address return one context, shared by all of them, and
  calls for different addresses return different ones.
\<close>

theorem udp_context_shared:
  assumes "(tunnel_step cap (udp_task addr) (\<lambda>s s'. False))\<^sup>*\<^sup>* (tunnel_start empty_udp_table) t"
    and "tn_pc t i = TReturned" and "tn_pc t j = TReturned"
  shows "tn_result t i \<noteq> None \<and> (tn_result t i = tn_result t j \<longleftrightarrow> addr i = addr j)"
proof -
  obtain p where p: "tn_result t i = Some p" "gUdpNetContext (tn_state t) (addr i) = Some p"
    using udp_fresh.returned_good [OF assms(1) udp_inv_empty assms(2)] by blast
  obtain q where q: "tn_result t j = Some q" "gUdpNetContext (tn_state t) (addr j) = Some q"
    using udp_fresh.returned_good [OF assms(1) udp_inv_empty assms(3)] by blast
  have "udp_inv (tn_state t)" using udp_fresh.results_good [OF assms(1) udp_inv_empty] by blast
  from p q udp_inv_distinct [OF this p(2), of "addr j"] show ?thesis by auto
qed

text \<open>A run in which one goroutine has its context.\<close>

lemma tunnel_run:
  assumes "0 < cap" and "exec i s = (r, s')"
  shows "(tunnel_step cap exec env)\<^sup>*\<^sup>* (tunnel_start s)
    \<lparr>tn_tasks = [], tn_runner = RIdle, tn_execOver = {}, tn_pc = (\<lambda>i. TSend)(i := TReturned), tn_state = s',
     tn_result = (\<lambda>i. None)(i \<mapsto> r), tn_done = [i]\<rparr>"
proof -
  let ?t = "\<lambda>q w ov pc s res d. \<lparr>tn_tasks = q, tn_runner = w, tn_execOver = ov, tn_pc = (\<lambda>i. TSend)(i := pc), tn_state = s,
     tn_result = (\<lambda>i. None)(i := res), tn_done = d\<rparr>"
  have "tunnel_step cap exec env (tunnel_start s) (?t [i] RIdle {} TWait s None [])"
    using tunnel_step.send [of "tunnel_start s" i cap exec env] assms(1) by (simp add: tunnel_start_def fun_upd_idem)
  moreover have "tunnel_step cap exec env (?t [i] RIdle {} TWait s None []) (?t [] (RTask i) {} TWait s None [])"
    using tunnel_step.take [of "?t [i] RIdle {} TWait s None []" i "[]" cap exec env] by simp
  moreover have "tunnel_step cap exec env (?t [] (RTask i) {} TWait s None []) (?t [] (ROver i) {} TWait s' (Some r) [i])"
    using tunnel_step.execute [of "?t [] (RTask i) {} TWait s None []" i exec r s' cap env] assms(2) by simp
  moreover have "tunnel_step cap exec env (?t [] (ROver i) {} TWait s' (Some r) [i]) (?t [] RIdle {i} TWait s' (Some r) [i])"
    using tunnel_step.over [of "?t [] (ROver i) {} TWait s' (Some r) [i]" i cap exec env] by simp
  moreover have "tunnel_step cap exec env (?t [] RIdle {i} TWait s' (Some r) [i]) (?t [] RIdle {} TReturned s' (Some r) [i])"
    using tunnel_step.return [of "?t [] RIdle {i} TWait s' (Some r) [i]" i cap exec env] by simp
  ultimately show ?thesis by (meson converse_rtranclp_into_rtranclp rtranclp.rtrancl_refl)
qed

theorem udp_context_of_peer_witness:
  "\<exists>t :: (udp_table, nat) tunnel. tn_pc t 3 = TReturned \<and> (\<exists>p. tn_result t 3 = Some p \<and> context_of ''1.2.3.4:5'' p (tn_state t))"
proof -
  obtain r s where "udp_task (\<lambda>i. ''1.2.3.4:5'') 3 empty_udp_table = (r, s)" by fastforce
  from tunnel_run [of 1 "udp_task (\<lambda>i. ''1.2.3.4:5'')", OF _ this, of udp_expires]
  have run: "(tunnel_step 1 (udp_task (\<lambda>i. ''1.2.3.4:5'')) udp_expires)\<^sup>*\<^sup>* (tunnel_start empty_udp_table)
    \<lparr>tn_tasks = [], tn_runner = RIdle, tn_execOver = {}, tn_pc = (\<lambda>i. TSend)(3 := TReturned), tn_state = s,
     tn_result = (\<lambda>i. None)(3 \<mapsto> r), tn_done = [3]\<rparr>" by simp
  from udp_context_of_peer [OF run, of 3] show ?thesis
    by (intro exI [of _ "\<lparr>tn_tasks = [], tn_runner = RIdle, tn_execOver = {}, tn_pc = (\<lambda>i. TSend)(3 := TReturned), tn_state = s,
     tn_result = (\<lambda>i. None)(3 \<mapsto> r), tn_done = [3]\<rparr>"]) simp
qed

theorem udp_context_shared_witness:
  "\<exists>t :: (udp_table, nat) tunnel. tn_pc t 3 = TReturned \<and> tn_result t 3 \<noteq> None \<and> tn_state t \<noteq> empty_udp_table"
proof -
  obtain r s where s: "udp_task (\<lambda>i. ''1.2.3.4:5'') 3 empty_udp_table = (r, s)" by fastforce
  from tunnel_run [of 1 "udp_task (\<lambda>i. ''1.2.3.4:5'')", OF _ this, of "\<lambda>s s'. False"]
  have run: "(tunnel_step 1 (udp_task (\<lambda>i. ''1.2.3.4:5'')) (\<lambda>s s'. False))\<^sup>*\<^sup>* (tunnel_start empty_udp_table)
    \<lparr>tn_tasks = [], tn_runner = RIdle, tn_execOver = {}, tn_pc = (\<lambda>i. TSend)(3 := TReturned), tn_state = s,
     tn_result = (\<lambda>i. None)(3 \<mapsto> r), tn_done = [3]\<rparr>" by simp
  have "s \<noteq> empty_udp_table"
    using s by (auto simp: udp_task_def GetUdpNetContext_def empty_udp_table_def)
  with udp_context_shared [OF run, of 3 3] show ?thesis
    by (intro exI [of _ "\<lparr>tn_tasks = [], tn_runner = RIdle, tn_execOver = {}, tn_pc = (\<lambda>i. TSend)(3 := TReturned), tn_state = s,
     tn_result = (\<lambda>i. None)(3 \<mapsto> r), tn_done = [3]\<rparr>"]) simp
qed

end
