(* ===== verification/Std_Path.thy ===== *)
theory Std_Path
  imports Std_Strings
begin

text \<open>What the repository uses of the package \<^verbatim>\<open>path\<close>: slash-separated paths.\<close>

subsection \<open>Clean and Base\<close>

text \<open>The parts of a path, with the parts kept so far in reverse.\<close>

fun clean_parts :: "bool \<Rightarrow> string list \<Rightarrow> string list \<Rightarrow> string list" where
  "clean_parts rooted st [] = rev st"
| "clean_parts rooted st (p # ps) =
     (if p = [] \<or> p = ''.'' then clean_parts rooted st ps
      else if p = ''..'' then
        (case st of
           [] \<Rightarrow> clean_parts rooted (if rooted then [] else [''..'']) ps
         | t # ts \<Rightarrow> clean_parts rooted (if t = ''..'' then ''..'' # st else ts) ps)
      else clean_parts rooted (p # st) ps)"

definition path_Clean :: "string \<Rightarrow> string" where
  "path_Clean s =
     (if s = [] then ''.''
      else let rooted = (hd s = CHR ''/''); ps = clean_parts rooted [] (Split (CHR ''/'') s) in
        if rooted then CHR ''/'' # Join ps ''/''
        else if ps = [] then ''.'' else Join ps ''/'')"

definition trim_slashes :: "string \<Rightarrow> string" where
  "trim_slashes s = rev (dropWhile (\<lambda>c. c = CHR ''/'') (rev s))"

definition path_Base :: "string \<Rightarrow> string" where
  "path_Base s =
     (if s = [] then ''.''
      else let t = trim_slashes s in if t = [] then ''/'' else last (Split (CHR ''/'') t))"

subsection \<open>Clean rooted paths have plain parts only\<close>

definition plain_part :: "string \<Rightarrow> bool" where
  "plain_part p \<longleftrightarrow> p \<noteq> [] \<and> p \<noteq> ''.'' \<and> p \<noteq> ''..'' \<and> CHR ''/'' \<notin> set p"

lemma clean_parts_plain:
  "list_all plain_part st \<Longrightarrow> \<forall>p \<in> set ps. CHR ''/'' \<notin> set p \<Longrightarrow> list_all plain_part (clean_parts True st ps)"
proof (induction ps arbitrary: st)
  case (Cons p ps)
  then show ?case by (cases st) (auto simp: plain_part_def)
qed (auto simp: list_all_iff)

lemma clean_parts_snoc: "clean_parts rooted st (ps @ [[]]) = clean_parts rooted st ps"
  by (induction ps arbitrary: st) (auto split: list.splits)

definition rooted_name :: "string \<Rightarrow> bool" where
  "rooted_name n \<longleftrightarrow> (\<exists>ps. n = CHR ''/'' # Join ps ''/'' \<and> list_all plain_part ps)"

lemma path_Clean_rooted: "path_Clean (CHR ''/'' # s) = CHR ''/'' # Join (clean_parts True [] (Split (CHR ''/'') s)) ''/''"
  by (simp add: path_Clean_def Let_def)

lemma rooted_Clean: "rooted_name (path_Clean (CHR ''/'' # s))"
  unfolding path_Clean_rooted rooted_name_def
  by (intro exI conjI, rule refl, rule clean_parts_plain) (auto dest: Split_no_sep)

lemma Split_snoc: "Split d (s @ [d]) = Split d s @ [[]]"
  by (induction s) (auto split: list.splits)

lemma path_Clean_snoc: "path_Clean (CHR ''/'' # s @ ''/'') = path_Clean (CHR ''/'' # s)"
  by (simp add: path_Clean_rooted Split_snoc clean_parts_snoc)

lemma Join_snoc: "ps \<noteq> [] \<Longrightarrow> Join (ps @ [q]) sep = Join ps sep @ sep @ q"
  by (induction ps sep rule: Join.induct) auto

lemma Join_last_plain:
  "list_all plain_part ps \<Longrightarrow> ps \<noteq> [] \<Longrightarrow> Join ps ''/'' \<noteq> [] \<and> last (Join ps ''/'') \<noteq> CHR ''/''"
proof (induction ps rule: rev_induct)
  case (snoc q ps)
  then have q: "q \<noteq> []" "last q \<noteq> CHR ''/''" by (auto simp: plain_part_def dest: last_in_set)
  with snoc show ?case by (cases "ps = []") (auto simp: Join_snoc)
qed simp

text \<open>The last part of a path, and what stands before it.\<close>

lemma Split_last_part: "\<exists>dir. s = dir @ last (Split d s) \<and> (dir = [] \<or> last dir = d)"
proof -
  obtain qs q where q: "Split d s = qs @ [q]" by (metis Split_not_Nil append_butlast_last_id)
  show ?thesis
  proof (cases "qs = []")
    case True
    with q have "s = q" using Join_Split [of d s] by simp
    with q show ?thesis by simp
  next
    case False
    with q have "s = (Join qs [d] @ [d]) @ q" using Join_Split [of d s] by (simp add: Join_snoc)
    with q show ?thesis by (metis last_snoc)
  qed
qed

end
