(* ===== verification/Std_Net.thy ===== *)
theory Std_Net
  imports Std_Strings
begin

text \<open>
  What the repository uses of the package \<^verbatim>\<open>net\<close>: the parts of an address \<open>host:port\<close>, and the 64-bit
  integers of durations and clocks.
\<close>

subsection \<open>Signed 64-bit integers\<close>

definition i64 :: "int \<Rightarrow> int" where
  "i64 x = signed_take_bit 63 x"

lemma i64_id: "- (2 ^ 63) \<le> x \<Longrightarrow> x < 2 ^ 63 \<Longrightarrow> i64 x = x"
  by (simp add: i64_def signed_take_bit_int_eq_self)

subsection \<open>Addresses\<close>

definition split_last :: "char \<Rightarrow> string \<Rightarrow> (string \<times> string) option" where
  "split_last d s = map_option (\<lambda>(a, b). (rev b, rev a)) (Cut d (rev s))"

definition SplitHostPort :: "string \<Rightarrow> (string \<times> string) outcome" where
  "SplitHostPort hostport =
     (let addrErr = (\<lambda>why. Err (Errorf why [AStr hostport])) in
      case split_last (CHR '':'') hostport of
        None \<Rightarrow> addrErr ''missing port in address''
      | Some (before, port) \<Rightarrow>
          if take 1 hostport = ''['' then
            (case Cut (CHR '']'') hostport of
               None \<Rightarrow> addrErr ''missing ']' in address''
             | Some (h, after) \<Rightarrow>
                 if after = [] then addrErr ''missing port in address''
                 else if after \<noteq> CHR '':'' # port then
                   (if take 1 after = '':'' then addrErr ''too many colons in address''
                    else addrErr ''missing port in address'')
                 else if CHR ''['' \<in> set (tl hostport) then addrErr ''unexpected '[' in address''
                 else if CHR '']'' \<in> set after then addrErr ''unexpected ']' in address''
                 else Ok (tl h, port))
          else if CHR '':'' \<in> set before then addrErr ''too many colons in address''
          else if CHR ''['' \<in> set hostport then addrErr ''unexpected '[' in address''
          else if CHR '']'' \<in> set hostport then addrErr ''unexpected ']' in address''
          else Ok (before, port))"

lemma split_last_append: "d \<notin> set t \<Longrightarrow> split_last d (s @ d # t) = Some (s, t)"
  by (simp add: split_last_def Cut_append)

lemma SplitHostPort_plain:
  assumes "set h \<inter> {CHR '':'', CHR ''['', CHR '']''} = {}" and "set p \<inter> {CHR '':'', CHR ''['', CHR '']''} = {}"
  shows "SplitHostPort (h @ CHR '':'' # p) = Ok (h, p)"
proof -
  have "split_last (CHR '':'') (h @ CHR '':'' # p) = Some (h, p)"
    using assms(2) by (intro split_last_append) auto
  moreover have "take 1 (h @ CHR '':'' # p) \<noteq> ''[''" using assms(1) by (cases h) auto
  ultimately show ?thesis using assms by (auto simp: SplitHostPort_def)
qed

lemma FormatInt_plain: "c \<in> set (FormatInt i) \<Longrightarrow> digit_val c \<noteq> None \<or> c = CHR ''-''"
  using dec_of_nat_digits by (auto simp: FormatInt_def split: if_splits)

end
