(* ===== verification/Std_Regexp.thy ===== *)
theory Std_Regexp
  imports Std_Strings
begin

text \<open>
  The replacements of \<^verbatim>\<open>package regexp\<close> with the expressions the repository uses. An expression is given by
  its matcher: the length of the match at the start of a text, which is never empty for these
  expressions. Matches are taken from the left and do not overlap; what replaces them is not
  scanned again.
\<close>

type_synonym matcher = "string \<Rightarrow> nat option"

text \<open>A text cut into its matches and the characters between them.\<close>

datatype fragment = Plain char | Match string

function fragments :: "matcher \<Rightarrow> string \<Rightarrow> fragment list" where
  "fragments m s =
     (case s of
        [] \<Rightarrow> []
      | c # cs \<Rightarrow>
          (case m s of
             Some (Suc n) \<Rightarrow> Match (take (Suc n) s) # fragments m (drop (Suc n) s)
           | _ \<Rightarrow> Plain c # fragments m cs))"
  by pat_completeness auto
termination
  by (relation "measure (\<lambda>(m, s). length s)") auto

declare fragments.simps [simp del]

text \<open>\<open>ReplaceAllString\<close> with a replacement in which no dollar sign refers to a group.\<close>

fun fragment_text :: "string \<Rightarrow> fragment \<Rightarrow> string" where
  "fragment_text r (Plain c) = [c]"
| "fragment_text r (Match w) = r"

definition ReplaceAllString :: "matcher \<Rightarrow> string \<Rightarrow> string \<Rightarrow> string" where
  "ReplaceAllString m src repl = concat (map (fragment_text repl) (fragments m src))"

text \<open>\<open>ReplaceAllStringFunc\<close>; the function may panic.\<close>

fun replace_fragments :: "(string \<Rightarrow> string outcome) \<Rightarrow> fragment list \<Rightarrow> string outcome" where
  "replace_fragments f [] = Ok []"
| "replace_fragments f (Plain c # xs) = obind (replace_fragments f xs) (\<lambda>t. Ok (c # t))"
| "replace_fragments f (Match w # xs) =
     obind (f w) (\<lambda>r. obind (replace_fragments f xs) (\<lambda>t. Ok (r @ t)))"

definition ReplaceAllStringFunc :: "matcher \<Rightarrow> string \<Rightarrow> (string \<Rightarrow> string outcome) \<Rightarrow> string outcome" where
  "ReplaceAllStringFunc m src f = replace_fragments f (fragments m src)"

subsection \<open>Matchers\<close>

text \<open>\<^verbatim>\<open>\w\<close>.\<close>

definition word_char :: "char \<Rightarrow> bool" where
  "word_char c = (let n = of_char c :: nat in
     (48 \<le> n \<and> n \<le> 57) \<or> (65 \<le> n \<and> n \<le> 90) \<or> (97 \<le> n \<and> n \<le> 122) \<or> c = CHR ''_'')"

text \<open>
  A literal text of word characters after \<^verbatim>\<open>(?i)\<close>. A letter stands for both its cases; \<open>s\<close> for the
  long s (U+017F) and \<open>k\<close> for the Kelvin sign (U+212A) too, which are two and three bytes of UTF-8.
\<close>

definition fold_char :: "char \<Rightarrow> string \<Rightarrow> nat option" where
  "fold_char c s =
     (case s of
        [] \<Rightarrow> None
      | d # t \<Rightarrow>
          if lower_char d = lower_char c then Some 1
          else if lower_char c = CHR ''s'' \<and> take 2 s = [CHR 0xC5, CHR 0xBF] then Some 2
          else if lower_char c = CHR ''k'' \<and> take 3 s = [CHR 0xE2, CHR 0x84, CHR 0xAA] then Some 3
          else None)"

fun match_fold :: "string \<Rightarrow> matcher" where
  "match_fold [] s = Some 0"
| "match_fold (c # p) s =
     (case fold_char c s of
        None \<Rightarrow> None
      | Some n \<Rightarrow> map_option ((+) n) (match_fold p (drop n s)))"

subsection \<open>Lemmas\<close>

lemma fragments_Nil [simp]: "fragments m [] = []"
  by (simp add: fragments.simps)

lemma fragments_plain: "m (c # s) = None \<Longrightarrow> fragments m (c # s) = Plain c # fragments m s"
  by (simp add: fragments.simps [of m "c # s"])

lemma fragments_match:
  assumes "m (w @ s) = Some (length w)" "w \<noteq> []"
  shows "fragments m (w @ s) = Match w # fragments m s"
proof -
  obtain c w' where "w = c # w'" using assms(2) by (cases w) auto
  then show ?thesis using assms(1) by (subst fragments.simps) simp
qed

lemma fragments_plain_append:
  "(\<And>a b. t = a @ b \<Longrightarrow> b \<noteq> [] \<Longrightarrow> m (b @ s) = None) \<Longrightarrow> fragments m (t @ s) = map Plain t @ fragments m s"
proof (induction t)
  case (Cons c t)
  have "m ((c # t) @ s) = None" using Cons.prems [of "[]" "c # t"] by simp
  moreover have "m (b @ s) = None" if "t = a @ b" "b \<noteq> []" for a b
    using Cons.prems [of "c # a" b] that by simp
  ultimately show ?case using Cons.IH by (simp add: fragments_plain)
qed simp

lemma replace_fragments_plain:
  "replace_fragments f (map Plain t @ xs) = obind (replace_fragments f xs) (\<lambda>u. Ok (t @ u))"
proof (induction t)
  case Nil
  show ?case by (cases "replace_fragments f xs") auto
next
  case (Cons c t)
  then show ?case by (cases "replace_fragments f xs") auto
qed

lemma concat_fragment_text_plain [simp]: "concat (map (fragment_text r) (map Plain t)) = t"
  by (induction t) auto

lemma ReplaceAllString_plain_append:
  assumes "\<And>a b. t = a @ b \<Longrightarrow> b \<noteq> [] \<Longrightarrow> m (b @ s) = None"
  shows "ReplaceAllString m (t @ s) r = t @ ReplaceAllString m s r"
  using fragments_plain_append [of t m s] assms
  by (simp add: ReplaceAllString_def del: map_map)

lemma ReplaceAllString_match:
  "m (w @ s) = Some (length w) \<Longrightarrow> w \<noteq> [] \<Longrightarrow> ReplaceAllString m (w @ s) r = r @ ReplaceAllString m s r"
  by (simp add: ReplaceAllString_def fragments_match)

lemma word_char_ascii: "word_char c \<Longrightarrow> of_char c < (128 :: nat)"
  by (auto simp: word_char_def Let_def)

lemma match_fold_self: "match_fold p (p @ s) = Some (length p)"
  by (induction p) (auto simp: fold_char_def)

end
