(* ===== verification/Common_Utils.thy ===== *)
theory Common_Utils
  imports Std_Regexp Std_Md5 "HOL-Library.Multiset"
begin

text \<open>
  The pure helpers of \<^verbatim>\<open>common/utils.go\<close>, and the task runners of \<^verbatim>\<open>common/tunneltask.go\<close> and
  \<^verbatim>\<open>common/syncaction.go\<close>.
\<close>

subsection \<open>Text and numbers\<close>

definition StrToInt64 :: "string \<Rightarrow> int \<Rightarrow> int" where
  "StrToInt64 s defV =
     (if s = [] then defV else case ParseInt 64 s of Ok v \<Rightarrow> v | _ \<Rightarrow> defV)"

definition CalcDataMd5 :: "bytes \<Rightarrow> string" where
  "CalcDataMd5 data = hex_of_bytes (md5 data)"

text \<open>\<open>CHR 0x5C\<close> is the backslash; \<open>sep\<close> is the separator of the operating system.\<close>

definition ToOSPath :: "char \<Rightarrow> string \<Rightarrow> string" where
  "ToOSPath sep path =
     (if sep = CHR ''/'' then ReplaceChar (CHR 0x5C) ''/'' path
      else ReplaceChar (CHR ''/'') [CHR 0x5C] path)"

definition CheckArgsSize :: "string list \<Rightarrow> int \<Rightarrow> unit outcome" where
  "CheckArgsSize args n =
     (if int (length args) \<noteq> n
      then Panic (PErr (Errorf ''arg  <<%s>> size not equal %d'' [AStr (Join args '' ''), AInt n]))
      else Ok ())"

definition SSContains :: "(string \<Rightarrow> string) \<Rightarrow> string list \<Rightarrow> string \<Rightarrow> bool" where
  "SSContains uni a x = list_ex (\<lambda>n. ToLower uni n = ToLower uni x) a"

text \<open>\<open>CopyMap\<close> ranges over \<open>src\<close> in the order \<open>ks\<close>.\<close>

fun CopyMap :: "'k list \<Rightarrow> ('k \<rightharpoonup> 'v) \<Rightarrow> ('k \<rightharpoonup> 'v) \<Rightarrow> ('k \<rightharpoonup> 'v)" where
  "CopyMap [] src dest = dest"
| "CopyMap (k # ks) src dest = CopyMap ks src (dest(k := src k))"

subsection \<open>Variables in text\<close>

text \<open>
  The expressions: the opening \<open>pre\<close>, a name of word characters, two closing braces.
\<close>

definition match_var :: "string \<Rightarrow> matcher" where
  "match_var pre s =
     (if take (length pre) s \<noteq> pre then None
      else let t = drop (length pre) s; w = takeWhile word_char t; r = dropWhile word_char t in
        if w \<noteq> [] \<and> take 2 r = ''}}'' then Some (length pre + length w + 2) else None)"

text \<open>\<^verbatim>\<open>s[n:len(s)-2]\<close>.\<close>

definition cut_name :: "nat \<Rightarrow> string \<Rightarrow> string outcome" where
  "cut_name n s = obind (slice_to (length s - 2) s) (slice_from n)"

text \<open>A context, and a \<open>GetVarValueProc\<close>, is given by the printed values it finds.\<close>

definition var_text :: "(string \<Rightarrow> string option) \<Rightarrow> string \<Rightarrow> string" where
  "var_text f varName = (case f varName of Some v \<Rightarrow> v | None \<Rightarrow> [])"

definition ExpandVarExpr :: "string \<Rightarrow> (string \<Rightarrow> string option) \<Rightarrow> string outcome" where
  "ExpandVarExpr expr context =
     ReplaceAllStringFunc (match_var ''{{.'') expr (\<lambda>repl.
       obind (cut_name 3 repl) (\<lambda>varName. Ok (var_text context varName)))"

text \<open>The interface \<open>IVarReExpr\<close>, and the one implementation of it.\<close>

record IVarReExpr =
  ParseVarName :: "string \<Rightarrow> string outcome"
  GetRegexpr :: matcher

definition vre2 :: IVarReExpr where
  "vre2 = \<lparr>ParseVarName = cut_name 4, GetRegexpr = match_var ''${{.''\<rparr>"

definition GetVarReExpr :: "int \<Rightarrow> IVarReExpr" where
  "GetVarReExpr vetype = vre2"

definition ExpandVarExprEx :: "IVarReExpr \<Rightarrow> string \<Rightarrow> (string \<Rightarrow> string option) \<Rightarrow> string outcome" where
  "ExpandVarExprEx varExpr expr f =
     ReplaceAllStringFunc (GetRegexpr varExpr) expr (\<lambda>repl.
       obind (ParseVarName varExpr repl) (\<lambda>varName. Ok (var_text f varName)))"

subsection \<open>Shuffling\<close>

definition swapSliceItem :: "'a list \<Rightarrow> nat \<Rightarrow> nat \<Rightarrow> 'a list" where
  "swapSliceItem sl a b = sl[a := sl ! b, b := sl ! a]"

text \<open>
  One round of the loop: \<open>acc\<close> is the filled part of \<open>shuffleSlice\<close>, \<open>rnd i\<close> the \<open>i\<close>-th value of
  \<open>rand.Int()\<close>, which is never negative.
\<close>

definition shuffle_round :: "(nat \<Rightarrow> nat) \<Rightarrow> 'a list \<times> nat \<Rightarrow> 'a \<Rightarrow> 'a list \<times> nat" where
  "shuffle_round rnd st x =
     (let (acc, i) = st; n = length acc; acc = acc @ [x] in
      if n = 0 then (acc, i)
      else let (acc, i) = (if n = 1
                 then (if rnd i mod 2 = 0 then swapSliceItem acc 0 1 else acc, i + 1) else (acc, i));
               k = rnd i mod n
        in (swapSliceItem acc k n, i + 1))"

definition ShuffleInterfaceSlice :: "(nat \<Rightarrow> nat) \<Rightarrow> 'a list \<Rightarrow> 'a list" where
  "ShuffleInterfaceSlice rnd sl =
     (if length sl \<le> 1 then sl else fst (foldl (shuffle_round rnd) ([], 0) sl))"

subsection \<open>Task runners\<close>

text \<open>
  \<open>RunTunnelTasks\<close> over the tasks it receives: the tasks run, and whether the process is still
  alive. The deferred function first releases the caller, then recovers; \<open>LogError\<close> asserts that
  the recovered value is an error and panics otherwise.
\<close>

fun RunTunnelTasks :: "('t \<Rightarrow> unit outcome) \<Rightarrow> 't list \<Rightarrow> 't list \<times> bool" where
  "RunTunnelTasks exec [] = ([], True)"
| "RunTunnelTasks exec (t # ts) =
     (case exec t of
        Panic (PStr s args) \<Rightarrow> ([t], False)
      | _ \<Rightarrow> let (done, alive) = RunTunnelTasks exec ts in (t # done, alive))"

text \<open>
  \<open>SyncAction.serve\<close> over the tasks in its channel: the tasks run, and whether the goroutine still
  serves. Its recovery is outside the loop.
\<close>

fun SyncAction_serve :: "('t \<Rightarrow> unit outcome) \<Rightarrow> 't list \<Rightarrow> 't list \<times> bool" where
  "SyncAction_serve exec [] = ([], True)"
| "SyncAction_serve exec (t # ts) =
     (case exec t of
        Panic p \<Rightarrow> ([t], False)
      | _ \<Rightarrow> let (done, alive) = SyncAction_serve exec ts in (t # done, alive))"

subsection \<open>Lemmas\<close>

lemma CopyMap_eq: "distinct ks \<Longrightarrow> set ks = dom src \<Longrightarrow> CopyMap ks src dest = dest ++ src"
proof -
  have "CopyMap ks src dest k = (if k \<in> set ks then src k else dest k)" for k
    by (induction ks arbitrary: dest) auto
  moreover assume "set ks = dom src"
  ultimately show ?thesis by (auto simp: fun_eq_iff map_add_def domIff split: option.splits)
qed

text \<open>
  A template: plain pieces, in which the opening does not occur and no two of which are
  neighbours, and variables.
\<close>

datatype piece = Lit string | Var string

fun piece_ok :: "string \<Rightarrow> piece \<Rightarrow> bool" where
  "piece_ok pre (Lit t) = (\<not> sublist pre t)"
| "piece_ok pre (Var v) = (v \<noteq> [] \<and> list_all word_char v)"

fun template :: "string \<Rightarrow> piece list \<Rightarrow> bool" where
  "template pre (Lit t # Lit u # ps) = False"
| "template pre (p # ps) = (piece_ok pre p \<and> template pre ps)"
| "template pre [] = True"

fun render :: "string \<Rightarrow> piece \<Rightarrow> string" where
  "render pre (Lit t) = t"
| "render pre (Var v) = pre @ v @ ''}}''"

fun subst :: "(string \<Rightarrow> string option) \<Rightarrow> piece \<Rightarrow> string" where
  "subst lookup (Lit t) = t"
| "subst lookup (Var v) = var_text lookup v"

text \<open>The openings do not overlap themselves, so none begins in a plain piece and ends in what follows.\<close>

definition no_border :: "string \<Rightarrow> bool" where
  "no_border pre = (pre \<noteq> [] \<and> (\<forall>k \<in> set [1..<length pre]. drop k pre \<noteq> take (length pre - k) pre))"

lemma openings_no_border: "no_border ''{{.''" "no_border ''${{.''"
  by (simp_all add: no_border_def upt_rec)

lemma match_var_lit:
  assumes "\<not> sublist pre b" "b \<noteq> []" "no_border pre" "s = [] \<or> take (length pre) s = pre"
  shows "match_var pre (b @ s) = None"
proof -
  have "take (length pre) (b @ s) \<noteq> pre"
  proof
    assume p: "take (length pre) (b @ s) = pre"
    show False
    proof (cases "length pre \<le> length b")
      case True
      then have "take (length pre) b = pre" using p by simp
      then have "sublist pre b" by (metis sublist_take)
      with assms(1) show False by simp
    next
      case False
      let ?k = "length b"
      have b: "pre = b @ take (length pre - ?k) s" using p False by simp
      show False using assms(4)
      proof
        assume "s = []"
        with b False show False by simp
      next
        assume s: "take (length pre) s = pre"
        have "take (length pre - ?k) s = take (length pre - ?k) pre"
          by (subst s [symmetric]) (simp add: min_def)
        then have "drop ?k pre = take (length pre - ?k) pre" using b by (metis append_eq_conv_conj)
        moreover have "?k \<in> set [1..<length pre]" using False assms(2) by (cases b) auto
        ultimately show False using assms(3) by (auto simp: no_border_def)
      qed
    qed
  qed
  then show ?thesis by (simp add: match_var_def)
qed

lemma match_var_var:
  assumes "v \<noteq> []" "list_all word_char v"
  shows "match_var pre ((pre @ v @ ''}}'') @ s) = Some (length (pre @ v @ ''}}''))"
proof -
  have nw: "\<not> word_char (CHR ''}'')" by (simp add: word_char_def)
  have tw: "takeWhile word_char (v @ ''}}'' @ s) = v" "dropWhile word_char (v @ ''}}'' @ s) = ''}}'' @ s"
    using assms(2) nw by (induction v) auto
  then show ?thesis using assms(1) by (simp add: match_var_def)
qed

lemma cut_name_var: "n = length pre \<Longrightarrow> cut_name n (pre @ v @ ''}}'') = Ok v"
  by (simp add: cut_name_def slice_to_def slice_from_def)

lemma sublist_suffix: "\<not> sublist x (a @ b) \<Longrightarrow> \<not> sublist x b"
  unfolding sublist_def by (metis append.assoc)

lemma template_Cons:
  assumes "template pre (p # ps)"
  shows "template pre ps" and "piece_ok pre p" and "p = Lit t \<Longrightarrow> ps = [] \<or> (\<exists>v qs. ps = Var v # qs)"
  using assms by (cases "(pre, p # ps)" rule: template.cases; cases ps; auto)+

lemma replace_template:
  assumes "no_border pre" "template pre ps"
    and "\<And>v. f (pre @ v @ ''}}'') = Ok (var_text lookup v)"
  shows "ReplaceAllStringFunc (match_var pre) (concat (map (render pre) ps)) f =
    Ok (concat (map (subst lookup) ps))"
  using assms(2)
proof (induction ps)
  case Nil
  show ?case by (simp add: ReplaceAllStringFunc_def)
next
  case (Cons p ps)
  let ?s = "concat (map (render pre) ps)"
  have IH: "replace_fragments f (fragments (match_var pre) ?s) = Ok (concat (map (subst lookup) ps))"
    using Cons.IH [OF template_Cons(1) [OF Cons.prems]] by (simp add: ReplaceAllStringFunc_def)
  show ?case
  proof (cases p)
    case (Lit t)
    then have t: "\<not> sublist pre t" using template_Cons(2) [OF Cons.prems] by simp
    have "?s = [] \<or> take (length pre) ?s = pre"
      using template_Cons(3) [OF Cons.prems Lit] by auto
    then have "match_var pre (b @ ?s) = None" if "t = a @ b" "b \<noteq> []" for a b
      using match_var_lit [OF _ that(2) assms(1)] t that(1) sublist_suffix by metis
    then have "fragments (match_var pre) (t @ ?s) = map Plain t @ fragments (match_var pre) ?s"
      by (rule fragments_plain_append)
    then show ?thesis by (simp add: Lit ReplaceAllStringFunc_def replace_fragments_plain IH)
  next
    case (Var v)
    then have v: "v \<noteq> []" "list_all word_char v" using template_Cons(2) [OF Cons.prems] by simp_all
    have "fragments (match_var pre) ((pre @ v @ ''}}'') @ ?s) =
        Match (pre @ v @ ''}}'') # fragments (match_var pre) ?s"
      using match_var_var [OF v] by (intro fragments_match) simp_all
    then show ?thesis by (simp add: Var ReplaceAllStringFunc_def assms(3) IH)
  qed
qed

lemma mset_swapSliceItem: "a < length sl \<Longrightarrow> b < length sl \<Longrightarrow> mset (swapSliceItem sl a b) = mset sl"
  by (simp add: swapSliceItem_def mset_swap)

lemma length_swapSliceItem [simp]: "length (swapSliceItem sl a b) = length sl"
  by (simp add: swapSliceItem_def)

lemma shuffle_round_mset: "mset (fst (shuffle_round rnd (acc, i) x)) = mset acc + {#x#}"
proof -
  have "rnd j mod length acc < Suc (length acc)" if "acc \<noteq> []" for j
    using that by (metis length_greater_0_conv less_SucI mod_less_divisor)
  then show ?thesis
    by (auto simp: shuffle_round_def Let_def mset_swapSliceItem split: prod.splits if_splits)
qed

lemma length_shuffle_round [simp]: "length (fst (shuffle_round rnd (acc, i) x)) = Suc (length acc)"
  by (auto simp: shuffle_round_def Let_def split: prod.splits if_splits)

lemma shuffle_fold:
  "mset (fst (foldl (shuffle_round rnd) (acc, i) xs)) = mset acc + mset xs \<and>
   length (fst (foldl (shuffle_round rnd) (acc, i) xs)) = length acc + length xs"
proof (induction xs arbitrary: acc i)
  case (Cons x xs)
  obtain acc' i' where r: "shuffle_round rnd (acc, i) x = (acc', i')" by fastforce
  then have "mset acc' = mset acc + {#x#}" "length acc' = Suc (length acc)"
    using shuffle_round_mset [of rnd acc i x] length_shuffle_round [of rnd acc i x] by simp_all
  with Cons r show ?case by simp
qed simp

text \<open>From the third round on, the element brought in is swapped to an earlier place.\<close>

lemma shuffle_round_moves:
  assumes "2 \<le> length acc" "x \<notin> set acc"
  shows "last (fst (shuffle_round rnd (acc, i) x)) \<noteq> x"
proof -
  let ?k = "rnd i mod length acc"
  have k: "?k < length acc" using assms(1) by (intro mod_less_divisor) linarith
  have ne: "length acc \<noteq> 0" "length acc \<noteq> 1" using assms(1) by auto
  have "fst (shuffle_round rnd (acc, i) x) = swapSliceItem (acc @ [x]) ?k (length acc)"
    using ne by (simp add: shuffle_round_def Let_def)
  also have "last \<dots> = acc ! ?k"
    using k by (simp add: swapSliceItem_def last_conv_nth nth_list_update nth_append)
  finally show ?thesis using assms(2) k nth_mem by metis
qed

subsection \<open>Properties\<close>

text \<open>
  Whatever the random numbers, shuffling returns a rearrangement of the slice. It is not a
  uniform one: in a slice of three or more different items the last never stays last.
\<close>

theorem Shuffle_permutes:
  assumes "2 \<le> length xs" and "x \<notin> set xs"
  shows "mset (ShuffleInterfaceSlice rnd (xs @ [x])) = mset (xs @ [x]) \<and>
         last (ShuffleInterfaceSlice rnd (xs @ [x])) \<noteq> x"
proof -
  obtain acc i where f: "foldl (shuffle_round rnd) ([], 0) xs = (acc, i)" by fastforce
  have acc: "mset acc = mset xs" "length acc = length xs"
    using shuffle_fold [of rnd "[]" 0 xs] f by simp_all
  have e: "ShuffleInterfaceSlice rnd (xs @ [x]) = fst (shuffle_round rnd (acc, i) x)"
    using assms(1) f by (auto simp: ShuffleInterfaceSlice_def)
  show ?thesis unfolding e
    using shuffle_round_mset [of rnd acc i x] shuffle_round_moves [of acc x rnd i] acc assms
    by (metis mset_append mset_single_iff_right set_mset_mset mset.simps add_mset_add_single)
qed

theorem Shuffle_permutes_witness:
  "last (ShuffleInterfaceSlice (\<lambda>i. 7 * i + 3) ([1, 2] @ [3 :: int])) \<noteq> 3"
  using Shuffle_permutes [of "[1, 2 :: int]" 3 "\<lambda>i. 7 * i + 3"] by simp

text \<open>
  C36: Take a text made of variables and of plain pieces that do not contain the opening of a
  variable, no two plain pieces side by side. Expanding it replaces every variable by its printed
  value, or by nothing when it has none, leaves the plain pieces as they are, does not expand the
  values again, and never panics in slicing the name out of the match. The opening is \<^verbatim>\<open>{{.\<close> for
  \<open>ExpandVarExpr\<close>; for \<open>ExpandVarExprEx\<close> with the expression of \<open>GetVarReExpr\<close>, whatever type is
  asked for, it is \<^verbatim>\<open>${{.\<close>, so a variable in the notation its comment gives is left as it is.
\<close>

theorem ExpandVarExpr_template:
  assumes "template ''{{.'' ps" and "template ''${{.'' qs" and "v \<noteq> []" and "list_all word_char v"
  shows "ExpandVarExpr (concat (map (render ''{{.'') ps)) lookup = Ok (concat (map (subst lookup) ps)) \<and>
    ExpandVarExprEx (GetVarReExpr vetype) (concat (map (render ''${{.'') qs)) lookup =
      Ok (concat (map (subst lookup) qs)) \<and>
    ExpandVarExprEx (GetVarReExpr vetype) (''{{.'' @ v @ ''}}'') lookup = Ok (''{{.'' @ v @ ''}}'')"
proof -
  have ex: "ExpandVarExprEx (GetVarReExpr vetype) (concat (map (render ''${{.'') xs)) lookup =
      Ok (concat (map (subst lookup) xs))" if "template ''${{.'' xs" for xs
    unfolding ExpandVarExprEx_def GetVarReExpr_def vre2_def IVarReExpr.select_convs
    by (rule replace_template [OF openings_no_border(2) that]) (simp add: cut_name_var del: append.simps)
  have "CHR ''$'' \<notin> set (''{{.'' @ v @ ''}}'')"
    using assms(4) by (auto simp: list_all_iff word_char_def)
  then have "template ''${{.'' [Lit (''{{.'' @ v @ ''}}'')]"
    by (auto dest!: set_mono_sublist)
  from ex [OF this] have "ExpandVarExprEx (GetVarReExpr vetype) (''{{.'' @ v @ ''}}'') lookup = Ok (''{{.'' @ v @ ''}}'')"
    by simp
  moreover have "ExpandVarExpr (concat (map (render ''{{.'') ps)) lookup = Ok (concat (map (subst lookup) ps))"
    unfolding ExpandVarExpr_def
    by (rule replace_template [OF openings_no_border(1) assms(1)]) (simp add: cut_name_var del: append.simps)
  ultimately show ?thesis using ex [OF assms(2)] by blast
qed

theorem ExpandVarExpr_template_witness:
  "ExpandVarExpr ''{a={{.x}};{{.y}}'' (\<lambda>v. if v = ''x'' then Some ''{{.y}}'' else None) = Ok ''{a={{.y}};'' \<and>
   ExpandVarExprEx (GetVarReExpr 0) ''${{.x}}'' (\<lambda>v. Some ''1'') = Ok ''1''"
  using ExpandVarExpr_template [of "[Lit ''{a='', Var ''x'', Lit '';'', Var ''y'']" "[]" "''x''"
      "\<lambda>v. if v = ''x'' then Some ''{{.y}}'' else None"]
   ExpandVarExpr_template [of "[]" "[Var ''x'']" "''x''" "\<lambda>v. Some ''1''" 0]
  by (simp add: word_char_def var_text_def sublist_code)

text \<open>
  A task that panics is the last one \<open>SyncAction.serve\<close> runs: every task behind it in the channel
  is never executed, whereas \<open>RunTunnelTasks\<close> goes on after a panic with an error.
\<close>

theorem SyncAction_dies:
  assumes "list_all (\<lambda>t. \<not> panics (exec t)) ts" and "exec t = Panic (PErr e)"
  shows "SyncAction_serve exec (ts @ t # us) = (ts @ [t], False) \<and>
         (list_all (\<lambda>u. \<forall>s a. exec u \<noteq> Panic (PStr s a)) us \<longrightarrow>
          RunTunnelTasks exec (ts @ t # us) = (ts @ t # us, True))"
proof -
  have "RunTunnelTasks exec us = (us, True)" if "list_all (\<lambda>u. \<forall>s a. exec u \<noteq> Panic (PStr s a)) us" for us
    using that by (induction us) (auto split: outcome.splits gpanic.splits)
  then show ?thesis
    using assms by (induction ts) (auto split: outcome.splits)
qed

theorem SyncAction_dies_witness:
  "SyncAction_serve (\<lambda>n. if n = 2 then index_panic else Ok ()) [1, 2, 3 :: nat] = ([1, 2], False) \<and>
   RunTunnelTasks (\<lambda>n. if n = 2 then index_panic else Ok ()) [1, 2, 3 :: nat] = ([1, 2, 3], True)"
  using SyncAction_dies [of "\<lambda>n. if n = 2 then index_panic else Ok ()" "[1]" "2 :: nat"
      "RuntimeError ''index out of range''" "[3]"] by simp

end
