(* ===== verification/Web_Values.thy ===== *)
theory Web_Values
  imports Std_Url Std_Net Common_Utils
begin

text \<open>
  \<^verbatim>\<open>netutils/urlvalues.go\<close>, \<^verbatim>\<open>netutils/common.go\<close>, \<^verbatim>\<open>netutils/httpreply.go\<close>, \<^verbatim>\<open>netutils/httputils.go\<close>,
  \<^verbatim>\<open>netutils/proxyaddr.go\<close> and the address of \<^verbatim>\<open>netutils/httpclient.go\<close>: request parameters, replies
  and addresses.
\<close>

subsection \<open>Values of an interface\<close>

text \<open>
  The dynamic values that reach these routines. \<open>FFloat\<close> is over a type of floating-point numbers,
  \<open>FOther\<close> carries the text of any other value.
\<close>

datatype 'f fval = FInt int | FStr string | FFloat 'f | FOther string

text \<open>The verb \<^verbatim>\<open>%v\<close>; \<open>ff\<close> prints a floating-point number.\<close>

fun sprint :: "('f \<Rightarrow> string) \<Rightarrow> 'f fval \<Rightarrow> string" where
  "sprint ff (FInt i) = FormatInt i"
| "sprint ff (FStr s) = s"
| "sprint ff (FFloat f) = ff f"
| "sprint ff (FOther s) = s"

subsection \<open>URLValues\<close>

definition MakeURLValues :: "url_values option \<Rightarrow> url_values" where
  "MakeURLValues values = (case values of None \<Rightarrow> Map.empty | Some v \<Rightarrow> v)"

definition StrValue :: "url_values \<Rightarrow> string \<Rightarrow> string" where
  "StrValue uv key = url_Get uv key"

definition IntValue :: "url_values \<Rightarrow> string \<Rightarrow> int \<Rightarrow> int" where
  "IntValue uv key defValue =
     (let s = StrValue uv key in
      if s = [] then defValue else case Atoi s of Ok v \<Rightarrow> v | _ \<Rightarrow> defValue)"

text \<open>\<open>pf\<close> is \<open>strconv.ParseFloat(s, 64)\<close>.\<close>

definition FloatValue :: "(string \<Rightarrow> 'f outcome) \<Rightarrow> url_values \<Rightarrow> string \<Rightarrow> 'f \<Rightarrow> 'f outcome" where
  "FloatValue pf uv key defValue =
     (let s = StrValue uv key in
      if s = [] then Panic (PErr (Errorf ''can not find param %v in http request'' [AStr key]))
      else case pf s of Ok v \<Rightarrow> Ok v | _ \<Rightarrow> Ok defValue)"

text \<open>Ranges over the parameters in the order \<open>ks\<close>.\<close>

fun map_to_values :: "('f \<Rightarrow> string) \<Rightarrow> string list \<Rightarrow> (string \<rightharpoonup> 'f fval) \<Rightarrow> url_values \<Rightarrow> url_values" where
  "map_to_values ff [] m values = values"
| "map_to_values ff (k # ks) m values =
     map_to_values ff ks m (case m k of None \<Rightarrow> values | Some v \<Rightarrow> url_Set values k (sprint ff v))"

definition MapToURLValues :: "('f \<Rightarrow> string) \<Rightarrow> string list \<Rightarrow> (string \<rightharpoonup> 'f fval) \<Rightarrow> url_values" where
  "MapToURLValues ff ks reqParams = map_to_values ff ks reqParams (MakeURLValues None)"

definition GenGetURL :: "string list \<Rightarrow> string \<Rightarrow> url_values \<Rightarrow> string" where
  "GenGetURL ks reqPath params = reqPath @ ''?'' @ url_Encode ks params"

definition EncodeURL :: "('f \<Rightarrow> string) \<Rightarrow> string list \<Rightarrow> string \<Rightarrow> (string \<rightharpoonup> 'f fval) \<Rightarrow> string" where
  "EncodeURL ff ks reqURL reqParams = reqURL @ ''?'' @ url_Encode ks (MapToURLValues ff ks reqParams)"

text \<open>\<open>HTTPClient.URL\<close>: a question mark at position 0 does not count as the start of a query.\<close>

definition HTTPClient_URL :: "('f \<Rightarrow> string) \<Rightarrow> string list \<Rightarrow> string \<Rightarrow> (string \<rightharpoonup> 'f fval) option \<Rightarrow> string" where
  "HTTPClient_URL ff ks reqURL reqParams =
     (case reqParams of
        None \<Rightarrow> reqURL
      | Some m \<Rightarrow>
          let q = url_Encode ks (MapToURLValues ff ks m) in
          if CHR ''?'' \<in> set (tl reqURL) \<and> (reqURL = [] \<or> hd reqURL \<noteq> CHR ''?'')
          then reqURL @ ''&'' @ q else reqURL @ ''?'' @ q)"

lemma map_to_values_eq:
  "map_to_values ff ks m v k = (if k \<in> set ks \<and> m k \<noteq> None then Some [sprint ff (the (m k))] else v k)"
  by (induction ks arbitrary: v) (auto simp: url_Set_def split: option.splits)

lemma MapToURLValues_eq:
  "iter_order m ks \<Longrightarrow> MapToURLValues ff ks m k = map_option (\<lambda>v. [sprint ff v]) (m k)"
  by (auto simp: MapToURLValues_def map_to_values_eq MakeURLValues_def iter_order_def domIff
      split: option.splits)

subsection \<open>Replies\<close>

datatype 'd reply_val = RStatus int | RMsg string | RData 'd

record 'd HTTPReplyJSON =
  httpMsgInfo :: "int \<rightharpoonup> string"
  Reply :: "string \<rightharpoonup> 'd reply_val"
  msgKey :: string
  statusKey :: string

definition msg_of :: "(int \<rightharpoonup> string) \<Rightarrow> int \<Rightarrow> string" where
  "msg_of info code = (case info code of Some m \<Rightarrow> m | None \<Rightarrow> [])"

definition SetStatusAndMsg :: "int \<Rightarrow> string \<Rightarrow> 'd HTTPReplyJSON \<Rightarrow> 'd HTTPReplyJSON" where
  "SetStatusAndMsg code msg reply =
     reply\<lparr>Reply := (Reply reply)(statusKey reply \<mapsto> RStatus code, msgKey reply \<mapsto> RMsg msg)\<rparr>"

definition SetStatus :: "int \<Rightarrow> 'd HTTPReplyJSON \<Rightarrow> 'd HTTPReplyJSON" where
  "SetStatus code reply =
     reply\<lparr>Reply := (Reply reply)(statusKey reply \<mapsto> RStatus code,
        msgKey reply \<mapsto> RMsg (msg_of (httpMsgInfo reply) code))\<rparr>"

definition SetStatusAndData :: "int \<Rightarrow> 'd \<Rightarrow> 'd HTTPReplyJSON \<Rightarrow> 'd HTTPReplyJSON" where
  "SetStatusAndData code data reply =
     reply\<lparr>Reply := (Reply reply)(statusKey reply \<mapsto> RStatus code,
        msgKey reply \<mapsto> RMsg (msg_of (httpMsgInfo reply) code), ''data'' \<mapsto> RData data)\<rparr>"

definition SetStatusAndMsgAndData :: "int \<Rightarrow> string \<Rightarrow> 'd \<Rightarrow> 'd HTTPReplyJSON \<Rightarrow> 'd HTTPReplyJSON" where
  "SetStatusAndMsgAndData code msg data reply =
     reply\<lparr>Reply := (Reply reply)(statusKey reply \<mapsto> RStatus code,
        msgKey reply \<mapsto> RMsg msg, ''data'' \<mapsto> RData data)\<rparr>"

text \<open>The type assertion panics when the status key holds something else.\<close>

definition GetStatus :: "'d HTTPReplyJSON \<Rightarrow> int outcome" where
  "GetStatus reply =
     (case Reply reply (statusKey reply) of
        None \<Rightarrow> Ok 0
      | Some (RStatus c) \<Rightarrow> Ok c
      | Some _ \<Rightarrow> conversion_panic)"

text \<open>
  \<open>http_WriteJSON\<close>: the header is set before the encoder runs, and stays set when it fails. \<open>WriteReply\<close> drops the
  error.
\<close>

definition http_WriteJSON :: "('a \<Rightarrow> bytes outcome) \<Rightarrow> (string \<rightharpoonup> string) \<Rightarrow> 'a \<Rightarrow> (string \<rightharpoonup> string) \<times> bytes outcome" where
  "http_WriteJSON encode header data = (header(''Content-Type'' \<mapsto> ''application/json''), encode data)"

definition WriteReply :: "((string \<rightharpoonup> 'd reply_val) \<Rightarrow> bytes outcome) \<Rightarrow> (string \<rightharpoonup> string) \<Rightarrow> 'd HTTPReplyJSON
    \<Rightarrow> (string \<rightharpoonup> string) \<times> bytes" where
  "WriteReply encode header reply =
     (case http_WriteJSON encode header (Reply reply) of
        (header, Ok out) \<Rightarrow> (header, out)
      | (header, _) \<Rightarrow> (header, []))"

definition NewHTTPReplyJSONEx :: "(int \<rightharpoonup> string) \<Rightarrow> int \<Rightarrow> string \<Rightarrow> string \<Rightarrow> 'd HTTPReplyJSON" where
  "NewHTTPReplyJSONEx msgMap defaultErr mk sk =
     \<lparr>httpMsgInfo = msgMap,
      Reply = [sk \<mapsto> RStatus defaultErr, mk \<mapsto> RMsg (msg_of msgMap defaultErr)],
      msgKey = mk, statusKey = sk\<rparr>"

definition NewHTTPReplyJSON :: "(int \<rightharpoonup> string) \<Rightarrow> int \<Rightarrow> 'd HTTPReplyJSON" where
  "NewHTTPReplyJSON msgMap defaultErr = NewHTTPReplyJSONEx msgMap defaultErr ''msg'' ''status''"

subsection \<open>Proxy addresses\<close>

record ProxyAddr =
  px_Protocol :: string
  px_Host :: string
  px_Port :: string

definition empty_proxy :: ProxyAddr where
  "empty_proxy = \<lparr>px_Protocol = [], px_Host = [], px_Port = []\<rparr>"

definition default_port :: "string \<Rightarrow> string" where
  "default_port protocol =
     (if protocol = ''http'' then ''80'' else if protocol = ''https'' then ''443''
      else if protocol = ''socks5'' then ''1080'' else ''80'')"

definition ParseProxyAddr :: "(string \<Rightarrow> string) \<Rightarrow> string \<Rightarrow> ProxyAddr outcome" where
  "ParseProxyAddr uni addr =
     (if addr = [] then Ok empty_proxy
      else let ss = Split (CHR '':'') addr in
        if length ss = 1 then Ok \<lparr>px_Protocol = ''http'', px_Host = addr, px_Port = ''80''\<rparr>
        else if length ss = 2 then
          obind (go_index (ss ! 1) 0) (\<lambda>c.
            if c = CHR ''/'' then
              obind (slice_from 2 (ss ! 1)) (\<lambda>host.
                let protocol = ToLower uni (ss ! 0) in
                Ok \<lparr>px_Protocol = protocol, px_Host = host, px_Port = default_port protocol\<rparr>)
            else Ok \<lparr>px_Protocol = ''http'', px_Host = ss ! 0, px_Port = ss ! 1\<rparr>)
        else if length ss = 3 then
          obind (slice_from 2 (ss ! 1)) (\<lambda>host.
            Ok \<lparr>px_Protocol = ss ! 0, px_Host = host, px_Port = ss ! 2\<rparr>)
        else Err (Errorf ''not suport proxyaddr:%v'' [AStr addr]))"

subsection \<open>The address of a client\<close>

text \<open>\<open>header\<close> is \<open>req.Header.Get\<close>.\<close>

definition RemoteIP :: "(string \<Rightarrow> string) \<Rightarrow> string \<Rightarrow> string" where
  "RemoteIP header remoteAddr =
     (let ip = (if header ''X-Real-IP'' \<noteq> [] then header ''X-Real-IP''
                else if header ''X-Forwarded-For'' \<noteq> [] then header ''X-Forwarded-For''
                else case SplitHostPort remoteAddr of Ok (host, port) \<Rightarrow> host | _ \<Rightarrow> [])
      in if ip = ''::1'' then ''127.0.0.1'' else ip)"

subsection \<open>Properties\<close>

text \<open>
  Parameters given as a map arrive at the other side: the query part of the address that
  \<open>HTTPClient.URL\<close> builds parses to exactly the parameters with their printed values, for every
  order in which the map is iterated.
\<close>

theorem HTTPClient_URL_query:
  assumes "iter_order m ks" and "CHR ''?'' \<notin> set reqURL"
  shows "\<exists>q. HTTPClient_URL ff ks reqURL (Some m) = reqURL @ ''?'' @ q \<and>
             ParseQuery q = (\<lambda>k. map_option (\<lambda>v. [sprint ff v]) (m k), None)"
proof -
  let ?v = "MapToURLValues ff ks m"
  have v: "?v = (\<lambda>k. map_option (\<lambda>v. [sprint ff v]) (m k))"
    using MapToURLValues_eq [OF assms(1)] by (rule ext)
  then have "iter_order ?v ks" "\<forall>k xs. ?v k = Some xs \<longrightarrow> xs \<noteq> []"
    using assms(1) by (auto simp: iter_order_def dom_def)
  then have "ParseQuery (url_Encode ks ?v) = (?v, None)" by (rule ParseQuery_Encode)
  moreover have "CHR ''?'' \<notin> set (tl reqURL)" using assms(2) by (cases reqURL) auto
  ultimately show ?thesis using v by (auto simp: HTTPClient_URL_def)
qed

lemma FormatInt_witness: "FormatInt (- 3) = ''-3''"
  by code_simp

theorem HTTPClient_URL_query_witness:
  "\<exists>q. HTTPClient_URL id [''a b'', ''c''] ''http://h/p'' (Some [''c'' \<mapsto> FStr ''x&y'', ''a b'' \<mapsto> FInt (- 3)])
         = ''http://h/p'' @ ''?'' @ q \<and>
       fst (ParseQuery q) ''a b'' = Some [''-3''] \<and> fst (ParseQuery q) ''c'' = Some [''x&y'']"
  using HTTPClient_URL_query [of "[''c'' \<mapsto> FStr ''x&y'', ''a b'' \<mapsto> FInt (- 3)]" "[''a b'', ''c'']"
      "''http://h/p''" id]
    FormatInt_witness by (auto simp: iter_order_def)

text \<open>
  A proxy address in any of its three forms is taken apart as written: with protocol, host and
  port; with protocol and host and the protocol's default port; with host and port and the
  protocol http. Only the form without a port normalises the protocol to lower case.
\<close>

theorem ParseProxyAddr_forms:
  assumes "CHR '':'' \<notin> set proto" and "CHR '':'' \<notin> set host" and "CHR '':'' \<notin> set port"
    and "port \<noteq> []" and "hd port \<noteq> CHR ''/''" and "is_ascii proto"
  shows "ParseProxyAddr uni (proto @ ''://'' @ host @ '':'' @ port) =
           Ok \<lparr>px_Protocol = proto, px_Host = host, px_Port = port\<rparr> \<and>
         ParseProxyAddr uni (proto @ ''://'' @ host) =
           Ok \<lparr>px_Protocol = map lower_char proto, px_Host = host,
               px_Port = default_port (map lower_char proto)\<rparr> \<and>
         ParseProxyAddr uni (host @ '':'' @ port) =
           Ok \<lparr>px_Protocol = ''http'', px_Host = host, px_Port = port\<rparr>"
proof -
  have s1: "Split (CHR '':'') (proto @ ''://'' @ host @ '':'' @ port) = [proto, ''//'' @ host, port]"
    using assms Split_cons [of "CHR '':''" proto "''//'' @ host @ '':'' @ port"]
      Split_cons [of "CHR '':''" "''//'' @ host" port] by (simp add: Split_plain)
  have s2: "Split (CHR '':'') (proto @ ''://'' @ host) = [proto, ''//'' @ host]"
    using assms Split_cons [of "CHR '':''" proto "''//'' @ host"] by (simp add: Split_plain)
  have s3: "Split (CHR '':'') (host @ '':'' @ port) = [host, port]"
    using assms Split_cons [of "CHR '':''" host port] by (simp add: Split_plain)
  from assms(4,5) have "go_index port 0 = Ok (hd port)" by (simp add: go_index_def hd_conv_nth)
  with s1 s2 s3 assms(5,6) show ?thesis
    by (simp add: ParseProxyAddr_def slice_from_def go_index_def ToLower_def Let_def)
qed

theorem ParseProxyAddr_forms_witness:
  "ParseProxyAddr id ''SOCKS5://10.0.0.1'' =
     Ok \<lparr>px_Protocol = ''socks5'', px_Host = ''10.0.0.1'', px_Port = ''1080''\<rparr>"
proof -
  have "is_ascii ''SOCKS5''" "map lower_char ''SOCKS5'' = ''socks5''" by code_simp+
  then show ?thesis
    using ParseProxyAddr_forms [of "''SOCKS5''" "''10.0.0.1''" "''80''" id]
    by (simp add: default_port_def del: list.map)
qed

end
