(* ===== verification/Ip_Region.thy ===== *)
theory Ip_Region
  imports Std_Strings
begin

text \<open>
  \<^verbatim>\<open>netutils/ipregion.go\<close>: the table of address ranges and the lookup of a country by binary
  search. Records of a CSV file are lists of strings.
\<close>

subsection \<open>Addresses\<close>

definition ip2int :: "bytes \<Rightarrow> 32 word outcome" where
  "ip2int ip =
     (if length ip = 16 then Ok (of_nat (be_dec (take 4 (drop 12 ip))))
      else if length ip < 4 then index_panic
      else Ok (of_nat (be_dec (take 4 ip))))"

text \<open>
  \<open>net.ParseIP\<close>: dotted decimal gives the 16 bytes of the mapped address; text with a colon before
  any dot goes to the parser of IPv6 addresses, the parameter \<open>parse6\<close>.
\<close>

definition ip4_part :: "string \<Rightarrow> byte option" where
  "ip4_part s =
     (case dec_to_nat s of
        None \<Rightarrow> None
      | Some n \<Rightarrow> if n \<le> 255 \<and> length s \<le> 3 \<and> (length s = 1 \<or> hd s \<noteq> CHR ''0'') then Some (of_nat n) else None)"

definition mapped_prefix :: bytes where
  "mapped_prefix = replicate 10 0 @ [255, 255]"

definition ParseIP :: "(string \<Rightarrow> bytes option) \<Rightarrow> string \<Rightarrow> bytes option" where
  "ParseIP parse6 s =
     (case dropWhile (\<lambda>c. c \<noteq> CHR ''.'' \<and> c \<noteq> CHR '':'') s of
        [] \<Rightarrow> None
      | c # _ \<Rightarrow>
          if c = CHR '':'' then parse6 s
          else (case map ip4_part (Split (CHR ''.'') s) of
                  [Some a, Some b, Some c, Some d] \<Rightarrow> Some (mapped_prefix @ [a, b, c, d])
                | _ \<Rightarrow> None))"

subsection \<open>The table\<close>

record CountryIPInfo =
  IPFrom :: "32 word"
  IPTo :: "32 word"
  cip_Country :: string
  cip_A2 :: string
  cip_A3 :: string

record CountryInfo =
  ci_Country :: string
  ci_A2 :: string
  ci_A3 :: string
  ci_Num :: int
  ci_DialingCode :: string

record IPRegions =
  countryIPInfos :: "CountryIPInfo list option"
  countryInfosAA :: "string \<rightharpoonup> CountryInfo"
  countryInfosNum :: "int \<rightharpoonup> CountryInfo"

definition SToI :: "string \<Rightarrow> int outcome" where
  "SToI s = CheckError (Atoi s)"

definition SToUI :: "string \<Rightarrow> 32 word outcome" where
  "SToUI s = obind (CheckError (ParseUint 32 s)) (\<lambda>n. Ok (of_nat n))"

definition country_line :: "string list \<Rightarrow> CountryInfo outcome" where
  "country_line line =
     obind (go_index line 0) (\<lambda>country. obind (go_index line 1) (\<lambda>a2. obind (go_index line 2) (\<lambda>a3.
     obind (go_index line 3) (\<lambda>num. obind (SToI num) (\<lambda>num. obind (go_index line 4) (\<lambda>code.
     Ok \<lparr>ci_Country = country, ci_A2 = a2, ci_A3 = a3, ci_Num = num, ci_DialingCode = code\<rparr>))))))"

definition country_ip_line :: "string list \<Rightarrow> CountryIPInfo outcome" where
  "country_ip_line line =
     obind (go_index line 0) (\<lambda>f. obind (SToUI f) (\<lambda>f. obind (go_index line 1) (\<lambda>t. obind (SToUI t) (\<lambda>t.
     obind (go_index line 6) (\<lambda>country. obind (go_index line 4) (\<lambda>a2. obind (go_index line 5) (\<lambda>a3.
     Ok \<lparr>IPFrom = f, IPTo = t, cip_Country = country, cip_A2 = a2, cip_A3 = a3\<rparr>)))))))"

fun convert_lines :: "(string list \<Rightarrow> 'a outcome) \<Rightarrow> string list list \<Rightarrow> 'a list outcome" where
  "convert_lines f [] = Ok []"
| "convert_lines f (line # ls) = obind (f line) (\<lambda>x. obind (convert_lines f ls) (\<lambda>xs. Ok (x # xs)))"

definition convertCSVToCountryInfo :: "string list list \<Rightarrow> CountryInfo list outcome" where
  "convertCSVToCountryInfo data = convert_lines country_line data"

definition convertCSVToCountryIPInfo :: "string list list \<Rightarrow> CountryIPInfo list outcome" where
  "convertCSVToCountryIPInfo data = convert_lines country_ip_line data"

definition getCountryInfoKey :: "(string \<Rightarrow> string) \<Rightarrow> string \<Rightarrow> string \<Rightarrow> string" where
  "getCountryInfoKey uni a2 a3 = ToLower uni (a2 @ ''_'' @ a3)"

text \<open>A file of comma-separated values: \<open>parse\<close> is \<^verbatim>\<open>csv.ReadAll\<close>.\<close>

definition loadCSVFile :: "('f \<Rightarrow> string list list outcome) \<Rightarrow> 'f outcome \<Rightarrow> string list list outcome" where
  "loadCSVFile parse file = obind (CheckError file) (\<lambda>fi. CheckError (parse fi))"

text \<open>
  \<open>InitFromFile\<close> over the two files read; a slice appended to from nil stays nil when nothing is
  appended.
\<close>

definition InitFromFile :: "(string \<Rightarrow> string) \<Rightarrow> ('f \<Rightarrow> string list list outcome) \<Rightarrow> 'f outcome \<Rightarrow> 'f outcome
    \<Rightarrow> IPRegions outcome" where
  "InitFromFile uni parse countryIPFile countryInfoFile =
     obind (loadCSVFile parse countryInfoFile) (\<lambda>lines.
     obind (convertCSVToCountryInfo lines) (\<lambda>countryInfos.
     obind (loadCSVFile parse countryIPFile) (\<lambda>lines.
     obind (convertCSVToCountryIPInfo lines) (\<lambda>ips.
     Ok \<lparr>countryIPInfos = (if ips = [] then None else Some ips),
         countryInfosAA = foldl (\<lambda>m c. m(getCountryInfoKey uni (ci_A2 c) (ci_A3 c) \<mapsto> c)) Map.empty countryInfos,
         countryInfosNum = foldl (\<lambda>m c. m(ci_Num c \<mapsto> c)) Map.empty countryInfos\<rparr>))))"

subsection \<open>Lookup\<close>

text \<open>\<open>sort.Search\<close>, its loop.\<close>

function search_loop :: "(nat \<Rightarrow> bool) \<Rightarrow> nat \<Rightarrow> nat \<Rightarrow> nat" where
  "search_loop f i j =
     (if i < j then
        (let h = (i + j) div 2 in if \<not> f h then search_loop f (h + 1) j else search_loop f i h)
      else i)"
  by pat_completeness auto
termination by (relation "measure (\<lambda>(f, i, j). j - i)") auto

declare search_loop.simps [simp del]

definition getIPCountryIPInfo :: "(string \<Rightarrow> bytes option) \<Rightarrow> IPRegions \<Rightarrow> string \<Rightarrow> CountryIPInfo option outcome" where
  "getIPCountryIPInfo parse6 ipr sip =
     (case countryIPInfos ipr of
        None \<Rightarrow> Ok None
      | Some ctinfos \<Rightarrow>
          (case ParseIP parse6 sip of
             None \<Rightarrow> Ok None
           | Some ip \<Rightarrow>
               obind (ip2int ip) (\<lambda>intip.
                 let n = search_loop (\<lambda>i. intip \<le> IPFrom (ctinfos ! i) \<or> intip \<le> IPTo (ctinfos ! i)) 0 (length ctinfos)
                 in if n = length ctinfos \<or> IPFrom (ctinfos ! n) > intip \<or> IPTo (ctinfos ! n) < intip
                    then Ok None else Ok (Some (ctinfos ! n)))))"

definition getIPCountryInfo :: "(string \<Rightarrow> string) \<Rightarrow> (string \<Rightarrow> bytes option) \<Rightarrow> IPRegions \<Rightarrow> string \<Rightarrow> CountryInfo option outcome" where
  "getIPCountryInfo uni parse6 ipr sip =
     obind (getIPCountryIPInfo parse6 ipr sip) (\<lambda>r.
       case r of
         None \<Rightarrow> Ok None
       | Some ipinfo \<Rightarrow> Ok (countryInfosAA ipr (getCountryInfoKey uni (cip_A2 ipinfo) (cip_A3 ipinfo))))"

definition GetIPCountryName :: "(string \<Rightarrow> string) \<Rightarrow> (string \<Rightarrow> bytes option) \<Rightarrow> IPRegions \<Rightarrow> string \<Rightarrow> string outcome" where
  "GetIPCountryName uni parse6 ipr sip =
     obind (getIPCountryInfo uni parse6 ipr sip) (\<lambda>r.
       Ok (case r of Some c \<Rightarrow> ci_Country c | None \<Rightarrow> ''unknown''))"

definition GetCountryInfoByNum :: "IPRegions \<Rightarrow> int \<Rightarrow> CountryInfo option" where
  "GetCountryInfoByNum ipr countryNum = countryInfosNum ipr countryNum"

definition IncRegInfo :: "string \<Rightarrow> (string \<rightharpoonup> int) \<Rightarrow> int \<Rightarrow> (string \<rightharpoonup> int)" where
  "IncRegInfo region regionInfo count =
     (case regionInfo region of
        Some v \<Rightarrow> regionInfo(region \<mapsto> v + count)
      | None \<Rightarrow> regionInfo(region \<mapsto> count))"

subsection \<open>The search finds the first index\<close>

lemma search_loop_first:
  assumes "i \<le> j" and "\<forall>k < i. \<not> f k" and "\<forall>k. j \<le> k \<longrightarrow> k < n \<longrightarrow> f k"
    and mono: "\<forall>k k'. k \<le> k' \<longrightarrow> k' < n \<longrightarrow> f k \<longrightarrow> f k'" and "j \<le> n"
  shows "search_loop f i j \<le> n \<and> (\<forall>k < search_loop f i j. \<not> f k) \<and>
         (search_loop f i j < n \<longrightarrow> f (search_loop f i j))"
  using assms
proof (induction f i j rule: search_loop.induct)
  case (1 f i j)
  let ?h = "(i + j) div 2"
  show ?case
  proof (cases "i < j")
    case True
    then have h: "i \<le> ?h" "?h < j" by auto
    show ?thesis
    proof (cases "f ?h")
      case fh: True
      have up: "\<forall>k. ?h \<le> k \<longrightarrow> k < n \<longrightarrow> f k" using "1.prems"(4) fh by blast
      have "?h \<le> n" using h "1.prems"(5) by linarith
      then have "search_loop f i ?h \<le> n \<and> (\<forall>k < search_loop f i ?h. \<not> f k) \<and>
          (search_loop f i ?h < n \<longrightarrow> f (search_loop f i ?h))"
        using "1.IH"(2) [OF True refl _ h(1) "1.prems"(2) up "1.prems"(4)] fh by blast
      moreover have "search_loop f i j = search_loop f i ?h"
        using True fh by (subst search_loop.simps) (simp add: Let_def)
      ultimately show ?thesis by simp
    next
      case False
      have lo: "\<not> f k" if "k < ?h + 1" for k
        using "1.prems"(4) [rule_format, of k ?h] "1.prems"(5) False that h(2) by linarith
      have "?h + 1 \<le> j" using h by linarith
      then have "search_loop f (?h + 1) j \<le> n \<and> (\<forall>k < search_loop f (?h + 1) j. \<not> f k) \<and>
          (search_loop f (?h + 1) j < n \<longrightarrow> f (search_loop f (?h + 1) j))"
        using "1.IH"(1) [OF True refl False _ _ "1.prems"(3-5)] lo by blast
      moreover have "search_loop f i j = search_loop f (?h + 1) j"
        using True False by (subst search_loop.simps) (simp add: Let_def)
      ultimately show ?thesis by simp
    qed
  next
    case False
    with "1.prems" show ?thesis by (auto simp: search_loop.simps)
  qed
qed

text \<open>A usable table: every range is a range, and they follow each other without overlap.\<close>

definition ranges_ok :: "CountryIPInfo list \<Rightarrow> bool" where
  "ranges_ok cs \<longleftrightarrow> (\<forall>c \<in> set cs. IPFrom c \<le> IPTo c) \<and> sorted_wrt (\<lambda>a b. IPTo a < IPFrom b) cs"

definition covers :: "32 word \<Rightarrow> CountryIPInfo \<Rightarrow> bool" where
  "covers ip c \<longleftrightarrow> IPFrom c \<le> ip \<and> ip \<le> IPTo c"

lemma find_covers:
  assumes ok: "ranges_ok cs"
    and n: "n = search_loop (\<lambda>i. ip \<le> IPFrom (cs ! i) \<or> ip \<le> IPTo (cs ! i)) 0 (length cs)"
  shows "(if n = length cs \<or> IPFrom (cs ! n) > ip \<or> IPTo (cs ! n) < ip then None else Some (cs ! n))
       = find (covers ip) cs"
proof -
  let ?f = "\<lambda>i. ip \<le> IPFrom (cs ! i) \<or> ip \<le> IPTo (cs ! i)"
  have rg: "IPFrom (cs ! i) \<le> IPTo (cs ! i)" if "i < length cs" for i
    using ok that by (simp add: ranges_ok_def)
  have lt: "IPTo (cs ! i) < IPFrom (cs ! j)" if "i < j" "j < length cs" for i j
    using ok that by (simp add: ranges_ok_def sorted_wrt_iff_nth_less)
  have "?f k'" if "k \<le> k'" "k' < length cs" "?f k" for k k'
  proof (cases "k = k'")
    case False
    then have "k < k'" using that(1) by simp
    with lt [OF this that(2)] rg [of k] that show ?thesis by auto
  qed (use that in simp)
  then have s: "n \<le> length cs \<and> (\<forall>k < n. \<not> ?f k) \<and> (n < length cs \<longrightarrow> ?f n)"
    unfolding n by (intro search_loop_first) auto
  have nc: "\<not> covers ip (cs ! k)" if "k < length cs" "k \<noteq> n" for k
  proof (cases "k < n")
    case True
    then show ?thesis using s by (auto simp: covers_def)
  next
    case False
    then have k: "n < k" using that by simp
    then have "ip \<le> IPTo (cs ! n)" using s that rg [of n] by fastforce
    with lt [OF k that(1)] show ?thesis by (auto simp: covers_def)
  qed
  show ?thesis
  proof (cases "n < length cs \<and> covers ip (cs ! n)")
    case True
    then have "find (covers ip) cs = Some (cs ! n)"
      using nc by (auto simp: find_Some_iff)
    with True show ?thesis by (auto simp: covers_def not_less)
  next
    case False
    then have "find (covers ip) cs = None"
      using nc by (auto simp: find_None_iff in_set_conv_nth)
    with False s show ?thesis by (auto simp: covers_def not_less)
  qed
qed


lemma ip2int_mapped: "ip2int (mapped_prefix @ [a, b, c, d]) = Ok (of_nat (be_dec [a, b, c, d]))"
  by (simp add: ip2int_def mapped_prefix_def)

subsection \<open>Properties\<close>

text \<open>
  C19: On a table of ranges in ascending order without overlap, the binary search ends and returns
  exactly what a search through the whole table would: the range that contains the address, or
  nothing when there is none or the text is no address. What is compared is \<open>ip2int\<close> of the address, its
  last four bytes for an IPv6 address.
\<close>

theorem getIPCountryIPInfo_correct:
  assumes "countryIPInfos ipr = Some cs" and "ranges_ok cs"
  shows "getIPCountryIPInfo parse6 ipr sip =
    (case ParseIP parse6 sip of
       None \<Rightarrow> Ok None
     | Some ip \<Rightarrow> obind (ip2int ip) (\<lambda>n. Ok (find (covers n) cs)))"
proof (cases "ParseIP parse6 sip")
  case (Some ip)
  have step: "(if n = length cs \<or> IPFrom (cs ! n) > m \<or> IPTo (cs ! n) < m then Ok None else Ok (Some (cs ! n)))
      = Ok (find (covers m) cs)"
    if "n = search_loop (\<lambda>i. m \<le> IPFrom (cs ! i) \<or> m \<le> IPTo (cs ! i)) 0 (length cs)" for m n
    using find_covers [OF assms(2) that] by (simp split: if_splits)
  show ?thesis using assms(1) Some step
    by (cases "ip2int ip") (simp_all add: getIPCountryIPInfo_def Let_def)
qed (use assms(1) in \<open>simp add: getIPCountryIPInfo_def\<close>)

theorem getIPCountryIPInfo_correct_witness:
  "getIPCountryIPInfo (\<lambda>s. None) \<lparr>countryIPInfos = Some
     [\<lparr>IPFrom = 16777216, IPTo = 16777471, cip_Country = ''Australia'', cip_A2 = ''AU'', cip_A3 = ''AUS''\<rparr>],
     countryInfosAA = Map.empty, countryInfosNum = Map.empty\<rparr> ''1.0.0.7'' =
   Ok (Some \<lparr>IPFrom = 16777216, IPTo = 16777471, cip_Country = ''Australia'', cip_A2 = ''AU'', cip_A3 = ''AUS''\<rparr>)"
proof -
  let ?c = "\<lparr>IPFrom = 16777216, IPTo = 16777471, cip_Country = ''Australia'', cip_A2 = ''AU'', cip_A3 = ''AUS''\<rparr>"
  have p: "ParseIP (\<lambda>s. None) ''1.0.0.7'' = Some (mapped_prefix @ [1, 0, 0, 7])" by code_simp
  have i: "ip2int (mapped_prefix @ [1, 0, 0, 7]) = Ok 16777223"
    unfolding ip2int_mapped by (simp add: be_dec_def)
  have "ranges_ok [?c]" by (simp add: ranges_ok_def)
  from getIPCountryIPInfo_correct [OF _ this, of "\<lparr>countryIPInfos = Some [?c],
      countryInfosAA = Map.empty, countryInfosNum = Map.empty\<rparr>" "\<lambda>s. None" "''1.0.0.7''"] show ?thesis
    by (simp add: covers_def p i)
qed

end
