(* ===== verification/Net_Http.thy ===== *)
theory Net_Http
  imports Std_Path Web_Values Ip_Region
begin

text \<open>
  \<^verbatim>\<open>netserve/fileserver.go\<close> and \<^verbatim>\<open>netserve/webserve.go\<close>: serving files over a file system given by
  its \<open>Open\<close>, and the wrappers of HTTP handlers.
\<close>

subsection \<open>File server\<close>

text \<open>The errors the code tells apart, by \<open>os.IsNotExist\<close> and \<open>os.IsPermission\<close>.\<close>

datatype ferr = NotExist | Permission | OtherErr

text \<open>An open file: \<open>Stat\<close> fails or says whether it is a directory.\<close>

record 'c fs_file =
  ff_stat :: "ferr + bool"
  ff_data :: 'c

type_synonym 'c file_system = "string \<Rightarrow> ferr + 'c fs_file"

datatype 'c http_reply = Redirect string | HttpError string nat | NotfoundHandler | Content 'c

definition toHTTPError :: "ferr \<Rightarrow> string \<times> nat" where
  "toHTTPError err =
     (case err of
        NotExist \<Rightarrow> (''404 page not found'', 404)
      | Permission \<Rightarrow> (''403 Forbidden'', 403)
      | OtherErr \<Rightarrow> (''500 Internal Server Error'', 500))"

definition localRedirect :: "string \<Rightarrow> string \<Rightarrow> 'c http_reply" where
  "localRedirect rawQuery newPath = Redirect (if rawQuery \<noteq> [] then newPath @ ''?'' @ rawQuery else newPath)"

text \<open>\<open>nf\<close>: the server has a handler for files that are not found.\<close>

definition writeHTTPFileErr :: "bool \<Rightarrow> ferr \<Rightarrow> 'c http_reply" where
  "writeHTTPFileErr nf err =
     (let (msg, code) = toHTTPError err in
      if code = 404 \<and> nf then NotfoundHandler else HttpError msg code)"

definition indexPage :: string where "indexPage = ''/index.html''"

definition TrimSuffix :: "string \<Rightarrow> string \<Rightarrow> string" where
  "TrimSuffix s t = (if suffix t s then take (length s - length t) s else s)"

text \<open>
  The file that stands for a directory: its index page, if that opens and can be asked for its
  state.
\<close>

definition index_or :: "'c file_system \<Rightarrow> string \<Rightarrow> bool \<times> 'c \<Rightarrow> bool \<times> 'c" where
  "index_or fs index df =
     (case fs index of
        Inl e \<Rightarrow> df
      | Inr ff \<Rightarrow> (case ff_stat ff of Inl e \<Rightarrow> df | Inr isdir \<Rightarrow> (isdir, ff_data ff)))"

text \<open>\<open>serveFile\<close> for the path \<open>url\<close> of a request: the reply, and the names it has opened.\<close>

definition serveFile :: "bool \<Rightarrow> string \<Rightarrow> string \<Rightarrow> 'c file_system \<Rightarrow> string \<Rightarrow> bool \<Rightarrow> 'c http_reply \<times> string list" where
  "serveFile nf rawQuery url fs name redirect =
     (if suffix indexPage url then (localRedirect rawQuery ''./'', [])
      else case fs name of
        Inl err \<Rightarrow> (writeHTTPFileErr nf err, [name])
      | Inr f \<Rightarrow>
          (case ff_stat f of
             Inl err \<Rightarrow> (writeHTTPFileErr nf err, [name])
           | Inr isdir \<Rightarrow>
               if redirect \<and> isdir \<and> last url \<noteq> CHR ''/''
               then (localRedirect rawQuery (path_Base url @ ''/''), [name])
               else if redirect \<and> \<not> isdir \<and> last url = CHR ''/''
               then (localRedirect rawQuery (''../'' @ path_Base url), [name])
               else if isdir \<and> last url \<noteq> CHR ''/''
               then (localRedirect rawQuery (path_Base url @ ''/''), [name])
               else if isdir then
                 (let index = TrimSuffix name ''/'' @ indexPage;
                      (isdir, data) = index_or fs index (True, ff_data f)
                  in (if isdir then writeHTTPFileErr nf NotExist else Content data, [name, index]))
               else (Content (ff_data f), [name])))"

definition file_ServeHTTP :: "bool \<Rightarrow> 'c file_system \<Rightarrow> string \<Rightarrow> string \<Rightarrow> 'c http_reply \<times> string list" where
  "file_ServeHTTP nf fs rawQuery upath =
     (let upath = (if prefix ''/'' upath then upath else ''/'' @ upath)
      in serveFile nf rawQuery upath fs (path_Clean upath) True)"

subsection \<open>Request variables\<close>

text \<open>\<open>form\<close> is \<open>r.FormValue\<close>, \<open>pf\<close> is \<open>strconv.ParseFloat\<close>.\<close>

definition GetQueryStrVar :: "string \<Rightarrow> url_values \<Rightarrow> (string \<Rightarrow> string) \<Rightarrow> string \<Rightarrow> string" where
  "GetQueryStrVar rmethod query form key = (if rmethod = ''GET'' then url_Get query key else form key)"

definition GetQueryFloatVar :: "(string \<Rightarrow> 'f outcome) \<Rightarrow> string \<Rightarrow> url_values \<Rightarrow> (string \<Rightarrow> string) \<Rightarrow> string \<Rightarrow> 'f outcome" where
  "GetQueryFloatVar pf rmethod query form key =
     (let s = GetQueryStrVar rmethod query form key in
      if s = [] then Panic (PErr (Errorf ''can not find param %v in http request'' [AStr key]))
      else CheckError (pf s))"

definition GetQueryIntVar :: "string \<Rightarrow> url_values \<Rightarrow> (string \<Rightarrow> string) \<Rightarrow> string \<Rightarrow> int outcome" where
  "GetQueryIntVar rmethod query form key =
     (let s = GetQueryStrVar rmethod query form key in if s = [] then Ok 0 else CheckError (Atoi s))"

subsection \<open>Wrappers\<close>

text \<open>\<open>OnlyLocal\<close>: whether the request with this \<open>Host\<close> reaches the handler.\<close>

definition OnlyLocal :: "(string \<Rightarrow> bytes option) \<Rightarrow> string \<Rightarrow> bool" where
  "OnlyLocal parse6 host =
     (let ips = Split (CHR '':'') host in
      if ParseIP parse6 (ips ! 0) = None then False
      else prefix ''172.16.'' host \<or> prefix ''192.168.'' host)"

text \<open>
  Headers by canonical key: the first letter and every letter after a hyphen in upper case, the
  others in lower case.
\<close>

type_synonym header = "string \<rightharpoonup> string list"

definition upper_char :: "char \<Rightarrow> char" where
  "upper_char c = (let n = of_char c in if 97 \<le> n \<and> n \<le> (122 :: nat) then char_of (n - 32) else c)"

fun canonical_from :: "bool \<Rightarrow> string \<Rightarrow> string" where
  "canonical_from up [] = []"
| "canonical_from up (c # cs) =
     (if up then upper_char c else lower_char c) # canonical_from (c = CHR ''-'') cs"

definition header_key :: "string \<Rightarrow> string" where
  "header_key k = canonical_from True k"

definition header_Get :: "header \<Rightarrow> string \<Rightarrow> string" where
  "header_Get h k = (case h (header_key k) of Some (x # xs) \<Rightarrow> x | _ \<Rightarrow> [])"

definition header_Set :: "header \<Rightarrow> string \<Rightarrow> string \<Rightarrow> header" where
  "header_Set h k v = h(header_key k \<mapsto> [v])"

definition header_Del :: "header \<Rightarrow> string \<Rightarrow> header" where
  "header_Del h k = h(header_key k := None)"

definition etagHeaders :: "string list" where
  "etagHeaders = [''ETag'', ''If-Modified-Since'', ''If-Match'', ''If-None-Match'', ''If-Range'', ''If-Unmodified-Since'']"

definition noCacheHeaders :: "string \<Rightarrow> (string \<times> string) list" where
  "noCacheHeaders epoch =
     [(''Expires'', epoch), (''Cache-Control'', ''no-cache, private, max-age=0''),
      (''Pragma'', ''no-cache''), (''X-Accel-Expires'', ''0'')]"

text \<open>
  \<open>NoCache\<close>: the headers of the request passed on and those set in the reply. \<open>hs\<close> are the entries
  of \<open>noCacheHeaders\<close> in the order of iteration.
\<close>

definition NoCache :: "(string \<times> string) list \<Rightarrow> header \<Rightarrow> header \<Rightarrow> header \<times> header" where
  "NoCache hs rheader wheader =
     (foldl (\<lambda>h v. if header_Get h v \<noteq> [] then header_Del h v else h) rheader etagHeaders,
      foldl (\<lambda>h (k, v). header_Set h k v) wheader hs)"

text \<open>
  \<open>WebServe.ServeHTTP\<close> over the panic of the router, if it panics: the reply, or a panic that leaves
  the handler, after which \<^verbatim>\<open>net/http\<close> drops the connection. \<open>msg\<close> is the text of an error.
\<close>

datatype web_end = Served | ErrorReply string nat | Aborted gpanic

definition WebServe_ServeHTTP :: "(gerr \<Rightarrow> string) \<Rightarrow> string \<Rightarrow> gpanic option \<Rightarrow> web_end" where
  "WebServe_ServeHTTP msg host x =
     (case x of
        None \<Rightarrow> Served
      | Some v \<Rightarrow>
          (case slice_to 9 host of
             Panic p \<Rightarrow> Aborted p
           | Err e \<Rightarrow> Served
           | Ok h \<Rightarrow>
               if h = ''localhost'' then
                 (case v of
                    PErr e \<Rightarrow> ErrorReply (msg e) 500
                  | PStr s args \<Rightarrow> Aborted (PErr (RuntimeError ''interface conversion'')))
               else ErrorReply ''internal error'' 500))"

text \<open>
  The configuration of the server, and what \<open>Run\<close> gives to \<^verbatim>\<open>net/http\<close>: address, time-outs in nanoseconds, the bound
  on headers, and certificate and key when TLS is used.
\<close>

record WebServeConfig =
  ws_Port :: string
  ws_Host :: "string list"
  ws_PprofIps :: "string list"
  ws_ReadTimeOut :: int
  ws_WriteTimeOut :: int
  ws_WebPath :: string
  ws_CertPath :: string
  ws_KeyPath :: string

record http_server =
  hs_Addr :: string
  hs_ReadTimeout :: int
  hs_WriteTimeout :: int
  hs_MaxHeaderBytes :: int
  hs_tls :: "(string \<times> string) option"

definition WebServe_Run :: "WebServeConfig \<Rightarrow> http_server" where
  "WebServe_Run config =
     \<lparr>hs_Addr = '':'' @ ws_Port config,
      hs_ReadTimeout = i64 (ws_ReadTimeOut config * 1000000000),
      hs_WriteTimeout = i64 (ws_WriteTimeOut config * 1000000000),
      hs_MaxHeaderBytes = 2 ^ 20,
      hs_tls = (if ws_CertPath config = [] then None else Some (ws_CertPath config, ws_KeyPath config))\<rparr>"

subsection \<open>Lemmas\<close>

lemma index_name:
  assumes "rooted_name name"
  shows "rooted_name (TrimSuffix name ''/'' @ indexPage)"
proof -
  obtain ps where ps: "name = CHR ''/'' # Join ps ''/''" "list_all plain_part ps"
    using assms by (auto simp: rooted_name_def)
  have "TrimSuffix name ''/'' @ indexPage = CHR ''/'' # Join (ps @ [''index.html'']) ''/''"
  proof (cases "ps = []")
    case True
    then show ?thesis by (simp add: ps(1) TrimSuffix_def indexPage_def)
  next
    case False
    with Join_last_plain [OF ps(2)] have "last name \<noteq> CHR ''/''" by (simp add: ps(1))
    then have "\<not> suffix ''/'' name" by (auto simp: suffix_def)
    with False show ?thesis by (simp add: ps(1) TrimSuffix_def indexPage_def Join_snoc)
  qed
  moreover have "list_all plain_part (ps @ [''index.html''])" using ps(2) by (simp add: plain_part_def)
  ultimately show ?thesis unfolding rooted_name_def by blast
qed

lemma serveFile_opens:
  "rooted_name name \<Longrightarrow> list_all rooted_name (snd (serveFile nf q url fs name redirect))"
  using index_name [of name]
  by (auto simp: serveFile_def Let_def split: sum.splits prod.splits)

lemma prefix_slash: "prefix ''/'' s \<longleftrightarrow> (\<exists>t. s = CHR ''/'' # t)"
  by (auto simp: prefix_def)

lemma ParseIP_dotted:
  assumes "ParseIP parse6 (a @ ''.'' @ b @ ''.'' @ s) = Some ip" and "CHR ''.'' \<notin> set a" "CHR '':'' \<notin> set a"
    and "CHR ''.'' \<notin> set b" and "ip4_part a = Some x" and "ip4_part b = Some y"
  shows "\<exists>c d. ip = mapped_prefix @ [x, y, c, d]"
proof -
  have "dropWhile (\<lambda>c. c \<noteq> CHR ''.'' \<and> c \<noteq> CHR '':'') (a @ ''.'' @ b @ ''.'' @ s) = ''.'' @ b @ ''.'' @ s"
    using assms(2,3) by (induction a) auto
  moreover have "Split (CHR ''.'') (a @ ''.'' @ b @ ''.'' @ s) = a # b # Split (CHR ''.'') s"
    using Split_cons [OF assms(2)] Split_cons [OF assms(4)] by simp
  ultimately show ?thesis using assms(1,5,6)
    by (auto simp: ParseIP_def split: list.splits option.splits)
qed

subsection \<open>Properties\<close>

text \<open>
  C18: Whatever the path of the request, every name the file server opens is rooted and made of plain
  parts only: there is no part \<open>..\<close> by which a request could leave the root.
\<close>

theorem fileserver_stays_inside:
  "list_all rooted_name (snd (file_ServeHTTP nf fs rawQuery upath))"
  unfolding file_ServeHTTP_def Let_def
  using serveFile_opens [OF rooted_Clean] by (auto simp: prefix_slash split: if_splits)

text \<open>
  A directory asked for without a final slash is redirected, relative to itself, to the same path
  with the slash, and that request is served without a further redirect.
\<close>

theorem fileserver_directory_redirect:
  assumes "fs (path_Clean (CHR ''/'' # u)) = Inr f" and "ff_stat f = Inr True"
    and "u \<noteq> []" and "last u \<noteq> CHR ''/''" and "\<not> suffix indexPage (CHR ''/'' # u)"
  shows "\<exists>dir part. CHR ''/'' # u = dir @ part \<and> last dir = CHR ''/'' \<and>
    fst (file_ServeHTTP nf fs [] (CHR ''/'' # u)) = Redirect (part @ ''/'') \<and>
    (\<nexists>loc. fst (file_ServeHTTP nf fs [] (dir @ part @ ''/'')) = Redirect loc)"
proof -
  let ?url = "CHR ''/'' # u"
  obtain c cs where "rev u = c # cs" "c \<noteq> CHR ''/''"
    using assms(3,4) by (metis hd_rev list.sel(1) list.exhaust rev_is_Nil_conv)
  then have "trim_slashes ?url = ?url"
    by (simp add: trim_slashes_def)
  then have base: "path_Base ?url = last (Split (CHR ''/'') ?url)" by (simp add: path_Base_def)
  obtain dir where dir: "?url = dir @ path_Base ?url" "dir = [] \<or> last dir = CHR ''/''"
    unfolding base using Split_last_part by blast
  have "dir \<noteq> []"
    using dir(1) Split_no_sep [of "path_Base ?url" "CHR ''/''" ?url] unfolding base
    by (metis append_Nil last_in_set list.set_intros(1) Split_not_Nil)
  moreover have "fst (file_ServeHTTP nf fs [] ?url) = Redirect (path_Base ?url @ ''/'')"
    using assms by (simp add: file_ServeHTTP_def prefix_slash serveFile_def localRedirect_def Let_def)
  moreover have "fst (file_ServeHTTP nf fs [] (?url @ ''/'')) \<noteq> Redirect loc" for loc
  proof -
    have "\<not> suffix indexPage (?url @ ''/'')" by (auto simp: suffix_def indexPage_def)
    then show ?thesis using assms(1,2) path_Clean_snoc [of u]
      by (auto simp: file_ServeHTTP_def prefix_slash serveFile_def Let_def writeHTTPFileErr_def split: prod.splits)
  qed
  ultimately show ?thesis using dir by (metis append_assoc)
qed

theorem fileserver_directory_redirect_witness:
  "\<exists>dir part. ''/docs'' = dir @ part \<and> last dir = CHR ''/'' \<and>
    fst (file_ServeHTTP False (\<lambda>n. if n = ''/docs'' then Inr \<lparr>ff_stat = Inr True, ff_data = (0 :: nat)\<rparr>
           else Inl NotExist) [] ''/docs'') = Redirect (part @ ''/'') \<and>
    (\<nexists>loc. fst (file_ServeHTTP False (\<lambda>n. if n = ''/docs'' then Inr \<lparr>ff_stat = Inr True, ff_data = (0 :: nat)\<rparr>
           else Inl NotExist) [] (dir @ part @ ''/'')) = Redirect loc)"
proof -
  have "path_Clean ''/docs'' = ''/docs''" by code_simp
  moreover have "\<not> suffix indexPage ''/docs''" by (simp add: suffix_def indexPage_def)
  ultimately show ?thesis
    by (intro fileserver_directory_redirect [where f = "\<lparr>ff_stat = Inr True, ff_data = 0\<rparr>"]) simp_all
qed

text \<open>
  A request passes \<open>OnlyLocal\<close> only with a host that is an address of the networks 172.16.0.0/16 or
  192.168.0.0/16 in numbers.
\<close>

theorem OnlyLocal_private:
  assumes "OnlyLocal parse6 host"
  shows "\<exists>c d. ParseIP parse6 (Split (CHR '':'') host ! 0) = Some (mapped_prefix @ [172, 16, c, d]) \<or>
               ParseIP parse6 (Split (CHR '':'') host ! 0) = Some (mapped_prefix @ [192, 168, c, d])"
proof -
  obtain ip where ip: "ParseIP parse6 (Split (CHR '':'') host ! 0) = Some ip"
    and pre: "prefix ''172.16.'' host \<or> prefix ''192.168.'' host"
    using assms by (auto simp: OnlyLocal_def Let_def split: if_splits)
  have hd_part: "\<exists>t. Split (CHR '':'') host ! 0 = p @ t" if pp: "prefix p host" "CHR '':'' \<notin> set p" for p
  proof -
    obtain s where "host = p @ s" using pp(1) by (auto simp: prefix_def)
    moreover have "\<exists>t. Split (CHR '':'') (p @ s) ! 0 = p @ t" using pp(2)
      by (induction p) (auto split: list.splits)
    ultimately show ?thesis by simp
  qed
  have nums: "ip4_part ''172'' = Some 172" "ip4_part ''16'' = Some 16" "ip4_part ''192'' = Some 192" "ip4_part ''168'' = Some 168"
    by code_simp+
  from pre show ?thesis
  proof
    assume "prefix ''172.16.'' host"
    then obtain t where "Split (CHR '':'') host ! 0 = ''172'' @ ''.'' @ ''16'' @ ''.'' @ t" using hd_part by fastforce
    then have "\<exists>c d. ip = mapped_prefix @ [172, 16, c, d]"
      using ip nums by (intro ParseIP_dotted [of parse6 "''172''" "''16''" t]) auto
    with ip show ?thesis by auto
  next
    assume "prefix ''192.168.'' host"
    then obtain t where "Split (CHR '':'') host ! 0 = ''192'' @ ''.'' @ ''168'' @ ''.'' @ t" using hd_part by fastforce
    then have "\<exists>c d. ip = mapped_prefix @ [192, 168, c, d]"
      using ip nums by (intro ParseIP_dotted [of parse6 "''192''" "''168''" t]) auto
    with ip show ?thesis by auto
  qed
qed

theorem OnlyLocal_private_witness:
  "\<exists>c d. ParseIP (\<lambda>s. None) ''192.168.1.7'' = Some (mapped_prefix @ [172, 16, c, d]) \<or>
         ParseIP (\<lambda>s. None) ''192.168.1.7'' = Some (mapped_prefix @ [192, 168, c, d])"
proof -
  have "OnlyLocal (\<lambda>s. None) ''192.168.1.7:80''" by code_simp
  from OnlyLocal_private [OF this] show ?thesis by simp
qed

text \<open>
  C38: The recovery of the web server itself panics, and the connection is dropped without a reply,
  exactly when the handler panicked and the host is shorter than 9 characters, or it begins with
  \<open>localhost\<close> and the panic is no error.
\<close>

theorem webserve_recovery:
  "(\<exists>p. WebServe_ServeHTTP msg host x = Aborted p) \<longleftrightarrow>
     x \<noteq> None \<and> (length host < 9 \<or> (take 9 host = ''localhost'' \<and> (\<exists>s args. x = Some (PStr s args))))"
  by (auto simp: WebServe_ServeHTTP_def slice_to_def split: option.splits gpanic.splits if_splits)

end
