(* ===== verification/Net_Client.thy ===== *)
theory Net_Client
  imports Web_Values
begin

text \<open>
  \<^verbatim>\<open>netutils/httpclient.go\<close>, \<^verbatim>\<open>netutils/mapurl.go\<close> and \<^verbatim>\<open>testutils/testreq.go\<close>: a client for GET requests,
  addresses with parameters, and the requests of tests. What \<^verbatim>\<open>net/http\<close> answers to a request, \<^verbatim>\<open>url.Parse\<close>
  and the JSON decoder are arguments. The address of a client is \<open>HTTPClient_URL\<close> of \<open>Web_Values\<close>.
\<close>

subsection \<open>The client\<close>

text \<open>How the transport connects: the host of an HTTP proxy, the address of a socks5 proxy, and whether certificates are not checked.\<close>

record transport =
  tr_Proxy :: "string option"
  tr_Dial :: "string option"
  tr_InsecureSkipVerify :: bool

record 'f HTTPClient =
  hc_Timeout :: int
  hc_reqURL :: string
  hc_reqParams :: "(string \<rightharpoonup> 'f fval) option"
  hc_tr :: transport

definition SetReqParams :: "(string \<rightharpoonup> 'f fval) option \<Rightarrow> 'f HTTPClient \<Rightarrow> 'f HTTPClient" where
  "SetReqParams reqParams client = client\<lparr>hc_reqParams := reqParams\<rparr>"

definition SetTimeout :: "int \<Rightarrow> 'f HTTPClient \<Rightarrow> 'f HTTPClient" where
  "SetTimeout d client = client\<lparr>hc_Timeout := d\<rparr>"

text \<open>
  \<open>socks5\<close> is the answer of the proxy package to an address. An error of the proxy address leaves a client
  without a proxy.
\<close>

definition NewHTTPClient :: "(string \<Rightarrow> string) \<Rightarrow> (string \<Rightarrow> unit outcome) \<Rightarrow> string \<Rightarrow> 'f HTTPClient outcome" where
  "NewHTTPClient uni socks5 proxyAddr =
     (let client = \<lparr>hc_Timeout = 0, hc_reqURL = [], hc_reqParams = None,
            hc_tr = \<lparr>tr_Proxy = None, tr_Dial = None, tr_InsecureSkipVerify = False\<rparr>\<rparr> in
      if proxyAddr = [] then Ok client
      else case ParseProxyAddr uni proxyAddr of
          Panic p \<Rightarrow> Panic p
        | Err e \<Rightarrow> Ok client
        | Ok addr \<Rightarrow>
            if px_Protocol addr = ''http''
            then Ok (client\<lparr>hc_tr := (hc_tr client)\<lparr>tr_Proxy := Some ''127.0.0.1:8888''\<rparr>\<rparr>)
            else if px_Protocol addr = ''socks5'' then
              (let a = px_Host addr @ '':'' @ px_Port addr in
               case socks5 a of
                 Panic p \<Rightarrow> Panic p
               | Err e \<Rightarrow> Ok client
               | Ok d \<Rightarrow> Ok (client\<lparr>hc_tr := (hc_tr client)\<lparr>tr_Dial := Some a, tr_InsecureSkipVerify := True\<rparr>\<rparr>))
            else Ok client)"

text \<open>
  A body is the bytes it delivers and the error that ends it, if any. \<open>http_get\<close> is the response to the
  address: a body, or \<open>None\<close> for a nil body.
\<close>

type_synonym body = "bytes \<times> gerr option"

definition client_Get :: "('f \<Rightarrow> string) \<Rightarrow> string list \<Rightarrow> (string \<Rightarrow> body option outcome) \<Rightarrow> 'f HTTPClient \<Rightarrow> body option outcome" where
  "client_Get ff ks http_get client = http_get (HTTPClient_URL ff ks (hc_reqURL client) (hc_reqParams client))"

definition readBody :: "('f \<Rightarrow> string) \<Rightarrow> string list \<Rightarrow> (string \<Rightarrow> body option outcome) \<Rightarrow> 'f HTTPClient
    \<Rightarrow> (body \<Rightarrow> 'a outcome) \<Rightarrow> 'a outcome" where
  "readBody ff ks http_get client pb =
     obind (client_Get ff ks http_get client) (\<lambda>resp.
       case resp of
         None \<Rightarrow> Err (Errorf ''read body is empty,url:%v''
                   [AStr (HTTPClient_URL ff ks (hc_reqURL client) (hc_reqParams client))])
       | Some b \<Rightarrow> pb b)"

text \<open>
  \<open>GetResult\<close>: data and error are variables the callback assigns to; what \<open>readBody\<close> returns is dropped.
\<close>

definition GetResult :: "('f \<Rightarrow> string) \<Rightarrow> string list \<Rightarrow> (string \<Rightarrow> body option outcome) \<Rightarrow> 'f HTTPClient
    \<Rightarrow> (string \<times> gerr option) outcome" where
  "GetResult ff ks http_get client =
     (case readBody ff ks http_get client Ok of
        Ok (data, err) \<Rightarrow> Ok (string_of_bytes data, err)
      | Err e \<Rightarrow> Ok ([], None)
      | Panic p \<Rightarrow> Panic p)"

text \<open>\<open>decode\<close> is the JSON decoder, \<open>as_map\<close> the assertion that a decoded value is an object.\<close>

definition GetJSON :: "('f \<Rightarrow> string) \<Rightarrow> string list \<Rightarrow> (string \<Rightarrow> body option outcome) \<Rightarrow> (body \<Rightarrow> 'j outcome)
    \<Rightarrow> ('j \<Rightarrow> 'm option) \<Rightarrow> 'f HTTPClient \<Rightarrow> 'm outcome" where
  "GetJSON ff ks http_get decode as_map client =
     obind (readBody ff ks http_get client decode) (\<lambda>data.
       case as_map data of
         None \<Rightarrow> Err (Errorf ''conver result to json failed:url:%v''
                   [AStr (HTTPClient_URL ff ks (hc_reqURL client) (hc_reqParams client))])
       | Some m \<Rightarrow> Ok m)"

definition ReadRespToMap :: "(body \<Rightarrow> 'j outcome) \<Rightarrow> ('j \<Rightarrow> 'm option) \<Rightarrow> body \<Rightarrow> 'm outcome" where
  "ReadRespToMap decode as_map resp =
     obind (CheckError (decode resp)) (\<lambda>data. case as_map data of None \<Rightarrow> conversion_panic | Some m \<Rightarrow> Ok m)"

text \<open>\<open>GetQueryValues\<close>: \<open>form\<close> is the form of the request, if it has been parsed, \<open>parsed\<close> that after parsing it.\<close>

definition GetQueryValues :: "string \<Rightarrow> string \<Rightarrow> url_values option \<Rightarrow> url_values \<Rightarrow> url_values" where
  "GetQueryValues rmethod rawQuery form parsed =
     (if rmethod = ''GET'' then fst (ParseQuery rawQuery)
      else case form of None \<Rightarrow> parsed | Some f \<Rightarrow> f)"

subsection \<open>Addresses with parameters\<close>

text \<open>\<open>'u\<close> is a parsed address without its query. \<open>parse\<close> gives it and the query; a failed parse leaves a nil address.\<close>

record 'u MapURL =
  mu_rawurl :: 'u
  mu_params :: url_values

definition MapURL_ParseURL :: "(string \<Rightarrow> ('u \<times> string) outcome) \<Rightarrow> string \<Rightarrow> 'u MapURL outcome" where
  "MapURL_ParseURL parse reqURL =
     (case parse reqURL of
        Ok (u, rawQuery) \<Rightarrow> Ok \<lparr>mu_rawurl = u, mu_params = fst (ParseQuery rawQuery)\<rparr>
      | Err e \<Rightarrow> nil_panic
      | Panic p \<Rightarrow> Panic p)"

fun AddMapParams :: "('f \<Rightarrow> string) \<Rightarrow> string list \<Rightarrow> (string \<rightharpoonup> 'f fval) \<Rightarrow> 'u MapURL \<Rightarrow> 'u MapURL" where
  "AddMapParams ff [] p m = m"
| "AddMapParams ff (k # ks) p m =
     AddMapParams ff ks p (case p k of None \<Rightarrow> m | Some v \<Rightarrow> m\<lparr>mu_params := url_Set (mu_params m) k (sprint ff v)\<rparr>)"

definition AddParam :: "('f \<Rightarrow> string) \<Rightarrow> string \<Rightarrow> 'f fval \<Rightarrow> 'u MapURL \<Rightarrow> 'u MapURL" where
  "AddParam ff k v m = m\<lparr>mu_params := url_Set (mu_params m) k (sprint ff v)\<rparr>"

text \<open>\<open>str\<close> is \<open>String\<close> of an address with a query.\<close>

definition MapURL_Encode :: "('u \<Rightarrow> string \<Rightarrow> string) \<Rightarrow> string list \<Rightarrow> 'u MapURL \<Rightarrow> string" where
  "MapURL_Encode str ks m = str (mu_rawurl m) (url_Encode ks (mu_params m))"

subsection \<open>Requests of tests\<close>

text \<open>
  A request as its handler sees it, and the test with the recorded response: its code, the length its header
  states (\<open>-1\<close> without one) and its body. \<open>'c\<close> are cookies.
\<close>

record 'c request =
  rq_method :: string
  rq_url :: string
  rq_body :: "bytes option"
  rq_contentType :: string
  rq_cookies :: "'c list"

record 'c TestWebReq =
  wr_reqURL :: string
  wr_method :: string
  wr_values :: "url_values option"
  wr_body :: "bytes option"
  wr_contentType :: string
  wr_cookies :: "'c list"
  wr_beforeRuns :: "('c request \<Rightarrow> 'c request) list"
  wr_code :: int
  wr_contentLength :: int
  wr_recorded :: bytes
  wr_haveRead :: bool
  wr_result :: bytes
  wr_req :: "'c request option"

definition NewTestWebReq :: "string \<Rightarrow> string \<Rightarrow> 'c TestWebReq" where
  "NewTestWebReq rmethod reqURL =
     \<lparr>wr_reqURL = reqURL, wr_method = rmethod, wr_values = None, wr_body = None, wr_contentType = [], wr_cookies = [],
      wr_beforeRuns = [], wr_code = 200, wr_contentLength = -1, wr_recorded = [], wr_haveRead = False, wr_result = [], wr_req = None\<rparr>"

definition SetValues :: "url_values option \<Rightarrow> 'c TestWebReq \<Rightarrow> 'c TestWebReq" where
  "SetValues values wr = wr\<lparr>wr_values := values\<rparr>"

definition SetWebParams :: "url_values outcome \<Rightarrow> 'c TestWebReq \<Rightarrow> 'c TestWebReq outcome" where
  "SetWebParams built wr = obind (CheckError built) (\<lambda>values. Ok (wr\<lparr>wr_values := Some values\<rparr>))"

definition BeforeRun :: "('c request \<Rightarrow> 'c request) \<Rightarrow> 'c TestWebReq \<Rightarrow> 'c TestWebReq" where
  "BeforeRun runBefore wr = wr\<lparr>wr_beforeRuns := wr_beforeRuns wr @ [runBefore]\<rparr>"

definition SetCookies :: "'c list \<Rightarrow> 'c TestWebReq \<Rightarrow> 'c TestWebReq" where
  "SetCookies cookies wr = wr\<lparr>wr_cookies := cookies\<rparr>"

definition SetBody :: "bytes option \<Rightarrow> 'c TestWebReq \<Rightarrow> 'c TestWebReq" where
  "SetBody body wr = wr\<lparr>wr_body := body\<rparr>"

definition SetContentType :: "string \<Rightarrow> 'c TestWebReq \<Rightarrow> 'c TestWebReq" where
  "SetContentType contentType wr = wr\<lparr>wr_contentType := contentType\<rparr>"

definition addCookies :: "'c request \<Rightarrow> 'c list \<Rightarrow> 'c request" where
  "addCookies req cookies = foldl (\<lambda>req c. req\<lparr>rq_cookies := rq_cookies req @ [c]\<rparr>) req cookies"

definition checkReadResult :: "'c TestWebReq \<Rightarrow> 'c TestWebReq" where
  "checkReadResult wr =
     (if \<not> wr_haveRead wr \<and> wr_contentLength wr \<noteq> 0
      then wr\<lparr>wr_result := wr_recorded wr, wr_recorded := [], wr_haveRead := True\<rparr> else wr)"

text \<open>
  \<open>Run\<close>: the request it makes, and the state after the handler. \<open>bad\<close> is the error of \<open>http.NewRequest\<close>
  for a method and address, if there is one.
\<close>

definition test_request :: "string list \<Rightarrow> 'c TestWebReq \<Rightarrow> 'c request" where
  "test_request ks wr =
     (let reqURL = (case wr_values wr of
            Some v \<Rightarrow>
              if wr_method wr = ''GET''
              then wr_reqURL wr @ (if CHR ''?'' \<notin> set (wr_reqURL wr) then ''?'' else ''&'') @ url_Encode ks v
              else wr_reqURL wr
          | None \<Rightarrow> wr_reqURL wr);
          body = (case wr_values wr of
            Some v \<Rightarrow> if wr_method wr = ''POST'' then Some (bytes_of_string (url_Encode ks v)) else wr_body wr
          | None \<Rightarrow> wr_body wr)
      in addCookies \<lparr>rq_method = wr_method wr, rq_url = reqURL, rq_body = body, rq_contentType = wr_contentType wr,
          rq_cookies = []\<rparr> (wr_cookies wr))"

definition test_Run :: "(string \<Rightarrow> string \<Rightarrow> gerr option) \<Rightarrow> ('c request \<Rightarrow> (int \<times> int \<times> bytes) outcome) \<Rightarrow> string list
    \<Rightarrow> ('c TestWebReq \<Rightarrow> 'c TestWebReq) list \<Rightarrow> 'c TestWebReq \<Rightarrow> 'c TestWebReq outcome" where
  "test_Run bad handler ks afterRuns wr =
     (let req = test_request ks wr in
      case bad (rq_method req) (rq_url req) of
        Some e \<Rightarrow> Panic (PErr e)
      | None \<Rightarrow>
          let req = foldl (\<lambda>r f. f r) req (wr_beforeRuns wr) in
          obind (handler req) (\<lambda>(code, len, out).
            let wr = checkReadResult (wr\<lparr>wr_req := Some req, wr_code := code, wr_contentLength := len,
                       wr_recorded := wr_recorded wr @ out\<rparr>)
            in Ok (foldl (\<lambda>wr f. f wr) wr afterRuns)))"

definition CheckResult :: "'c TestWebReq \<Rightarrow> 'c TestWebReq outcome" where
  "CheckResult wr =
     (if wr_code wr \<noteq> 200 then Panic (PErr (Errorf ''req failed with error:%v'' [AInt (wr_code wr)])) else Ok wr)"

text \<open>\<open>PrintResult\<close> appends to what \<open>w\<close> has.\<close>

definition PrintResult :: "bytes \<Rightarrow> 'c TestWebReq \<Rightarrow> bytes" where
  "PrintResult w wr = w @ wr_result wr"

definition ResultASString :: "'c TestWebReq \<Rightarrow> string" where
  "ResultASString wr = string_of_bytes (wr_result wr)"

subsection \<open>Lemmas\<close>

lemma addCookies_eq [simp]: "addCookies req cs = req\<lparr>rq_cookies := rq_cookies req @ cs\<rparr>"
  by (induction cs arbitrary: req) (simp_all add: addCookies_def)

lemma NewHTTPClient_http:
  "ParseProxyAddr uni a = Ok pa \<Longrightarrow> px_Protocol pa = ''http'' \<Longrightarrow> a \<noteq> [] \<Longrightarrow>
   NewHTTPClient uni socks5 a = Ok \<lparr>hc_Timeout = 0, hc_reqURL = [], hc_reqParams = None,
     hc_tr = \<lparr>tr_Proxy = Some ''127.0.0.1:8888'', tr_Dial = None, tr_InsecureSkipVerify = False\<rparr>\<rparr>"
  by (simp add: NewHTTPClient_def Let_def)

lemma AddMapParams_rawurl [simp]: "mu_rawurl (AddMapParams ff ks p m) = mu_rawurl m"
  by (induction ks arbitrary: m) (auto split: option.splits)

lemma AddMapParams_params:
  "mu_params (AddMapParams ff ks p m) k = (if k \<in> set ks \<and> p k \<noteq> None then Some [sprint ff (the (p k))] else mu_params m k)"
  by (induction ks arbitrary: m) (auto simp: url_Set_def split: option.splits)

subsection \<open>Properties\<close>

text \<open>
  \<open>GetJSON\<close> reports every failure, of the request, an absent body, the decoder, and a value that is no
  object; \<open>GetResult\<close> reports only a failure while reading the body: a request that fails looks like one with
  an empty result.
\<close>

theorem GetResult_GetJSON_errors:
  assumes "client_Get ff ks http_get client = r" and "\<forall>p. r \<noteq> Panic p"
  shows "(r = Err e \<longrightarrow> GetResult ff ks http_get client = Ok ([], None) \<and>
                        GetJSON ff ks http_get decode as_map client = Err e) \<and>
         (r = Ok None \<longrightarrow> GetResult ff ks http_get client = Ok ([], None) \<and>
                         (\<exists>e. GetJSON ff ks http_get decode as_map client = Err e)) \<and>
         (r = Ok (Some b) \<longrightarrow> GetResult ff ks http_get client = Ok (string_of_bytes (fst b), snd b) \<and>
            (GetJSON ff ks http_get decode as_map client = Ok m \<longleftrightarrow> (\<exists>j. decode b = Ok j \<and> as_map j = Some m)))"
  using assms by (cases "decode b") (auto simp: GetResult_def GetJSON_def readBody_def split: prod.splits option.splits)

theorem GetResult_GetJSON_errors_witness:
  "\<exists>c :: string HTTPClient. GetResult id [] (\<lambda>u. Err io_EOF) c = Ok ([], None) \<and>
     GetJSON id [] (\<lambda>u. Err io_EOF) (\<lambda>b. Ok (fst b)) Some c = Err io_EOF"
proof -
  let ?c = "\<lparr>hc_Timeout = 0, hc_reqURL = ''http://h'', hc_reqParams = None :: (string \<rightharpoonup> string fval) option,
     hc_tr = \<lparr>tr_Proxy = None, tr_Dial = None, tr_InsecureSkipVerify = False\<rparr>\<rparr>"
  have g: "client_Get id [] (\<lambda>u. Err io_EOF) ?c = Err io_EOF" by (simp add: client_Get_def)
  have n: "\<forall>p. Err io_EOF \<noteq> Panic p" by simp
  note r = GetResult_GetJSON_errors [OF g n, where e = io_EOF and decode = "\<lambda>b. Ok (fst b)" and as_map = Some,
    THEN conjunct1, THEN mp, OF refl]
  show ?thesis by (rule exI, rule r)
qed

text \<open>
  An address with parameters: whatever the order in which the map is ranged over, the query that is
  rendered reads back as the parameters of the address with those of the map put in their place.
\<close>

theorem MapURL_query:
  assumes "MapURL_ParseURL parse reqURL = Ok m" and "iter_order p ks"
    and "iter_order (mu_params (AddMapParams ff ks p m)) ks'" and "\<forall>k xs. mu_params m k = Some xs \<longrightarrow> xs \<noteq> []"
  shows "\<exists>u rawQuery q. parse reqURL = Ok (u, rawQuery) \<and> MapURL_Encode str ks' (AddMapParams ff ks p m) = str u q \<and>
    ParseQuery q = (fst (ParseQuery rawQuery) ++ (\<lambda>k. map_option (\<lambda>v. [sprint ff v]) (p k)), None)"
proof -
  obtain u rawQuery where pr: "parse reqURL = Ok (u, rawQuery)" and m: "m = \<lparr>mu_rawurl = u, mu_params = fst (ParseQuery rawQuery)\<rparr>"
    using assms(1) by (auto simp: MapURL_ParseURL_def split: outcome.splits)
  let ?q = "url_Encode ks' (mu_params (AddMapParams ff ks p m))"
  have "\<forall>k xs. mu_params (AddMapParams ff ks p m) k = Some xs \<longrightarrow> xs \<noteq> []"
    using assms(4) by (auto simp: AddMapParams_params)
  from ParseQuery_Encode [OF assms(3) this] have "ParseQuery ?q = (mu_params (AddMapParams ff ks p m), None)" .
  moreover have "mu_params (AddMapParams ff ks p m) = fst (ParseQuery rawQuery) ++ (\<lambda>k. map_option (\<lambda>v. [sprint ff v]) (p k))"
    using assms(2) m by (auto simp: fun_eq_iff AddMapParams_params map_add_def iter_order_def domIff split: option.splits)
  ultimately show ?thesis using pr m by (auto simp: MapURL_Encode_def)
qed

theorem MapURL_query_witness:
  "\<exists>u rawQuery q. (Ok (''http://h'', ''a=1'') :: (string \<times> string) outcome) = Ok (u, rawQuery) \<and>
    MapURL_Encode (\<lambda>u q. u @ ''?'' @ q) [''a'', ''b''] (AddMapParams id [''b''] [''b'' \<mapsto> FStr ''x&y''] \<lparr>mu_rawurl = ''http://h'', mu_params = [''a'' \<mapsto> [''1'']]\<rparr>)
      = u @ ''?'' @ q \<and>
    ParseQuery q = (fst (ParseQuery rawQuery) ++ (\<lambda>k. map_option (\<lambda>v. [sprint id v]) ([''b'' \<mapsto> FStr ''x&y''] k)), None)"
proof (rule MapURL_query [where reqURL = "''http://h?a=1''" and parse = "\<lambda>s. Ok (''http://h'', ''a=1'')"])
  have "url_pair ''a'' ''1'' = ''a=1''" by code_simp
  with parse_part_pair [of Map.empty None "''a''" "''1''"] have "fst (ParseQuery ''a=1'') = [''a'' \<mapsto> [''1'']]"
    by (simp add: ParseQuery_def url_Add_def)
  then show "MapURL_ParseURL (\<lambda>s. Ok (''http://h'', ''a=1'')) ''http://h?a=1'' = Ok \<lparr>mu_rawurl = ''http://h'', mu_params = [''a'' \<mapsto> [''1'']]\<rparr>"
    by (simp add: MapURL_ParseURL_def)
  show "iter_order [''b'' \<mapsto> FStr ''x&y''] [''b'']" by (simp add: iter_order_def)
  show "iter_order (mu_params (AddMapParams id [''b''] [''b'' \<mapsto> FStr ''x&y'']
      \<lparr>mu_rawurl = ''http://h'', mu_params = [''a'' \<mapsto> [''1'']]\<rparr>)) [''a'', ''b'']"
    by (auto simp: iter_order_def url_Set_def)
qed simp

text \<open>
  The values of a test reach the handler: in the query of a GET request that has none of its own, and in the
  body of a POST request, whatever the other settings are.
\<close>

theorem test_values_sent:
  assumes "wr_values wr = Some v" and "iter_order v ks" and "\<forall>k xs. v k = Some xs \<longrightarrow> xs \<noteq> []"
    and "bad (wr_method wr) (rq_url (test_request ks wr)) = None" and "wr_beforeRuns wr = []"
    and "handler (test_request ks wr) = Ok (code, len, out)"
  shows "\<exists>wr' req. test_Run bad handler ks [] wr = Ok wr' \<and> wr_req wr' = Some req \<and> wr_code wr' = code \<and>
    (wr_method wr = ''GET'' \<and> CHR ''?'' \<notin> set (wr_reqURL wr) \<longrightarrow>
       (\<exists>q. rq_url req = wr_reqURL wr @ ''?'' @ q \<and> ParseQuery q = (v, None))) \<and>
    (wr_method wr = ''POST'' \<longrightarrow> (\<exists>b. rq_body req = Some b \<and> ParseQuery (string_of_bytes b) = (v, None)))"
proof -
  have m: "rq_method (test_request ks wr) = wr_method wr" by (simp add: test_request_def Let_def)
  show ?thesis using assms m ParseQuery_Encode [OF assms(2,3)]
    by (auto simp: test_Run_def checkReadResult_def test_request_def Let_def)
qed

theorem test_values_sent_witness:
  "\<exists>wr' req q. test_Run (\<lambda>m u. None) (\<lambda>r. Ok (200, -1, [])) [''k''] [] (SetValues (Some [''k'' \<mapsto> [''v'']]) (NewTestWebReq ''GET'' ''/x'')) = Ok wr' \<and>
     wr_req wr' = Some (req :: nat request) \<and> rq_url req = ''/x'' @ ''?'' @ q \<and> ParseQuery q = ([''k'' \<mapsto> [''v'']], None)"
proof -
  let ?wr = "SetValues (Some [''k'' \<mapsto> [''v'']]) (NewTestWebReq ''GET'' ''/x'') :: nat TestWebReq"
  have wr: "wr_values ?wr = Some [''k'' \<mapsto> [''v'']]" "wr_beforeRuns ?wr = []" "wr_method ?wr = ''GET''" "wr_reqURL ?wr = ''/x''"
    by (simp_all add: SetValues_def NewTestWebReq_def)
  have "iter_order [''k'' \<mapsto> [''v'']] [''k'']" "\<forall>k xs. [''k'' \<mapsto> [''v'']] k = Some xs \<longrightarrow> xs \<noteq> []"
    by (auto simp: iter_order_def)
  from test_values_sent [OF wr(1) this, of "\<lambda>m u. None" "\<lambda>r. Ok (200, -1, [])" 200 "-1" "[]"]
  show ?thesis by (fastforce simp: wr(2-4))
qed

end
