(* ===== verification/Web_Params.thy ===== *)
theory Web_Params
  imports Web_Values Cipher_Sig
begin

text \<open>
  \<^verbatim>\<open>netutils/webparams.go\<close>: request parameters taken from the tagged fields of a struct, and their
  signature. A struct is the list of its fields; \<open>settable\<close> says whether it was passed as a
  pointer, so that its fields can be assigned to.
\<close>

record 'f field =
  fd_tag :: string
  fd_val :: "'f fval"

datatype 'f gdata = GStruct bool "'f field list" | GOther

text \<open>
  \<open>foreachStructTags\<close>: the callback may change the field and a state of its own; its error ends the
  loop.
\<close>

fun foreach_fields :: "bool \<Rightarrow> ('f field \<Rightarrow> 's \<Rightarrow> ('f field \<times> 's) outcome) \<Rightarrow> 'f field list \<Rightarrow> 's
    \<Rightarrow> ('f field list \<times> 's) outcome" where
  "foreach_fields ignoreEmpty cb [] st = Ok ([], st)"
| "foreach_fields ignoreEmpty cb (fd # fds) st =
     (if fd_tag fd = ''-'' \<or> (ignoreEmpty \<and> fd_tag fd = [])
      then obind (foreach_fields ignoreEmpty cb fds st) (\<lambda>(fds, st). Ok (fd # fds, st))
      else obind (cb fd st) (\<lambda>(fd, st).
           obind (foreach_fields ignoreEmpty cb fds st) (\<lambda>(fds, st). Ok (fd # fds, st))))"

definition foreachStructTags :: "'f gdata \<Rightarrow> bool \<Rightarrow> (bool \<Rightarrow> 'f field \<Rightarrow> 's \<Rightarrow> ('f field \<times> 's) outcome)
    \<Rightarrow> 's \<Rightarrow> ('f field list \<times> 's) outcome" where
  "foreachStructTags data ignoreEmpty cb st =
     (case data of
        GOther \<Rightarrow> Err (Errorf ''only support struct type'' [])
      | GStruct settable fds \<Rightarrow> foreach_fields ignoreEmpty (cb settable) fds st)"

subsection \<open>Parameters of a struct\<close>

definition collect :: "bool \<Rightarrow> 'f field \<Rightarrow> (string \<rightharpoonup> 'f fval) \<Rightarrow> ('f field \<times> (string \<rightharpoonup> 'f fval)) outcome" where
  "collect settable fd m = Ok (fd, m(fd_tag fd \<mapsto> fd_val fd))"

definition BuildValues :: "('f \<Rightarrow> string) \<Rightarrow> string list \<Rightarrow> 'f gdata \<Rightarrow> url_values outcome" where
  "BuildValues ff ks webParams =
     obind (foreachStructTags webParams True collect Map.empty) (\<lambda>(fds, m). Ok (MapToURLValues ff ks m))"

text \<open>A tag's parameter, converted to the kind of its field. A value of no supported kind is an error.\<close>

definition parse_field :: "(string \<Rightarrow> string) \<Rightarrow> (string \<Rightarrow> 'f outcome) \<Rightarrow> 'f \<Rightarrow> string list \<Rightarrow> url_values
    \<Rightarrow> bool \<Rightarrow> 'f field \<Rightarrow> url_values \<Rightarrow> ('f field \<times> url_values) outcome" where
  "parse_field uni pf zero discardFields queryValues settable fd values =
     (if SSContains uni discardFields (fd_tag fd) then Ok (fd, values)
      else if \<not> settable then Ok (fd, values)
      else case queryValues (fd_tag fd) of
             None \<Rightarrow> Ok (fd, values)
           | Some [] \<Rightarrow> Ok (fd, values)
           | Some (x # xs) \<Rightarrow>
               (let values = url_Set values (fd_tag fd) x in
                case fd_val fd of
                  FInt _ \<Rightarrow> Ok (fd\<lparr>fd_val := FInt (IntValue values (fd_tag fd) 0)\<rparr>, values)
                | FStr _ \<Rightarrow> Ok (fd\<lparr>fd_val := FStr (url_Get values (fd_tag fd))\<rparr>, values)
                | FFloat _ \<Rightarrow> obind (FloatValue pf values (fd_tag fd) zero) (\<lambda>v.
                    Ok (fd\<lparr>fd_val := FFloat v\<rparr>, values))
                | FOther _ \<Rightarrow> Err (Errorf ''tag %v is not support kind %v'' [AStr (fd_tag fd)])))"

definition ParseWebParams :: "(string \<Rightarrow> string) \<Rightarrow> (string \<Rightarrow> 'f outcome) \<Rightarrow> 'f \<Rightarrow> url_values \<Rightarrow> 'f gdata
    \<Rightarrow> string list \<Rightarrow> ('f field list \<times> url_values) outcome" where
  "ParseWebParams uni pf zero queryValues webParams discardFields =
     foreachStructTags webParams True (parse_field uni pf zero discardFields queryValues) (MakeURLValues None)"

subsection \<open>Signing\<close>

definition KNameSign :: string where "KNameSign = ''sign''"
definition KNameSignType :: string where "KNameSignType = ''sign_type''"
definition KNameNonceStr :: string where "KNameNonceStr = ''nonce_str''"

text \<open>\<open>ks\<close> is the order in which the loop ranges over the values.\<close>

definition buildValuesSignData :: "string list \<Rightarrow> url_values \<Rightarrow> string" where
  "buildValuesSignData ks values =
     (let keys = sort (filter (\<lambda>key. key \<noteq> KNameSign) ks)
      in Join (map (\<lambda>key. key @ ''='' @ url_Get values key) keys) ''&'')"

definition hash_of :: "string \<Rightarrow> chash" where
  "hash_of signType = (if signType = ''rsa1'' then SHA1 else SHA256)"

definition signWithKey :: "('prv, 'pub) rsa_lib \<Rightarrow> bytes \<Rightarrow> string \<Rightarrow> string \<Rightarrow> string outcome" where
  "signWithKey L data signType signKey =
     (if signType = ''md5''
      then Ok (hex_of_bytes (md5 (data @ bytes_of_string (''&key='' @ signKey))))
      else if signType = ''rsa1'' \<or> signType = ''rsa2''
      then obind (SignPKCS1v15 L data (bytes_of_string signKey) (hash_of signType)) (\<lambda>sign.
             Ok (b64_encode sign))
      else Err (Errorf ''not support sign type:%v'' [AStr signType]))"

text \<open>The type of the signature is stored in the values first: the result has both.\<close>

definition BuildValuesSign :: "('prv, 'pub) rsa_lib \<Rightarrow> string list \<Rightarrow> url_values \<Rightarrow> string \<Rightarrow> string
    \<Rightarrow> url_values \<times> string outcome" where
  "BuildValuesSign L ks values hashType signKey =
     (let values = url_Set values KNameSignType hashType;
          signData = buildValuesSignData ks values
      in (values, signWithKey L (bytes_of_string signData) hashType signKey))"

definition VerifyValuesSign :: "('prv, 'pub) rsa_lib \<Rightarrow> string list \<Rightarrow> url_values \<Rightarrow> string \<Rightarrow> string \<Rightarrow> bool outcome" where
  "VerifyValuesSign L ks values signType signKey =
     (let signData = buildValuesSignData ks values; signValue = url_Get values KNameSign in
      if signData = [] then Ok False
      else if signType = ''md5'' then
        (case signWithKey L (bytes_of_string signData) signType signKey of
           Ok sign \<Rightarrow> Ok (sign = signValue) | Err e \<Rightarrow> Ok False | Panic p \<Rightarrow> Panic p)
      else
        (case b64_decode signValue of
           Ok sig \<Rightarrow>
             (case VerifyPKCS1v15 L (bytes_of_string signData) sig (bytes_of_string signKey) (hash_of signType) of
                Ok b \<Rightarrow> Ok b | Err e \<Rightarrow> Ok False | Panic p \<Rightarrow> Panic p)
         | Err e \<Rightarrow> Ok False | Panic p \<Rightarrow> Panic p))"

definition verifyWithKey :: "('prv, 'pub) rsa_lib \<Rightarrow> bytes \<Rightarrow> string \<Rightarrow> string \<Rightarrow> string \<Rightarrow> bool outcome" where
  "verifyWithKey L data sign hashType signKey =
     (if hashType = ''md5''
      then Ok (hex_of_bytes (md5 (data @ bytes_of_string (''&key='' @ signKey))) = sign)
      else if hashType = ''rsa1'' \<or> hashType = ''rsa2'' then
        (case obind (b64_decode sign) (\<lambda>sig. obind (b64_decode signKey) (\<lambda>rsakey.
                VerifyPKCS1v15 L data sig rsakey (hash_of hashType))) of
           Ok b \<Rightarrow> Ok b | Err e \<Rightarrow> Ok False | Panic p \<Rightarrow> Panic p)
      else Ok False)"

text \<open>
  \<open>BuildSignedValues\<close>. The callback stores a nonce \<open>nonce1\<close> and the type in the struct, which must be
  settable, and notes whether there is a field for the signature; afterwards a second nonce is
  stored in the values.
\<close>

definition signed_field :: "string \<Rightarrow> string \<Rightarrow> bool \<Rightarrow> 'f field \<Rightarrow> (string \<rightharpoonup> 'f fval)
    \<Rightarrow> ('f field \<times> (string \<rightharpoonup> 'f fval)) outcome" where
  "signed_field nonce1 signType settable fd m =
     (let set = (\<lambda>s. if settable \<and> (\<exists>t. fd_val fd = FStr t) then Ok (fd\<lparr>fd_val := FStr s\<rparr>)
                     else Panic (PStr ''reflect: SetString'' [])) in
      obind (if fd_tag fd = KNameNonceStr then set nonce1
             else if fd_tag fd = KNameSignType then set signType else Ok fd) (\<lambda>fd.
        Ok (fd, m(fd_tag fd \<mapsto> fd_val fd))))"

text \<open>The signature goes to the last field with its tag, by \<open>SetString\<close>.\<close>

fun set_sign :: "bool \<Rightarrow> string \<Rightarrow> 'f field list \<Rightarrow> 'f field list outcome" where
  "set_sign settable sign [] = Ok []"
| "set_sign settable sign (fd # fds) =
     (if fd_tag fd \<noteq> KNameSign \<or> list_ex (\<lambda>fd. fd_tag fd = KNameSign) fds
      then obind (set_sign settable sign fds) (\<lambda>fds. Ok (fd # fds))
      else (case fd_val fd of
              FStr _ \<Rightarrow> if settable then Ok (fd\<lparr>fd_val := FStr sign\<rparr> # fds)
                        else Panic (PStr ''reflect: SetString'' [])
            | _ \<Rightarrow> Panic (PStr ''reflect: SetString'' [])))"

definition BuildSignedValues :: "('f \<Rightarrow> string) \<Rightarrow> ('prv, 'pub) rsa_lib \<Rightarrow> string list \<Rightarrow> string list \<Rightarrow> string \<Rightarrow> string
    \<Rightarrow> 'f gdata \<Rightarrow> string \<Rightarrow> string \<Rightarrow> ('f field list \<times> url_values) outcome" where
  "BuildSignedValues ff L ks ks' nonce1 nonce2 webParams signType signKey =
     obind (foreachStructTags webParams True (signed_field nonce1 signType) Map.empty) (\<lambda>(fds, m).
       let values = url_Set (MapToURLValues ff ks m) KNameNonceStr nonce2;
           (values, sign) = BuildValuesSign L ks' values signType signKey
       in obind sign (\<lambda>sign.
            let values = url_Set values KNameSign sign;
                settable = (case webParams of GStruct settable _ \<Rightarrow> settable | GOther \<Rightarrow> False)
            in obind (set_sign settable sign fds) (\<lambda>fds. Ok (fds, values))))"

subsection \<open>Lemmas\<close>

lemma SignData_order:
  assumes "iter_order v ks" "iter_order v ks'"
  shows "buildValuesSignData ks v = buildValuesSignData ks' v"
proof -
  have "sort (filter (\<lambda>key. key \<noteq> KNameSign) ks) = sort (filter (\<lambda>key. key \<noteq> KNameSign) ks')"
    using assms by (intro sorted_distinct_set_unique) (auto simp: iter_order_def)
  then show ?thesis by (simp add: buildValuesSignData_def)
qed

text \<open>Storing the signature does not change what is signed.\<close>

lemma SignData_set_sign:
  assumes "iter_order v ks" "iter_order (url_Set v KNameSign s) ks'"
  shows "buildValuesSignData ks' (url_Set v KNameSign s) = buildValuesSignData ks v"
proof -
  have "sort (filter (\<lambda>key. key \<noteq> KNameSign) ks') = sort (filter (\<lambda>key. key \<noteq> KNameSign) ks)"
    using assms by (intro sorted_distinct_set_unique) (auto simp: iter_order_def url_Set_def)
  then show ?thesis by (auto simp: buildValuesSignData_def intro!: arg_cong2 [where f = Join])
qed

lemma Join_not_Nil: "xs \<noteq> [] \<Longrightarrow> [] \<notin> set xs \<Longrightarrow> Join xs sep \<noteq> []"
  by (cases "(xs, sep)" rule: Join.cases) auto

lemma SignData_nonempty: "k \<in> set ks \<Longrightarrow> k \<noteq> KNameSign \<Longrightarrow> buildValuesSignData ks v \<noteq> []"
proof -
  assume "k \<in> set ks" "k \<noteq> KNameSign"
  then have "k \<in> set (sort (filter (\<lambda>key. key \<noteq> KNameSign) ks))" by simp
  then have "sort (filter (\<lambda>key. key \<noteq> KNameSign) ks) \<noteq> []" by (metis emptyE list.set(1))
  then show ?thesis unfolding buildValuesSignData_def Let_def by (intro Join_not_Nil) auto
qed

text \<open>A signature made for a text verifies for any values that are signed by this text.\<close>

lemma verify_signed_data:
  assumes "signWithKey L (bytes_of_string signData) t key = Ok sign" and "signData \<noteq> []"
    and "buildValuesSignData ks w = signData" and "url_Get w KNameSign = sign"
    and "(t = ''md5'' \<and> pub = key) \<or> (t \<in> {''rsa1'', ''rsa2''} \<and> key_pair L key pub)"
  shows "VerifyValuesSign L ks w t pub = Ok True"
proof (cases "t = ''md5''")
  case True
  with assms show ?thesis by (auto simp: VerifyValuesSign_def Let_def)
next
  case False
  then have t: "t \<in> {''rsa1'', ''rsa2''}" and kp: "key_pair L key pub" using assms(5) by auto
  obtain sg where "SignPKCS1v15 L (bytes_of_string signData) (bytes_of_string key) (hash_of t) = Ok sg"
    and "VerifyPKCS1v15 L (bytes_of_string signData) sg (bytes_of_string pub) (hash_of t) = Ok True"
    using Verify_Sign [OF kp] by blast
  moreover from this assms(1) t False have "sign = b64_encode sg" by (auto simp: signWithKey_def)
  ultimately show ?thesis using False assms(2-4) by (simp add: VerifyValuesSign_def Let_def)
qed

text \<open>The signed text of values whose other keys are known, in whatever order they come.\<close>

lemma SignData_sorted:
  assumes "iter_order v ks" and "sorted keys" and "distinct keys" and "dom v - {KNameSign} = set keys"
  shows "buildValuesSignData ks v = Join (map (\<lambda>key. key @ ''='' @ url_Get v key) keys) ''&''"
proof -
  have "sort (filter (\<lambda>key. key \<noteq> KNameSign) ks) = keys"
    using assms by (intro sorted_distinct_set_unique) (auto simp: iter_order_def)
  then show ?thesis by (simp add: buildValuesSignData_def)
qed

definition fields_map :: "'f field list \<Rightarrow> (string \<rightharpoonup> 'f fval) \<Rightarrow> (string \<rightharpoonup> 'f fval)" where
  "fields_map fds m = foldl (\<lambda>m fd. m(fd_tag fd \<mapsto> fd_val fd)) m fds"

definition tagged :: "'f field \<Rightarrow> bool" where
  "tagged fd \<longleftrightarrow> fd_tag fd \<noteq> ''-'' \<and> fd_tag fd \<noteq> []"

lemma foreach_collect:
  "list_all tagged fds \<Longrightarrow> foreach_fields True (collect b) fds m = Ok (fds, fields_map fds m)"
  by (induction fds arbitrary: m) (auto simp: collect_def tagged_def fields_map_def)

lemma fields_map_other: "k \<notin> fd_tag ` set fds \<Longrightarrow> fields_map fds m k = m k"
  by (induction fds arbitrary: m) (auto simp: fields_map_def)

lemma dom_fields_map: "dom (fields_map fds m) = dom m \<union> fd_tag ` set fds"
  by (induction fds arbitrary: m) (auto simp: fields_map_def)

lemma fields_map_at:
  "distinct (map fd_tag fds) \<Longrightarrow> fd \<in> set fds \<Longrightarrow> fields_map fds m (fd_tag fd) = Some (fd_val fd)"
proof (induction fds arbitrary: m)
  case (Cons x fds)
  have c: "fields_map (x # fds) m = fields_map fds (m(fd_tag x \<mapsto> fd_val x))"
    by (simp add: fields_map_def)
  show ?case
  proof (cases "fd = x")
    case True
    then have "fd_tag fd \<notin> fd_tag ` set fds" using Cons.prems(1) by auto
    then show ?thesis unfolding c using True by (simp add: fields_map_other)
  next
    case False
    then show ?thesis unfolding c using Cons by simp
  qed
qed simp

text \<open>Fields of the same tag and kind, and values that survive printing.\<close>

fun same_kind :: "'f fval \<Rightarrow> 'f fval \<Rightarrow> bool" where
  "same_kind (FInt i) (FInt j) = True"
| "same_kind (FStr s) (FStr t) = True"
| "same_kind _ _ = False"

fun int64 :: "'f fval \<Rightarrow> bool" where
  "int64 (FInt i) = (- (2 ^ 63) \<le> i \<and> i < 2 ^ 63)"
| "int64 _ = True"

lemma parse_field_printed:
  assumes "q (fd_tag fd) = Some [sprint ff (fd_val fd)]" "fd_tag fd' = fd_tag fd"
    "same_kind (fd_val fd) (fd_val fd')" "int64 (fd_val fd)"
  shows "\<exists>values'. parse_field uni pf zero [] q True fd' values = Ok (fd, values')"
proof (cases "fd_val fd")
  case (FInt i)
  then obtain j where j: "fd_val fd' = FInt j" using assms(3) by (cases "fd_val fd'") auto
  have "Atoi (FormatInt i) = Ok i" using assms(4) FInt by (intro ParseInt_FormatInt) auto
  moreover have "FormatInt i \<noteq> []" by (simp add: FormatInt_def)
  ultimately show ?thesis
    using assms(1,2) FInt j
    by (simp add: parse_field_def SSContains_def IntValue_def StrValue_def Let_def)
next
  case (FStr s)
  then obtain t where "fd_val fd' = FStr t" using assms(3) by (cases "fd_val fd'") auto
  then show ?thesis
    using assms(1,2) FStr
    by (simp add: parse_field_def SSContains_def Let_def)
qed (use assms(3) in auto)

lemma foreach_parse:
  assumes "list_all2 (\<lambda>fd fd'. tagged fd \<and> fd_tag fd' = fd_tag fd \<and> same_kind (fd_val fd) (fd_val fd') \<and>
             int64 (fd_val fd) \<and> q (fd_tag fd) = Some [sprint ff (fd_val fd)]) fds fds'"
  shows "\<exists>values'. foreach_fields True (parse_field uni pf zero [] q True) fds' vs = Ok (fds, values')"
  using assms
proof (induction fds fds' arbitrary: vs rule: list_all2_induct)
  case (Cons fd fds fd' fds')
  then obtain v1 where 1: "parse_field uni pf zero [] q True fd' vs = Ok (fd, v1)"
    using parse_field_printed [of q fd ff fd' uni pf zero vs] by blast
  obtain v2 where "foreach_fields True (parse_field uni pf zero [] q True) fds' v1 = Ok (fds, v2)"
    using Cons.IH by blast
  with 1 Cons(1) show ?case by (simp add: tagged_def)
qed simp

subsection \<open>Properties\<close>

text \<open>
  C20: What is signed verifies: the values with the signature stored under its key are accepted, with
  the same secret for md5 and with the public key of the pair for both RSA types, whatever
  order the maps are iterated in on the two sides.
\<close>

theorem sign_verifies:
  assumes "BuildValuesSign L ks v t key = (v1, Ok sign)" and "iter_order v1 ks"
    and "iter_order (url_Set v1 KNameSign sign) ks'"
    and "(t = ''md5'' \<and> pub = key) \<or> (t \<in> {''rsa1'', ''rsa2''} \<and> key_pair L key pub)"
  shows "VerifyValuesSign L ks' (url_Set v1 KNameSign sign) t pub = Ok True"
proof -
  have v1: "v1 = url_Set v KNameSignType t"
    and s: "signWithKey L (bytes_of_string (buildValuesSignData ks v1)) t key = Ok sign"
    using assms(1) by (auto simp: BuildValuesSign_def Let_def)
  have "KNameSignType \<in> set ks" using assms(2) v1 by (auto simp: iter_order_def url_Set_def)
  then have ne: "buildValuesSignData ks v1 \<noteq> []"
    by (rule SignData_nonempty) (simp add: KNameSign_def KNameSignType_def)
  show ?thesis
    by (rule verify_signed_data [OF s ne SignData_set_sign [OF assms(2,3)] _ assms(4)]) simp
qed

theorem sign_verifies_witness:
  "\<exists>sign. VerifyValuesSign echo_rsa [''sign'', ''a'', ''sign_type'']
     (url_Set [''a'' \<mapsto> [''1''], ''sign_type'' \<mapsto> [''rsa2'']] KNameSign sign) ''rsa2'' (b64_encode [5]) = Ok True"
proof -
  let ?v = "[''a'' \<mapsto> [''1''], ''sign_type'' \<mapsto> [''rsa2'']]"
  have "url_Set [''a'' \<mapsto> [''1'']] KNameSignType ''rsa2'' = ?v"
    by (simp add: url_Set_def KNameSignType_def)
  moreover obtain sg where "SignPKCS1v15 echo_rsa
      (bytes_of_string (buildValuesSignData [''a'', ''sign_type''] ?v)) (bytes_of_string (b64_encode [5])) SHA256 = Ok sg"
    using Verify_Sign [OF key_pair_echo] by blast
  ultimately have b: "BuildValuesSign echo_rsa [''a'', ''sign_type''] [''a'' \<mapsto> [''1'']] ''rsa2'' (b64_encode [5])
      = (?v, Ok (b64_encode sg))"
    by (simp add: BuildValuesSign_def signWithKey_def hash_of_def del: b64_encode.simps)
  have "iter_order ?v [''a'', ''sign_type'']" by (auto simp: iter_order_def)
  moreover have "iter_order (url_Set ?v KNameSign (b64_encode sg)) [''sign'', ''a'', ''sign_type'']"
    by (auto simp: iter_order_def url_Set_def KNameSign_def)
  ultimately have "VerifyValuesSign echo_rsa [''sign'', ''a'', ''sign_type'']
      (url_Set ?v KNameSign (b64_encode sg)) ''rsa2'' (b64_encode [5]) = Ok True"
    by (rule sign_verifies [OF b]) (simp add: key_pair_echo del: b64_encode.simps)
  then show ?thesis by blast
qed

text \<open>
  C40: The signed text does not separate the parameters. If values with the one key \<open>a\<close> and a value that
  contains \<open>&b=\<close> have been signed, by md5 or with an RSA key, the same signature is accepted for
  different values: those in which \<open>a\<close> ends before \<open>&b=\<close> and the rest is a parameter \<open>b\<close> of its own.
\<close>

theorem sign_ambiguous:
  assumes "BuildValuesSign L ks [''a'' \<mapsto> [x @ ''&b='' @ y]] t key = (v1, Ok sign)" and "iter_order v1 ks"
    and "w = [''a'' \<mapsto> [x], ''b'' \<mapsto> [y], ''sign_type'' \<mapsto> [t], ''sign'' \<mapsto> [sign]]" and "iter_order w ks'"
    and "(t = ''md5'' \<and> pub = key) \<or> (t \<in> {''rsa1'', ''rsa2''} \<and> key_pair L key pub)"
  shows "VerifyValuesSign L ks' w t pub = Ok True \<and>
    v1 = [''a'' \<mapsto> [x @ ''&b='' @ y], ''sign_type'' \<mapsto> [t]] \<and> w ''a'' \<noteq> v1 ''a'' \<and> w ''b'' \<noteq> v1 ''b''"
proof -
  have v1: "v1 = [''a'' \<mapsto> [x @ ''&b='' @ y], ''sign_type'' \<mapsto> [t]]"
    and s: "signWithKey L (bytes_of_string (buildValuesSignData ks v1)) t key = Ok sign"
    using assms(1) by (auto simp: BuildValuesSign_def Let_def url_Set_def KNameSignType_def)
  have o: "sorted [''a'', ''sign_type'']" "sorted [''a'', ''b'', ''sign_type'']" by code_simp+
  have "buildValuesSignData ks v1 =
      Join (map (\<lambda>key. key @ ''='' @ url_Get v1 key) [''a'', ''sign_type'']) ''&''"
    by (rule SignData_sorted [OF assms(2) o(1)]) (auto simp: v1 KNameSign_def)
  then have d: "buildValuesSignData ks v1 = ''a='' @ x @ ''&b='' @ y @ ''&sign_type='' @ t"
    by (simp add: v1 url_Get_def)
  have "buildValuesSignData ks' w =
      Join (map (\<lambda>key. key @ ''='' @ url_Get w key) [''a'', ''b'', ''sign_type'']) ''&''"
    by (rule SignData_sorted [OF assms(4) o(2)]) (auto simp: assms(3) KNameSign_def)
  then have e: "buildValuesSignData ks' w = buildValuesSignData ks v1"
    unfolding d by (simp add: assms(3) url_Get_def)
  have "VerifyValuesSign L ks' w t pub = Ok True"
    by (rule verify_signed_data [OF s _ e _ assms(5)]) (simp_all add: d assms(3) url_Get_def KNameSign_def)
  then show ?thesis by (simp add: v1 assms(3))
qed

theorem sign_ambiguous_witness:
  "\<exists>sign. VerifyValuesSign echo_rsa [''b'', ''sign'', ''a'', ''sign_type'']
     [''a'' \<mapsto> [''1''], ''b'' \<mapsto> [''2''], ''sign_type'' \<mapsto> [''rsa2''], ''sign'' \<mapsto> [sign]] ''rsa2'' (b64_encode [5]) = Ok True"
proof -
  let ?v = "[''a'' \<mapsto> [''1'' @ ''&b='' @ ''2''], ''sign_type'' \<mapsto> [''rsa2'']]"
  have "url_Set [''a'' \<mapsto> [''1'' @ ''&b='' @ ''2'']] KNameSignType ''rsa2'' = ?v"
    by (simp add: url_Set_def KNameSignType_def)
  moreover obtain sg where "SignPKCS1v15 echo_rsa
      (bytes_of_string (buildValuesSignData [''a'', ''sign_type''] ?v)) (bytes_of_string (b64_encode [5])) SHA256 = Ok sg"
    using Verify_Sign [OF key_pair_echo] by blast
  ultimately have b: "BuildValuesSign echo_rsa [''a'', ''sign_type''] [''a'' \<mapsto> [''1'' @ ''&b='' @ ''2'']] ''rsa2'' (b64_encode [5])
      = (?v, Ok (b64_encode sg))"
    by (simp add: BuildValuesSign_def signWithKey_def hash_of_def del: b64_encode.simps)
  have v: "iter_order ?v [''a'', ''sign_type'']" by (auto simp: iter_order_def)
  have w: "iter_order [''a'' \<mapsto> [''1''], ''b'' \<mapsto> [''2''], ''sign_type'' \<mapsto> [''rsa2''], ''sign'' \<mapsto> [b64_encode sg]]
      [''b'', ''sign'', ''a'', ''sign_type'']"
    by (auto simp: iter_order_def)
  have k: "(''rsa2'' = ''md5'' \<and> b64_encode [5] = b64_encode [5]) \<or>
      (''rsa2'' \<in> {''rsa1'', ''rsa2''} \<and> key_pair echo_rsa (b64_encode [5]) (b64_encode [5]))"
    using key_pair_echo by blast
  from sign_ambiguous [OF b v refl w k] show ?thesis by blast
qed

text \<open>
  The parameters built from a struct with different tags, string fields and integer fields read
  back into a struct of the same shape as the same field values, whatever it held before.
\<close>

theorem WebParams_roundtrip:
  assumes "distinct (map fd_tag fds)" and "list_all (\<lambda>fd. tagged fd \<and> int64 (fd_val fd)) fds"
    and "list_all2 (\<lambda>fd fd'. fd_tag fd' = fd_tag fd \<and> same_kind (fd_val fd) (fd_val fd')) fds fds'"
    and "distinct ks" and "set ks = fd_tag ` set fds"
  shows "\<exists>q values. BuildValues ff ks (GStruct b fds) = Ok q \<and>
    ParseWebParams uni pf zero q (GStruct True fds') [] = Ok (fds, values)"
proof -
  let ?m = "fields_map fds Map.empty" and ?q = "MapToURLValues ff ks (fields_map fds Map.empty)"
  have "list_all tagged fds" using assms(2) by (auto simp: list_all_iff)
  then have b: "BuildValues ff ks (GStruct b fds) = Ok ?q"
    by (simp add: BuildValues_def foreachStructTags_def foreach_collect)
  have "iter_order ?m ks" using assms(4,5) by (simp add: iter_order_def dom_fields_map)
  then have q: "?q (fd_tag fd) = Some [sprint ff (fd_val fd)]" if "fd \<in> set fds" for fd
    using that assms(1) by (simp add: MapToURLValues_eq fields_map_at)
  have "list_all2 (\<lambda>fd fd'. tagged fd \<and> fd_tag fd' = fd_tag fd \<and> same_kind (fd_val fd) (fd_val fd') \<and>
      int64 (fd_val fd) \<and> ?q (fd_tag fd) = Some [sprint ff (fd_val fd)]) fds fds'"
    using assms(2,3) q by (auto simp: list_all2_conv_all_nth list_all_length)
  from foreach_parse [OF this] b show ?thesis
    by (auto simp: ParseWebParams_def foreachStructTags_def)
qed

theorem WebParams_roundtrip_witness:
  "\<exists>q values. BuildValues id [''n'', ''s''] (GStruct True
       [\<lparr>fd_tag = ''s'', fd_val = FStr ''x y''\<rparr>, \<lparr>fd_tag = ''n'', fd_val = FInt (- 7)\<rparr>]) = Ok q \<and>
     ParseWebParams id Ok [] q (GStruct True
       [\<lparr>fd_tag = ''s'', fd_val = FStr []\<rparr>, \<lparr>fd_tag = ''n'', fd_val = FInt 0\<rparr>]) [] =
     Ok ([\<lparr>fd_tag = ''s'', fd_val = FStr ''x y''\<rparr>, \<lparr>fd_tag = ''n'', fd_val = FInt (- 7)\<rparr>], values)"
  by (rule WebParams_roundtrip) (auto simp: tagged_def)

end
