(* ===== verification/Db_Cuid.thy ===== *)
theory Db_Cuid
  imports Common_Utils
begin

unbundle bit_operations_syntax

text \<open>
  The identifiers of \<^verbatim>\<open>dbutils/dbtype.go\<close>: the generator goroutine that \<open>InitCuidDev\<close> starts, and
  the text form of an identifier. The loop of the generator reads the clock once a round and
  either offers an identifier to the channel, skips, or panics; its rounds are modelled over
  the list of clock readings, in seconds since the start date.
\<close>

record cuid_gen =
  cg_lastTime :: int
  cg_counter :: nat
  cg_lastCounter :: nat

definition cuid_start :: cuid_gen where
  "cuid_start = \<lparr>cg_lastTime = 0, cg_counter = 0, cg_lastCounter = 0\<rparr>"

definition timeMax :: int where "timeMax = 0x1FFFFFFFF"
definition counterMax :: nat where "counterMax = 0xFFFF"
definition devIDMax :: int where "devIDMax = 0x3FFF"

text \<open>33 bits of time, 16 bits of counter, 14 bits of device, in a signed 64-bit integer.\<close>

definition cuid_id :: "64 word \<Rightarrow> int \<times> nat \<Rightarrow> 64 word" where
  "cuid_id devid tc =
     (let (now, counter) = tc in
      push_bit 30 (word_of_int now) OR push_bit 14 (word_of_nat counter) OR devid)"

text \<open>One round. \<open>None\<close>: the round ended with \<open>continue\<close>.\<close>

definition cuid_round :: "int \<Rightarrow> cuid_gen \<Rightarrow> (cuid_gen \<times> (int \<times> nat) option) outcome" where
  "cuid_round now s =
     (if now < 0 \<or> timeMax \<le> now
      then Panic (PErr (Errorf '' got invalid time when generate cuid'' []))
      else let counter = cg_counter s + 1 in
        if cg_lastTime s \<noteq> now
        then Ok (\<lparr>cg_lastTime = now, cg_counter = counter, cg_lastCounter = counter\<rparr>, Some (now, counter))
        else let counter = (if counterMax \<le> counter then 1 else counter);
                 s = s\<lparr>cg_counter := counter\<rparr>
          in if counter = cg_lastCounter s then Ok (s, None) else Ok (s, Some (now, counter)))"

text \<open>All rounds: the time and counter of every identifier offered, up to a panic.\<close>

fun cuid_trace :: "cuid_gen \<Rightarrow> int list \<Rightarrow> (int \<times> nat) list" where
  "cuid_trace s [] = []"
| "cuid_trace s (now # clock) =
     (case cuid_round now s of
        Ok (s, Some tc) \<Rightarrow> tc # cuid_trace s clock
      | Ok (s, None) \<Rightarrow> cuid_trace s clock
      | _ \<Rightarrow> [])"

text \<open>
  \<open>InitCuidDev\<close> and \<open>NewCUID\<close> over the device number set so far (0: none). A generator whose device
  number is too large panics before its first round.
\<close>

definition InitCuidDev :: "64 word \<Rightarrow> 64 word \<Rightarrow> int list \<Rightarrow> 64 word \<times> 64 word list option" where
  "InitCuidDev gCUIDDevID devid clock =
     (if gCUIDDevID \<noteq> 0 then (gCUIDDevID, None)
      else (devid, Some (if sint devid > devIDMax then []
                         else map (cuid_id devid) (cuid_trace cuid_start clock))))"

definition NewCUID :: "64 word \<Rightarrow> 64 word list \<Rightarrow> (64 word \<times> 64 word list) outcome" where
  "NewCUID gCUIDDevID offered =
     (if gCUIDDevID = 0 then Panic (PErr (Errorf ''not init device id when new cuid'' []))
      else case offered of
             [] \<Rightarrow> Err (Sentinel ''blocked on the channel'')
           | c # cs \<Rightarrow> Ok (c, cs))"

subsection \<open>Text form\<close>

definition CUID_String :: "64 word \<Rightarrow> string" where
  "CUID_String c = FormatInt (sint c)"

definition StrToCUID :: "string \<Rightarrow> 64 word" where
  "StrToCUID s = (if s = [] then 0 else word_of_int (StrToInt64 s 0))"

text \<open>
  \<open>json.Marshal\<close> of the decimal text is the text in quotes; \<open>json_string\<close> stands for
  \<open>json.Unmarshal\<close> into a string. The identifier is kept on an error.
\<close>

definition CUID_MarshalJSON :: "64 word \<Rightarrow> string" where
  "CUID_MarshalJSON c = [CHR 0x22] @ FormatInt (sint c) @ [CHR 0x22]"

definition CUID_UnmarshalJSON :: "(string \<Rightarrow> string outcome) \<Rightarrow> string \<Rightarrow> 64 word \<Rightarrow> 64 word \<times> gerr option" where
  "CUID_UnmarshalJSON json_string v cuid =
     (case json_string v of
        Err e \<Rightarrow> (cuid, Some e)
      | Panic p \<Rightarrow> (cuid, None)
      | Ok s \<Rightarrow> (case ParseInt 64 s of
                   Ok c \<Rightarrow> (word_of_int c, None)
                 | Err e \<Rightarrow> (cuid, Some e)
                 | Panic p \<Rightarrow> (cuid, None)))"

subsection \<open>The layout of an identifier\<close>

lemma disjoint_or_nat: "b < 2 ^ n \<Longrightarrow> push_bit n a OR b = push_bit n a + (b :: nat)"
proof -
  assume "b < 2 ^ n"
  then have "take_bit n b = b" by (simp add: take_bit_nat_eq_self_iff)
  then have lt: "bit b i \<Longrightarrow> i < n" for i by (metis bit_take_bit_iff)
  show ?thesis by (intro disjunctive_add [symmetric]) (auto simp: bit_push_bit_iff dest!: lt)
qed

lemma cuid_id_eq:
  assumes "t < 2 ^ 33" "c < 2 ^ 16" "d < 2 ^ 14"
  shows "cuid_id (of_nat d) (int t, c) = of_nat (t * 2 ^ 30 + c * 2 ^ 14 + d)"
proof -
  have cd: "push_bit 14 c OR d = push_bit 14 c + d" by (rule disjoint_or_nat) (use assms in simp)
  have "push_bit 14 c + d < 2 ^ 30" using assms by (simp add: push_bit_eq_mult)
  then have "push_bit 30 t OR (push_bit 14 c OR d) = t * 2 ^ 30 + c * 2 ^ 14 + d"
    using disjoint_or_nat [of "push_bit 14 c + d" 30 t] cd by (simp add: push_bit_eq_mult)
  then have "of_nat (push_bit 30 t OR (push_bit 14 c OR d)) = (of_nat (t * 2 ^ 30 + c * 2 ^ 14 + d) :: 64 word)"
    by simp
  then show ?thesis
    unfolding cuid_id_def by (simp only: of_nat_or_eq of_nat_push_bit prod.case Let_def of_int_of_nat_eq or.assoc)
qed

lemma unat_cuid_id:
  assumes "t < 2 ^ 33" "c < 2 ^ 16" "d < 2 ^ 14"
  shows "unat (cuid_id (of_nat d) (int t, c)) = t * 2 ^ 30 + c * 2 ^ 14 + d"
    and "t * 2 ^ 30 + c * 2 ^ 14 + d < (2 ^ 63 :: nat)"
proof -
  show lt: "t * 2 ^ 30 + c * 2 ^ 14 + d < (2 ^ 63 :: nat)" using assms by simp
  then show "unat (cuid_id (of_nat d) (int t, c)) = t * 2 ^ 30 + c * 2 ^ 14 + d"
    unfolding cuid_id_eq [OF assms] by (simp only: unat_of_nat) simp
qed

lemma base_digits:
  assumes "(a :: nat) * k + b = a' * k + b'" "b < k" "b' < k"
  shows "a = a' \<and> b = b'"
proof -
  have "(a * k + b) div k = a" "(a' * k + b') div k = a'" using assms(2,3) by simp_all
  then have "a = a'" using assms(1) by simp
  with assms(1) show ?thesis by simp
qed

lemma cuid_fields:
  assumes "t * 2 ^ 30 + c * 2 ^ 14 + d = t' * 2 ^ 30 + c' * 2 ^ 14 + (d' :: nat)"
    "c < 2 ^ 16" "d < 2 ^ 14" "c' < 2 ^ 16" "d' < 2 ^ 14"
  shows "t = t' \<and> c = c' \<and> d = d'"
proof -
  have "(t * 2 ^ 16 + c) * 2 ^ 14 + d = (t' * 2 ^ 16 + c') * 2 ^ 14 + d'"
    using assms(1) by (simp add: algebra_simps)
  then have "t * 2 ^ 16 + c = t' * 2 ^ 16 + c' \<and> d = d'" using assms(3,5) by (rule base_digits)
  with base_digits [of t "2 ^ 16" c t' c'] assms(2,4) show ?thesis by simp
qed

lemma cuid_id_inject:
  assumes "cuid_id (of_nat d) (int t, c) = cuid_id (of_nat d) (int t', c')"
    "t < 2 ^ 33" "c < 2 ^ 16" "t' < 2 ^ 33" "c' < 2 ^ 16" "d < 2 ^ 14"
  shows "t = t' \<and> c = c'"
proof -
  have "t * 2 ^ 30 + c * 2 ^ 14 + d = t' * 2 ^ 30 + c' * 2 ^ 14 + d"
    using assms(1) unat_cuid_id(1) [OF assms(2,3,6)] unat_cuid_id(1) [OF assms(4,5,6)] by metis
  from cuid_fields [OF this assms(3,6,5,6)] show ?thesis by blast
qed

subsection \<open>The counter within one second\<close>

definition next_counter :: "nat \<Rightarrow> nat" where
  "next_counter c = (if counterMax \<le> c + 1 then 1 else c + 1)"

lemma next_counter_funpow:
  assumes "1 \<le> c" "c < counterMax"
  shows "(next_counter ^^ j) c = (c - 1 + j) mod 65534 + 1"
proof (induction j)
  case (Suc j)
  let ?r = "(c - 1 + j) mod 65534"
  have r: "next_counter (r + 1) = Suc r mod 65534 + 1" if "r < 65534" for r
    using that by (auto simp: next_counter_def counterMax_def mod_Suc)
  have "next_counter (?r + 1) = Suc ?r mod 65534 + 1" by (rule r) simp
  moreover have "Suc ?r mod 65534 = (c - 1 + Suc j) mod 65534" by (simp add: mod_Suc_eq)
  ultimately show ?case using Suc by simp
qed (use assms in \<open>auto simp: counterMax_def\<close>)

lemma next_counter_bounds: "1 \<le> next_counter c" "next_counter c < counterMax"
  by (auto simp: next_counter_def counterMax_def)

text \<open>From any counter of 16 bits, 65534 rounds in one second see different counters.\<close>

lemma next_counter_distinct:
  assumes "c \<le> counterMax" "i < j" "j < 65534"
  shows "(next_counter ^^ i) c \<noteq> (next_counter ^^ j) c"
proof (cases "1 \<le> c \<and> c < counterMax")
  case True
  then have "(next_counter ^^ k) c = (c - 1 + k) mod 65534 + 1" for k by (simp add: next_counter_funpow)
  moreover have "(c - 1 + i) mod 65534 \<noteq> (c - 1 + j) mod 65534"
  proof
    assume "(c - 1 + i) mod 65534 = (c - 1 + j) mod 65534"
    then have "65534 dvd (c - 1 + j) - (c - 1 + i)" using assms(2) by (metis mod_eq_dvd_iff_nat nat_add_left_cancel_le less_imp_le)
    then have "65534 dvd j - i" by simp
    then show False using assms(2,3) by (auto dest: dvd_imp_le)
  qed
  ultimately show ?thesis by simp
next
  case False
  then have c: "c = 0 \<or> c = counterMax" using assms(1) by auto
  then have n: "next_counter c = 1" by (auto simp: next_counter_def counterMax_def)
  have f: "(next_counter ^^ Suc k) c = k mod 65534 + 1" for k
    using next_counter_funpow [of 1 k] n by (simp add: funpow_Suc_right counterMax_def del: funpow.simps)
  obtain j' where j: "j = Suc j'" using assms(2) by (cases j) auto
  show ?thesis
  proof (cases i)
    case 0
    have "(next_counter ^^ j) c \<noteq> c" using c f [of j'] j by (auto simp: counterMax_def)
    with 0 show ?thesis by simp
  next
    case (Suc i')
    with j assms(2,3) f [of i'] f [of j'] show ?thesis by simp
  qed
qed


subsection \<open>The rounds\<close>

lemma cuid_round_new:
  "0 \<le> now \<Longrightarrow> now < timeMax \<Longrightarrow> cg_lastTime s \<noteq> now \<Longrightarrow> cuid_round now s =
     Ok (\<lparr>cg_lastTime = now, cg_counter = cg_counter s + 1, cg_lastCounter = cg_counter s + 1\<rparr>,
         Some (now, cg_counter s + 1))"
  by (simp add: cuid_round_def)

lemma cuid_round_same:
  "0 \<le> now \<Longrightarrow> now < timeMax \<Longrightarrow> cg_lastTime s = now \<Longrightarrow> cuid_round now s =
     Ok (s\<lparr>cg_counter := next_counter (cg_counter s)\<rparr>,
         if next_counter (cg_counter s) = cg_lastCounter s then None
         else Some (now, next_counter (cg_counter s)))"
  by (simp add: cuid_round_def next_counter_def Let_def)

lemma cuid_round_bad: "\<not> (0 \<le> now \<and> now < timeMax) \<Longrightarrow> cuid_trace s (now # clock) = []"
  by (auto simp: cuid_round_def)

lemma cuid_trace_time: "(t, c) \<in> set (cuid_trace s clock) \<Longrightarrow> 0 \<le> t \<and> t < timeMax"
proof (induction clock arbitrary: s)
  case (Cons now clock)
  show ?case
  proof (cases "0 \<le> now \<and> now < timeMax")
    case True
    with Cons show ?thesis
      by (cases "cg_lastTime s = now") (auto simp: cuid_round_same cuid_round_new split: if_splits)
  next
    case False
    with Cons.prems cuid_round_bad [OF this, of s clock] show ?thesis by (simp only: list.set empty_iff)
  qed
qed simp

text \<open>
  While a second lasts, the counter has gone through \<open>j\<close> steps from \<open>L\<close>; everything offered later
  is different from what those steps offered.
\<close>

lemma cuid_trace_distinct:
  assumes "sorted (cg_lastTime s # clock)" and "cg_counter s = (next_counter ^^ j) L"
    and "L \<le> counterMax" and "count_list clock (cg_lastTime s) + j < 65534"
    and "\<forall>t. count_list clock t < 65534"
    and "\<forall>(t, c) \<in> set (cuid_trace s clock). c \<le> counterMax"
  shows "distinct (cuid_trace s clock) \<and> (\<forall>(t, c) \<in> set (cuid_trace s clock).
    cg_lastTime s \<le> t \<and> (t = cg_lastTime s \<longrightarrow> (\<forall>i \<le> j. c \<noteq> (next_counter ^^ i) L)))"
  using assms
proof (induction clock arbitrary: s j L)
  case (Cons now clock)
  have cnt: "count_list clock t < 65534" for t
    using Cons.prems(5) [rule_format, of t] by (simp split: if_splits)
  consider "\<not> (0 \<le> now \<and> now < timeMax)" | "0 \<le> now" "now < timeMax" "cg_lastTime s < now"
    | "0 \<le> now" "now < timeMax" "cg_lastTime s = now" using Cons.prems(1) by fastforce
  then show ?case
  proof cases
    case 1
    show ?thesis unfolding cuid_round_bad [OF 1] by simp
  next
    case 2
    let ?L = "cg_counter s + 1"
    let ?s = "\<lparr>cg_lastTime = now, cg_counter = ?L, cg_lastCounter = ?L\<rparr>"
    have tr: "cuid_trace s (now # clock) = (now, ?L) # cuid_trace ?s clock"
      using 2 by (simp add: cuid_round_new)
    have "distinct (cuid_trace ?s clock) \<and> (\<forall>(t, c) \<in> set (cuid_trace ?s clock).
        cg_lastTime ?s \<le> t \<and> (t = cg_lastTime ?s \<longrightarrow> (\<forall>i \<le> 0. c \<noteq> (next_counter ^^ i) ?L)))"
      using Cons.prems(1) Cons.prems(6) [unfolded tr] cnt by (intro Cons.IH) auto
    with 2 show ?thesis unfolding tr by auto
  next
    case 3
    let ?c = "next_counter (cg_counter s)"
    let ?s = "s\<lparr>cg_counter := ?c\<rparr>"
    have c: "?c = (next_counter ^^ Suc j) L" using Cons.prems(2) by simp
    have tr: "cuid_trace s (now # clock) = (if ?c = cg_lastCounter s then [] else [(now, ?c)]) @ cuid_trace ?s clock"
      using 3 by (simp add: cuid_round_same)
    have IH: "distinct (cuid_trace ?s clock) \<and> (\<forall>(t, c) \<in> set (cuid_trace ?s clock).
        cg_lastTime ?s \<le> t \<and> (t = cg_lastTime ?s \<longrightarrow> (\<forall>i \<le> Suc j. c \<noteq> (next_counter ^^ i) L)))"
      using Cons.prems(1-5) Cons.prems(6) [unfolded tr] 3 c cnt by (intro Cons.IH) auto
    have old: "cg_lastTime s \<le> t \<and> (t = cg_lastTime s \<longrightarrow> (\<forall>i \<le> j. c \<noteq> (next_counter ^^ i) L) \<and> c \<noteq> ?c)"
      if "(t, c) \<in> set (cuid_trace ?s clock)" for t c
    proof -
      have "cg_lastTime s \<le> t \<and> (t = cg_lastTime s \<longrightarrow> (\<forall>i \<le> Suc j. c \<noteq> (next_counter ^^ i) L))"
        using IH that by auto
      then show ?thesis unfolding \<open>?c = (next_counter ^^ Suc j) L\<close> by (metis le_SucI order_refl)
    qed
    then have "\<forall>(t, c) \<in> set (cuid_trace ?s clock). cg_lastTime s \<le> t \<and>
        (t = cg_lastTime s \<longrightarrow> (\<forall>i \<le> j. c \<noteq> (next_counter ^^ i) L)) \<and> (t, c) \<noteq> (now, ?c)"
      using 3(3) by blast
    moreover have "\<forall>i \<le> j. ?c \<noteq> (next_counter ^^ i) L"
      unfolding c
    proof (intro allI impI)
      fix i assume "i \<le> j"
      then show "(next_counter ^^ Suc j) L \<noteq> (next_counter ^^ i) L"
        using next_counter_distinct [OF Cons.prems(3), of i "Suc j"] Cons.prems(4) 3
        by (auto simp del: funpow.simps)
    qed
    ultimately show ?thesis unfolding tr using 3 IH by auto
  qed
qed simp


lemma cuid_trace_start_distinct:
  assumes "sorted clock" and "\<forall>t. count_list clock t < 65534"
    and "\<forall>(t, c) \<in> set (cuid_trace cuid_start clock). c \<le> counterMax"
  shows "distinct (cuid_trace cuid_start clock)"
proof (cases "\<exists>now rest. clock = now # rest \<and> now < 0")
  case True
  then obtain now rest where "clock = now # rest" "\<not> (0 \<le> now \<and> now < timeMax)" by auto
  then show ?thesis using cuid_round_bad [of now cuid_start rest] by (metis distinct.simps(1))
next
  case False
  then have "sorted (cg_lastTime cuid_start # clock)"
    using assms(1) by (cases clock) (auto simp: cuid_start_def)
  then show ?thesis using cuid_trace_distinct [of cuid_start clock 0 0] assms(2,3)
    by (simp add: cuid_start_def)
qed

text \<open>Rounds within one second go on where they were, whatever has been offered already.\<close>

lemma cuid_trace_replicate:
  assumes "0 \<le> cg_lastTime s" "cg_lastTime s < timeMax"
  shows "cuid_trace s (replicate n (cg_lastTime s)) = map (Pair (cg_lastTime s))
    (filter (\<lambda>c. c \<noteq> cg_lastCounter s) (map (\<lambda>j. (next_counter ^^ Suc j) (cg_counter s)) [0..<n]))"
  using assms
proof (induction n arbitrary: s)
  case (Suc n)
  let ?s = "s\<lparr>cg_counter := next_counter (cg_counter s)\<rparr>"
  have u: "map (\<lambda>j. (next_counter ^^ Suc j) (cg_counter s)) [0..<Suc n] =
      cg_counter ?s # map (\<lambda>j. (next_counter ^^ Suc j) (cg_counter ?s)) [0..<n]"
    by (simp add: upt_conv_Cons map_Suc_upt [symmetric] funpow_swap1 o_def del: upt_Suc)
  show ?case
    using Suc.IH [of ?s] Suc.prems unfolding u by (simp add: cuid_round_same)
qed simp

text \<open>One reading per second: the counter grows without being wrapped.\<close>

lemma cuid_trace_seconds:
  assumes "cg_lastTime s < a" "0 \<le> a" "a + int n < timeMax"
  shows "cuid_trace s (map (\<lambda>i. a + int i) [0..<Suc n] @ rest) =
    map (\<lambda>i. (a + int i, cg_counter s + Suc i)) [0..<Suc n] @
    cuid_trace \<lparr>cg_lastTime = a + int n, cg_counter = cg_counter s + Suc n,
      cg_lastCounter = cg_counter s + Suc n\<rparr> rest"
  using assms
proof (induction n arbitrary: a s)
  case 0
  then show ?case by (simp add: cuid_round_new)
next
  case (Suc n)
  let ?s = "\<lparr>cg_lastTime = a, cg_counter = cg_counter s + 1, cg_lastCounter = cg_counter s + 1\<rparr>"
  have u: "map f [0..<Suc (Suc n)] = f 0 # map (\<lambda>i. f (Suc i)) [0..<Suc n]" for f :: "nat \<Rightarrow> 'b"
    by (simp add: upt_conv_Cons map_Suc_upt [symmetric] o_def del: upt_Suc)
  have "cuid_trace s (map (\<lambda>i. a + int i) [0..<Suc (Suc n)] @ rest) =
      (a, cg_counter s + 1) # cuid_trace ?s (map (\<lambda>i. (a + 1) + int i) [0..<Suc n] @ rest)"
    using Suc.prems unfolding u by (simp add: cuid_round_new add.assoc del: upt_Suc)
  also have "\<dots> = (a, cg_counter s + 1) # map (\<lambda>i. ((a + 1) + int i, cg_counter ?s + Suc i)) [0..<Suc n] @
      cuid_trace \<lparr>cg_lastTime = (a + 1) + int n, cg_counter = cg_counter ?s + Suc n,
        cg_lastCounter = cg_counter ?s + Suc n\<rparr> rest"
    using Suc.prems by (subst Suc.IH) simp_all
  finally show ?case unfolding u by (simp add: add.assoc del: upt_Suc)
qed

lemma not_distinct_map_snoc: "x \<in> set xs \<Longrightarrow> f x = f y \<Longrightarrow> \<not> distinct (map f (xs @ [y]))"
  by (auto simp: image_iff) (metis image_eqI)

lemma cuid_id_minus_one: "cuid_id (- 1) tc = - 1"
  by (cases tc) (simp add: cuid_id_def)

lemma InitCuidDev_minus_one:
  "InitCuidDev 0 (- 1) clock = (- 1, Some (replicate (length (cuid_trace cuid_start clock)) (- 1)))"
proof -
  have "cuid_id (- 1) = (\<lambda>_. - 1)" using cuid_id_minus_one by blast
  then show ?thesis by (simp add: InitCuidDev_def devIDMax_def map_replicate_const)
qed

lemma InitCuidDev_device:
  assumes "d < 2 ^ 14"
  shows "InitCuidDev 0 (of_nat d) clock =
    (of_nat d, Some (map (cuid_id (of_nat d)) (cuid_trace cuid_start clock)))"
proof -
  have "sint (of_nat d :: 64 word) = int d"
    using assms by (simp add: signed_of_nat signed_take_bit_int_eq_self)
  with assms show ?thesis by (simp add: InitCuidDev_def devIDMax_def)
qed

text \<open>A second in which all counters are used: one reading is skipped, then the counters start again.\<close>

lemma exhausted_second:
  assumes "0 \<le> now" and "now < timeMax" and "cg_lastTime s < now" and "cg_counter s + 1 < counterMax"
    and N: "N = 65534"
  shows "length (cuid_trace s (replicate (Suc N) now)) = N"
    and "distinct (cuid_trace s (replicate (Suc N) now))"
    and "cuid_trace s (replicate (Suc (Suc N)) now) =
      cuid_trace s (replicate (Suc N) now) @ [cuid_trace s (replicate (Suc N) now) ! 1]"
proof -
  let ?L = "cg_counter s + 1"
  let ?s = "\<lparr>cg_lastTime = now, cg_counter = ?L, cg_lastCounter = ?L\<rparr>"
  let ?f = "\<lambda>j. (next_counter ^^ j) ?L"
  have tr: "cuid_trace s (replicate (Suc m) now) =
      (now, ?L) # map (Pair now) (filter (\<lambda>c. c \<noteq> ?L) (map (\<lambda>j. ?f (Suc j)) [0..<m]))" for m
    using cuid_trace_replicate [of ?s m] assms(1-3) by (simp add: cuid_round_new)
  have f: "?f j = (cg_counter s + j) mod N + 1" for j
    using next_counter_funpow [of ?L j] assms(4) N by simp
  have lt: "cg_counter s < N" using assms(4) N by (simp add: counterMax_def)
  obtain M where M: "N = Suc M" "0 < M" using N by (cases N) auto
  have ne: "?f (Suc j) \<noteq> ?L" if "j < M" for j
    using next_counter_distinct [of ?L 0 "Suc j"] assms(4) that M N by (simp del: funpow.simps)
  have flt: "filter (\<lambda>c. c \<noteq> ?L) (map (\<lambda>j. ?f (Suc j)) [0..<M]) = map (\<lambda>j. ?f (Suc j)) [0..<M]"
    using ne by (simp add: filter_True del: funpow.simps)
  have u: "[0..<Suc k] = [0..<k] @ [k]" for k by simp
  have "(cg_counter s + N) mod N = cg_counter s" using lt by simp
  then have "?f (Suc M) = ?L" using f [of N] M(1) by simp
  then have one: "cuid_trace s (replicate (Suc N) now) =
      (now, ?L) # map (\<lambda>j. (now, ?f (Suc j))) [0..<M]"
    unfolding tr M(1) u map_append filter_append flt by (simp del: funpow.simps)
  have "?f (Suc N) = ?f (Suc 0)" using f [of "Suc N"] f [of "Suc 0"]
    by (metis add_Suc_right add_0_right mod_add_self2 add_Suc)
  then have two: "cuid_trace s (replicate (Suc (Suc N)) now) =
      (now, ?L) # map (\<lambda>j. (now, ?f (Suc j))) [0..<M] @ [(now, ?f (Suc 0))]"
    using \<open>?f (Suc M) = ?L\<close> ne [OF M(2)]
    unfolding tr M(1) u map_append filter_append flt by (simp del: funpow.simps)
  show "length (cuid_trace s (replicate (Suc N) now)) = N" unfolding one using M(1) by simp
  show "cuid_trace s (replicate (Suc (Suc N)) now) =
      cuid_trace s (replicate (Suc N) now) @ [cuid_trace s (replicate (Suc N) now) ! 1]"
    unfolding one two using M(2) by (simp del: funpow.simps)
  have "(now, ?L) # map (\<lambda>j. (now, ?f (Suc j))) [0..<M] = map (\<lambda>j. (now, ?f j)) [0..<N]"
    unfolding M(1) by (simp add: upt_conv_Cons map_Suc_upt [symmetric] o_def del: upt_Suc funpow.simps)
  moreover have "inj_on ?f {0..<N}"
    using next_counter_distinct [of ?L] assms(4) N by (intro linorder_inj_onI) auto
  ultimately show "distinct (cuid_trace s (replicate (Suc N) now))"
    unfolding one by (simp add: distinct_map inj_on_def del: funpow.simps)
qed

lemma cuid_trace_prefix:
  assumes "m \<le> n"
  shows "\<exists>ys. cuid_trace s (replicate n now) = cuid_trace s (replicate m now) @ ys"
  using assms
proof (induction m arbitrary: n s)
  case (Suc m)
  then obtain k where n: "n = Suc k" "m \<le> k" by (cases n) auto
  show ?case
  proof (cases "cuid_round now s")
    case (Ok r)
    obtain s' o' where r: "r = (s', o')" by force
    obtain ys where "cuid_trace s' (replicate k now) = cuid_trace s' (replicate m now) @ ys"
      using Suc.IH [OF n(2)] by blast
    then show ?thesis unfolding n(1) using Ok r by (cases o') auto
  qed (auto simp: n(1))
qed simp

subsection \<open>Properties\<close>

text \<open>
  C21: A generator started by \<open>InitCuidDev\<close> for a device number from 0 to 16383, with a clock that
  never goes back and is read fewer than 65534 times in any second, and as long as the counter
  stays within its 16 bits: all identifiers it offers are different; each is a non-negative 64-bit
  number from which time, counter and device can be read. The lower end of the device numbers is
  the caller's to keep: \<open>InitCuidDev\<close> checks the upper end only, and accepts the device number -1,
  for which every identifier of the generator is -1.
\<close>

theorem cuid_unique:
  assumes "sorted clock" and "\<forall>t. count_list clock t < 65534" and "d < 2 ^ 14"
    and "\<forall>(t, c) \<in> set (cuid_trace cuid_start clock). c \<le> counterMax"
  shows "InitCuidDev 0 (of_nat d) clock =
      (of_nat d, Some (map (cuid_id (of_nat d)) (cuid_trace cuid_start clock))) \<and>
    distinct (map (cuid_id (of_nat d)) (cuid_trace cuid_start clock)) \<and>
    (\<forall>(t, c) \<in> set (cuid_trace cuid_start clock).
       unat (cuid_id (of_nat d) (t, c)) = nat t * 2 ^ 30 + c * 2 ^ 14 + d \<and>
       unat (cuid_id (of_nat d) (t, c)) < 2 ^ 63) \<and>
    InitCuidDev 0 (- 1) clock =
      (- 1, Some (replicate (length (cuid_trace cuid_start clock)) (- 1)))"
proof -
  let ?T = "cuid_trace cuid_start clock"
  have r: "0 \<le> t \<and> t = int (nat t) \<and> nat t < 2 ^ 33 \<and> c < 2 ^ 16" if "(t, c) \<in> set ?T" for t c
    using cuid_trace_time [OF that] assms(4) that by (auto simp: timeMax_def counterMax_def)
  have "inj_on (cuid_id (of_nat d)) (set ?T)"
  proof (intro inj_onI, clarify)
    fix t c t' c'
    assume *: "(t, c) \<in> set ?T" "(t', c') \<in> set ?T"
      "cuid_id (of_nat d) (t, c) = cuid_id (of_nat d) (t', c')"
    with r [OF *(1)] r [OF *(2)] cuid_id_inject [of d "nat t" c "nat t'" c'] assms(3)
    show "t = t' \<and> c = c'" by auto
  qed
  then have "distinct (map (cuid_id (of_nat d)) ?T)"
    using cuid_trace_start_distinct [OF assms(1,2,4)] by (simp add: distinct_map)
  moreover have "unat (cuid_id (of_nat d) (t, c)) = nat t * 2 ^ 30 + c * 2 ^ 14 + d \<and>
       unat (cuid_id (of_nat d) (t, c)) < 2 ^ 63" if "(t, c) \<in> set ?T" for t c
    using r [OF that] unat_cuid_id [of "nat t" c d] assms(3) by metis
  ultimately show ?thesis using InitCuidDev_device [OF assms(3)] InitCuidDev_minus_one by blast
qed

theorem cuid_unique_witness:
  "InitCuidDev 0 7 [100, 101] = (7, Some [107374198791, 108447956999]) \<and>
   distinct [107374198791, 108447956999 :: 64 word] \<and>
   InitCuidDev 0 (- 1) [100, 101] = (- 1, Some [- 1, - 1])"
proof -
  have t: "cuid_trace cuid_start [100, 101] = [(100, 1), (101, 2)]"
    by (simp add: cuid_round_def cuid_start_def timeMax_def)
  have i: "cuid_id 7 (100, Suc 0) = 107374198791" "cuid_id 7 (101, 2) = 108447956999"
    by (simp_all add: cuid_id_def)
  show ?thesis using cuid_unique [of "[100, 101]" 7] by (simp add: t i counterMax_def del: cuid_trace.simps)
qed

text \<open>
  C35: A second that the generator enters with a lower last time and a counter below 0xFFFE, and in
  which the clock is then read again and again: 65535 readings offer 65534 identifiers, with
  different counters - the check that should stop a second whose counters are used up skips one
  reading - and the very next reading offers the second of them again. So from 65536 readings on
  an identifier has been offered twice, for any device number.
\<close>

theorem cuid_exhausted_second_repeats:
  assumes "0 \<le> now" and "now < timeMax" and "cg_lastTime s < now" and "cg_counter s + 1 < counterMax"
  shows "length (cuid_trace s (replicate 65535 now)) = 65534 \<and>
    distinct (cuid_trace s (replicate 65535 now)) \<and>
    cuid_trace s (replicate 65536 now) =
      cuid_trace s (replicate 65535 now) @ [cuid_trace s (replicate 65535 now) ! 1] \<and>
    (\<forall>n \<ge> 65536. \<not> distinct (map (cuid_id devid) (cuid_trace s (replicate n now))))"
proof (intro conjI allI impI)
  note ex = exhausted_second [OF assms refl]
  show "length (cuid_trace s (replicate 65535 now)) = 65534"
    "distinct (cuid_trace s (replicate 65535 now))"
    "cuid_trace s (replicate 65536 now) =
      cuid_trace s (replicate 65535 now) @ [cuid_trace s (replicate 65535 now) ! 1]"
    using ex(1-3) by simp_all
  fix n :: nat assume "65536 \<le> n"
  then obtain ys where "cuid_trace s (replicate n now) = cuid_trace s (replicate 65536 now) @ ys"
    using cuid_trace_prefix [of 65536 n s now] by blast
  then have "\<not> distinct (cuid_trace s (replicate n now))"
    using nth_mem [of 1 "cuid_trace s (replicate 65535 now)"] ex(1,3) by simp
  then show "\<not> distinct (map (cuid_id devid) (cuid_trace s (replicate n now)))"
    by (simp add: distinct_map)
qed

theorem cuid_exhausted_second_repeats_witness:
  "length (cuid_trace cuid_start (replicate 65535 100)) = 65534 \<and>
   \<not> distinct (map (cuid_id 7) (cuid_trace cuid_start (replicate 65536 100)))"
proof -
  have "(0 :: int) \<le> 100" "(100 :: int) < timeMax" "cg_lastTime cuid_start < 100"
    "cg_counter cuid_start + 1 < counterMax"
    by (simp_all add: cuid_start_def timeMax_def counterMax_def)
  from cuid_exhausted_second_repeats [OF this, of 7] show ?thesis by blast
qed

text \<open>
  The counter is wrapped only when a second is shared. With one reading in each of 65538 seconds
  it passes its 16 bits and spills into the time: the next reading, in the last of these
  seconds, offers an identifier that was offered two rounds before.
\<close>

theorem cuid_counter_spills:
  "\<not> distinct (map (cuid_id devid)
     (cuid_trace cuid_start (map (\<lambda>i. 2 + int i) [0..<Suc 65537] @ [65539])))"
proof -
  let ?up = "map (\<lambda>i. (2 + int i, Suc i)) [0..<Suc 65537]"
  have "cuid_trace cuid_start (map (\<lambda>i. 2 + int i) [0..<Suc 65537] @ [65539]) = ?up @ [(65539, 1)]"
    by (subst cuid_trace_seconds)
       (simp_all add: cuid_start_def timeMax_def cuid_round_def counterMax_def del: upt_Suc)
  moreover have "(65538, 65537) \<in> set ?up" unfolding set_map set_upt
    by (rule image_eqI [of _ _ 65536]) simp_all
  moreover have "cuid_id devid (65538, 65537) = cuid_id devid (65539, 1)"
    by (simp add: cuid_id_def flip: or.assoc)
  ultimately show ?thesis by (simp only: not_distinct_map_snoc not_False_eq_True)
qed

text \<open>
  The text of an identifier reads back as the identifier, for every 64-bit value; through JSON
  too, given that the decoder returns what stands between the quotes.
\<close>

theorem CUID_text_roundtrip:
  assumes "json_string (CUID_MarshalJSON c) = Ok (CUID_String c)"
  shows "StrToCUID (CUID_String c) = c \<and> CUID_UnmarshalJSON json_string (CUID_MarshalJSON c) c0 = (c, None)"
proof -
  have p: "ParseInt 64 (FormatInt (sint c)) = Ok (sint c)"
    using sint_range_size [of c] by (intro ParseInt_FormatInt) (simp_all add: word_size)
  then have "FormatInt (sint c) \<noteq> []" by (auto simp: FormatInt_def)
  with p assms show ?thesis
    by (simp add: StrToCUID_def CUID_String_def StrToInt64_def CUID_UnmarshalJSON_def)
qed

theorem CUID_text_roundtrip_witness:
  "StrToCUID (CUID_String (- 5)) = - 5 \<and>
   CUID_UnmarshalJSON (\<lambda>v. Ok (butlast (tl v))) (CUID_MarshalJSON (- 5)) 0 = (- 5, None)"
  by (rule CUID_text_roundtrip) (simp add: CUID_MarshalJSON_def CUID_String_def)

end
