(* ===== verification/Std_Time.thy ===== *)
theory Std_Time
  imports Std_Strings
begin

text \<open>
  What the repository uses of the package \<^verbatim>\<open>time\<close>: instants in a location with a fixed offset from
  UTC, the Gregorian calendar, and the formats of dates and times of the repository.
\<close>

subsection \<open>The calendar\<close>

definition leap :: "int \<Rightarrow> bool" where
  "leap y \<longleftrightarrow> y mod 4 = 0 \<and> (y mod 100 \<noteq> 0 \<or> y mod 400 = 0)"

text \<open>Days from the first of January of the year 1 to that of the year \<open>y\<close>.\<close>

definition year_days :: "int \<Rightarrow> int" where
  "year_days y = 365 * (y - 1) + (y - 1) div 4 - (y - 1) div 100 + (y - 1) div 400"

definition month_lens :: "bool \<Rightarrow> int list" where
  "month_lens l = [31, if l then 29 else 28, 31, 30, 31, 30, 31, 31, 30, 31, 30, 31]"

definition valid_date :: "int \<Rightarrow> int \<Rightarrow> int \<Rightarrow> bool" where
  "valid_date y m d \<longleftrightarrow> 1 \<le> m \<and> m \<le> 12 \<and> 1 \<le> d \<and> d \<le> month_lens (leap y) ! nat (m - 1)"

definition year_day :: "bool \<Rightarrow> int \<Rightarrow> int \<Rightarrow> int" where
  "year_day l m d = sum_list (take (nat (m - 1)) (month_lens l)) + d - 1"

text \<open>Days since the first of January 1970.\<close>

definition epoch_days :: "int \<Rightarrow> int \<Rightarrow> int \<Rightarrow> int" where
  "epoch_days y m d = year_days y + year_day (leap y) m d - 719162"

fun find_month :: "int \<Rightarrow> int list \<Rightarrow> int \<Rightarrow> int \<times> int" where
  "find_month m [] d = (m, d + 1)"
| "find_month m (l # ls) d = (if d < l then (m, d + 1) else find_month (m + 1) ls (d - l))"

definition civil :: "int \<Rightarrow> int \<times> int \<times> int" where
  "civil n =
     (let n = n + 719162;
          a = n div 146097; r = n mod 146097;
          b = min 3 (r div 36524); r = r - 36524 * b;
          c = r div 1461; r = r - 1461 * c;
          e = min 3 (r div 365);
          y = 400 * a + 100 * b + 4 * c + e + 1
      in (y, find_month 1 (month_lens (leap y)) (r - 365 * e)))"

lemma mod_zero_top: "0 < x \<Longrightarrow> x \<le> n \<Longrightarrow> x mod n = 0 \<longleftrightarrow> x = (n :: int)"
proof
  assume x: "0 < x" "x \<le> n" "x mod n = 0"
  show "x = n"
  proof (rule ccontr)
    assume "x \<noteq> n"
    with x(1,2) have "x mod n = x" by (intro mod_pos_pos_trivial) linarith+
    with x show False by simp
  qed
qed simp

lemma leap_parts:
  assumes "y = 400 * a + 100 * b + 4 * c + e + 1" "0 \<le> b" "b \<le> 3" "0 \<le> c" "c \<le> 24" "0 \<le> e" "e \<le> 3"
  shows "leap y \<longleftrightarrow> e = 3 \<and> (c \<noteq> 24 \<or> b = 3)"
proof -
  have "y mod 4 = (e + 1) mod 4"
    using assms(1) mod_mult_self4 [of 4 "100 * a + 25 * b + c" "e + 1"] by (simp add: algebra_simps)
  moreover have "y mod 100 = (4 * c + e + 1) mod 100"
    using assms(1) mod_mult_self4 [of 100 "4 * a + b" "4 * c + e + 1"] by (simp add: algebra_simps)
  moreover have "y mod 400 = (100 * b + 4 * c + e + 1) mod 400"
    using assms(1) mod_mult_self4 [of 400 a "100 * b + 4 * c + e + 1"] by (simp add: algebra_simps)
  moreover have "(e + 1) mod 4 = 0 \<longleftrightarrow> e = 3" using assms(6,7) mod_zero_top [of "e + 1" 4] by simp
  moreover have "(4 * c + e + 1) mod 100 = 0 \<longleftrightarrow> c = 24 \<and> e = 3"
  proof -
    have "4 * c + e + 1 \<le> 100" "0 < 4 * c + e + 1" using assms by linarith+
    then have "(4 * c + e + 1) mod 100 = 0 \<longleftrightarrow> 4 * c + e + 1 = 100" by (intro mod_zero_top)
    moreover have "4 * c + e + 1 = 100 \<longleftrightarrow> c = 24 \<and> e = 3"
      by (intro iffI conjI; (elim conjE)?) (use assms(5,7) in linarith)+
    ultimately show ?thesis by (simp only:)
  qed
  moreover have "(100 * b + 4 * c + e + 1) mod 400 = 0 \<longleftrightarrow> b = 3 \<and> c = 24 \<and> e = 3"
  proof -
    have "100 * b + 4 * c + e + 1 \<le> 400" "0 < 100 * b + 4 * c + e + 1" using assms by linarith+
    then have "(100 * b + 4 * c + e + 1) mod 400 = 0 \<longleftrightarrow> 100 * b + 4 * c + e + 1 = 400" by (intro mod_zero_top)
    moreover have "100 * b + 4 * c + e + 1 = 400 \<longleftrightarrow> b = 3 \<and> c = 24 \<and> e = 3"
      by (intro iffI conjI; (elim conjE)?) (use assms(3,5,7) in linarith)+
    ultimately show ?thesis by (simp only:)
  qed
  ultimately show ?thesis unfolding leap_def by (simp only:) blast
qed

lemma find_month_year_day:
  assumes "1 \<le> m" "m \<le> 12" "1 \<le> d" "d \<le> month_lens l ! nat (m - 1)"
  shows "find_month 1 (month_lens l) (year_day l m d) = (m, d)"
    and "0 \<le> year_day l m d" and "year_day l m d < (if l then 366 else 365)"
proof -
  have "m = 1 \<or> m = 2 \<or> m = 3 \<or> m = 4 \<or> m = 5 \<or> m = 6 \<or> m = 7 \<or> m = 8 \<or> m = 9 \<or> m = 10 \<or> m = 11 \<or> m = 12"
    using assms(1,2) by presburger
  then have "find_month 1 (month_lens l) (year_day l m d) = (m, d) \<and> 0 \<le> year_day l m d \<and>
      year_day l m d < (if l then 366 else 365)"
    using assms(3,4) by (cases l; elim disjE; simp add: month_lens_def year_day_def)
  then show "find_month 1 (month_lens l) (year_day l m d) = (m, d)"
    and "0 \<le> year_day l m d" and "year_day l m d < (if l then 366 else 365)" by blast+
qed

lemma div_part: "0 \<le> e \<Longrightarrow> e < n \<Longrightarrow> (n * k + e) div n = (k :: int)"
  by simp

lemma mod_part: "0 \<le> e \<Longrightarrow> e < n \<Longrightarrow> (n * k + e) mod n = (e :: int)"
  by simp

text \<open>A number in cycles of 400, 100 and 4.\<close>

lemma cycles:
  fixes x :: int
  obtains a b c e where "x = 400 * a + 100 * b + 4 * c + e" "0 \<le> b" "b \<le> 3" "0 \<le> c" "c \<le> 24" "0 \<le> e" "e \<le> 3"
    "x div 4 = 100 * a + 25 * b + c" "x div 100 = 4 * a + b" "x div 400 = a"
proof -
  define r where "r = x mod 400"
  define q where "q = r mod 100"
  have x: "x = 400 * (x div 400) + r" and r: "r = 100 * (r div 100) + q" and q: "q = 4 * (q div 4) + q mod 4"
    by (simp_all add: r_def q_def)
  have rb: "0 \<le> r" "r < 400" "0 \<le> q" "q < 100" "0 \<le> q mod 4" "q mod 4 < 4" by (simp_all add: r_def q_def)
  have bounds: "0 \<le> r div 100" "r div 100 \<le> 3" "0 \<le> q div 4" "q div 4 \<le> 24" using r q rb by linarith+
  define a b c e where "a = x div 400" and "b = r div 100" and "c = q div 4" and "e = q mod 4"
  have y: "x = 400 * a + 100 * b + 4 * c + e" using x r q by (simp add: a_def b_def c_def e_def)
  have n: "0 \<le> b" "b \<le> 3" "0 \<le> c" "c \<le> 24" "0 \<le> e" "e \<le> 3"
    using bounds rb by (simp_all add: b_def c_def e_def)
  have "x = 4 * (100 * a + 25 * b + c) + e" "x = 100 * (4 * a + b) + (4 * c + e)" "x = 400 * a + (100 * b + (4 * c + e))"
    using y by simp_all
  then have "x div 4 = 100 * a + 25 * b + c" "x div 100 = 4 * a + b" "x div 400 = a"
    using div_part [of e 4 "100 * a + 25 * b + c"] div_part [of "4 * c + e" 100 "4 * a + b"]
      div_part [of "100 * b + (4 * c + e)" 400 a] n by simp_all
  with y n show ?thesis by (rule that)
qed

text \<open>The calendar date of a day is the date the day was computed from.\<close>

lemma civil_epoch_days:
  assumes "valid_date y m d"
  shows "civil (epoch_days y m d) = (y, m, d)"
proof -
  obtain a b c e where y1: "y - 1 = 400 * a + 100 * b + 4 * c + e"
    and r: "0 \<le> b" "b \<le> 3" "0 \<le> c" "c \<le> 24" "0 \<le> e" "e \<le> 3"
    and div: "(y - 1) div 4 = 100 * a + 25 * b + c" "(y - 1) div 100 = 4 * a + b" "(y - 1) div 400 = a"
    using cycles [of "y - 1"] by metis
  from y1 have y: "y = 400 * a + 100 * b + 4 * c + e + 1" by simp
  note lp = leap_parts [OF y r]
  let ?Y = "year_day (leap y) m d"
  have Y: "0 \<le> ?Y" "?Y < (if leap y then 366 else 365)" "find_month 1 (month_lens (leap y)) ?Y = (m, d)"
    using assms find_month_year_day by (auto simp: valid_date_def)
  let ?n = "epoch_days y m d + 719162"
  have n: "?n = 146097 * a + (36524 * b + (1461 * c + (365 * e + ?Y)))"
    unfolding epoch_days_def year_days_def div using y by simp
  have e1: "365 * e + ?Y < 1461" using Y r lp by (cases "e = 3") (auto split: if_splits)
  have e2: "1461 * c + (365 * e + ?Y) < (if b = 3 then 36525 else 36524)"
  proof (cases "c = 24")
    case True
    have "365 * e + ?Y < (if b = 3 then 1461 else 1460)"
      using Y r lp True by (cases "e = 3"; cases "b = 3") (auto split: if_splits)
    with True show ?thesis by (auto split: if_splits)
  qed (use r e1 in auto)
  have e3: "36524 * b + (1461 * c + (365 * e + ?Y)) < 146097"
    using e2 r by (cases "b = 3") auto
  have pos: "0 \<le> 1461 * c + (365 * e + ?Y)" "0 \<le> 365 * e + ?Y" using r Y by auto
  have A: "?n div 146097 = a" "?n mod 146097 = 36524 * b + (1461 * c + (365 * e + ?Y))"
    unfolding n by (rule div_part mod_part; use e3 pos r in linarith)+
  have B: "min 3 ((36524 * b + (1461 * c + (365 * e + ?Y))) div 36524) = b"
  proof (cases "b = 3")
    case True
    have "3 \<le> (36524 * 3 + (1461 * c + (365 * e + ?Y))) div 36524"
      using pos(1) zdiv_mono1 [of "36524 * 3" "36524 * 3 + (1461 * c + (365 * e + ?Y))" 36524] by linarith
    with True show ?thesis by (simp only: min_def if_True)
  next
    case False
    then have "(36524 * b + (1461 * c + (365 * e + ?Y))) div 36524 = b"
      using e2 pos by (intro div_part) auto
    with r(2) show ?thesis by (simp only: min_absorb2)
  qed
  have C: "(1461 * c + (365 * e + ?Y)) div 1461 = c" using e1 pos by (intro div_part)
  have E: "min 3 ((365 * e + ?Y) div 365) = e"
  proof (cases "e = 3")
    case True
    have "3 \<le> (365 * 3 + ?Y) div 365" using Y(1) zdiv_mono1 [of "365 * 3" "365 * 3 + ?Y" 365] by linarith
    with True show ?thesis by (simp only: min_def if_True)
  next
    case False
    then have "?Y < 365" using lp Y by (simp split: if_splits)
    then have "(365 * e + ?Y) div 365 = e" using Y by (intro div_part) auto
    with r(6) show ?thesis by (simp only: min_absorb2)
  qed
  have D: "36524 * b + (1461 * c + (365 * e + ?Y)) - 36524 * b = 1461 * c + (365 * e + ?Y)"
    "1461 * c + (365 * e + ?Y) - 1461 * c = 365 * e + ?Y" "365 * e + ?Y - 365 * e = ?Y" by simp_all
  show ?thesis
    unfolding civil_def Let_def A B D(1) C D(2) E D(3) y [symmetric] Y(3) by (rule refl)
qed

text \<open>Different days have different dates.\<close>

lemma find_month_sum:
  "find_month k ls d0 = (m, d) \<Longrightarrow> k \<le> m \<and> sum_list (take (nat (m - k)) ls) + d - 1 = d0"
proof (induction ls arbitrary: k d0)
  case (Cons l ls)
  show ?case
  proof (cases "d0 < l")
    case False
    with Cons.prems have "find_month (k + 1) ls (d0 - l) = (m, d)" by simp
    from Cons.IH [OF this] have IH: "k + 1 \<le> m" "sum_list (take (nat (m - (k + 1))) ls) + d - 1 = d0 - l" by auto
    then have "nat (m - k) = Suc (nat (m - (k + 1)))" by linarith
    with IH show ?thesis by simp
  qed (use Cons.prems in simp)
qed simp

lemma epoch_days_civil: "epoch_days y m d = n" if "civil n = (y, m, d)"
proof -
  define n' a r b r1 c r2 e where "n' = n + 719162" and "a = n' div 146097" and "r = n' mod 146097"
    and "b = min 3 (r div 36524)" and "r1 = r - 36524 * b" and "c = r1 div 1461" and "r2 = r1 - 1461 * c"
    and "e = min 3 (r2 div 365)"
  note defs = n'_def a_def r_def b_def r1_def c_def r2_def e_def
  have y: "y = 400 * a + 100 * b + 4 * c + e + 1"
    and fm: "find_month 1 (month_lens (leap y)) (r2 - 365 * e) = (m, d)"
    using that by (auto simp only: civil_def Let_def prod.inject defs)
  have n': "n' = 146097 * a + r" "0 \<le> r" "r < 146097" by (simp_all add: a_def r_def)
  have b: "0 \<le> b" "b \<le> 3" using n'(2) by (auto simp: b_def)
  have r1: "0 \<le> r1 \<and> r1 < 36525"
  proof (cases "3 \<le> r div 36524")
    case True
    then have "b = 3" "36524 * 3 \<le> r" by (simp_all add: b_def)
    with n' show ?thesis by (simp add: r1_def)
  next
    case False
    then have "b = r div 36524" by (simp add: b_def)
    then have "r1 = r mod 36524" by (simp add: r1_def minus_mult_div_eq_mod)
    then show ?thesis using pos_mod_bound [of 36524 r] by simp
  qed
  then have c: "0 \<le> c" "c \<le> 24"
    using zdiv_mono1 [of 0 r1 1461] zdiv_mono1 [of r1 36524 1461] by (simp_all add: c_def)
  have r2: "0 \<le> r2" by (simp add: r2_def c_def minus_mult_div_eq_mod)
  have e: "0 \<le> e" "e \<le> 3" using zdiv_mono1 [of 0 r2 365] r2 by (auto simp: e_def)
  have div: "(y - 1) div 4 = 100 * a + 25 * b + c" "(y - 1) div 100 = 4 * a + b" "(y - 1) div 400 = a"
    using div_part [of e 4 "100 * a + 25 * b + c"] div_part [of "4 * c + e" 100 "4 * a + b"]
      div_part [of "100 * b + (4 * c + e)" 400 a] y b c e by (simp_all add: algebra_simps)
  have "year_days y + (r2 - 365 * e) = n'"
    unfolding year_days_def div using y n'(1) by (simp add: r1_def r2_def)
  with find_month_sum [OF fm] show ?thesis by (simp add: epoch_days_def year_day_def n'_def)
qed

lemma civil_inj: "civil n = civil n' \<Longrightarrow> n = n'"
  by (metis epoch_days_civil prod_cases3)

subsection \<open>Instants\<close>

text \<open>Seconds since 1970, nanoseconds, and the offset of the location in seconds.\<close>

record gtime =
  t_sec :: int
  t_nsec :: int
  t_loc :: int

definition date_of :: "gtime \<Rightarrow> int \<times> int \<times> int" where
  "date_of t = civil ((t_sec t + t_loc t) div 86400)"

definition clock_of :: "gtime \<Rightarrow> int \<times> int \<times> int" where
  "clock_of t = (let s = (t_sec t + t_loc t) mod 86400 in (s div 3600, s mod 3600 div 60, s mod 60))"

text \<open>\<open>time.Date\<close> for a valid date and clock.\<close>

definition time_Date :: "int \<Rightarrow> int \<Rightarrow> int \<Rightarrow> int \<Rightarrow> int \<Rightarrow> int \<Rightarrow> int \<Rightarrow> int \<Rightarrow> gtime" where
  "time_Date y mo d h mi s ns loc =
     \<lparr>t_sec = epoch_days y mo d * 86400 + h * 3600 + mi * 60 + s - loc, t_nsec = ns, t_loc = loc\<rparr>"

definition valid_clock :: "int \<Rightarrow> int \<Rightarrow> int \<Rightarrow> bool" where
  "valid_clock h mi s \<longleftrightarrow> 0 \<le> h \<and> h < 24 \<and> 0 \<le> mi \<and> mi < 60 \<and> 0 \<le> s \<and> s < 60"

lemma time_Date_parts:
  assumes "valid_date y mo d" and "valid_clock h mi s"
  shows "date_of (time_Date y mo d h mi s ns loc) = (y, mo, d)"
    and "clock_of (time_Date y mo d h mi s ns loc) = (h, mi, s)"
proof -
  let ?c = "h * 3600 + (mi * 60 + s)"
  have c: "0 \<le> ?c" "?c < 86400" "0 \<le> mi * 60 + s" "mi * 60 + s < 3600"
    using assms(2) by (auto simp: valid_clock_def)
  have t: "epoch_days y mo d * 86400 + h * 3600 + mi * 60 + s - loc + loc = 86400 * epoch_days y mo d + ?c" by simp
  note dm = div_part mod_part
  have "(86400 * epoch_days y mo d + ?c) div 86400 = epoch_days y mo d"
    "(86400 * epoch_days y mo d + ?c) mod 86400 = ?c" by (rule dm [OF c(1,2)])+
  moreover have "(3600 * h + (mi * 60 + s)) div 3600 = h" "(3600 * h + (mi * 60 + s)) mod 3600 = mi * 60 + s"
    by (rule dm [OF c(3,4)])+
  moreover have "(60 * mi + s) div 60 = mi" using assms(2) by (intro div_part) (simp_all add: valid_clock_def)
  moreover have "?c mod 60 = s"
  proof -
    have "?c = 60 * (60 * h + mi) + s" by simp
    also have "\<dots> mod 60 = s" using assms(2) by (intro mod_part) (simp_all add: valid_clock_def)
    finally show ?thesis .
  qed
  moreover have "?c = 3600 * h + (mi * 60 + s)" "mi * 60 + s = 60 * mi + s" by simp_all
  ultimately have P: "civil ((86400 * epoch_days y mo d + ?c) div 86400) = (y, mo, d)"
    "(let s = (86400 * epoch_days y mo d + ?c) mod 86400 in (s div 3600, s mod 3600 div 60, s mod 60)) = (h, mi, s)"
    using civil_epoch_days [OF assms(1)] by (simp_all only: Let_def)
  show "date_of (time_Date y mo d h mi s ns loc) = (y, mo, d)"
    unfolding date_of_def time_Date_def gtime.select_convs t by (rule P(1))
  show "clock_of (time_Date y mo d h mi s ns loc) = (h, mi, s)"
    unfolding clock_of_def time_Date_def gtime.select_convs t by (rule P(2))
qed

subsection \<open>Formats\<close>

text \<open>A number of at least \<open>w\<close> digits.\<close>

definition pad :: "nat \<Rightarrow> int \<Rightarrow> string" where
  "pad w n =
     (let s = dec_of_nat (nat \<bar>n\<bar>) in
      (if n < 0 then ''-'' else []) @ replicate (w - length s) (CHR ''0'') @ s)"

definition format_date :: "string \<Rightarrow> gtime \<Rightarrow> string" where
  "format_date sep t = (let (y, m, d) = date_of t in pad 4 y @ sep @ pad 2 m @ sep @ pad 2 d)"

definition format_clock :: "gtime \<Rightarrow> string" where
  "format_clock t = (let (h, m, s) = clock_of t in pad 2 h @ '':'' @ pad 2 m @ '':'' @ pad 2 s)"

text \<open>
  Parsing. \<open>getnum\<close> reads one or two digits, two if \<open>fixed\<close>; a space of the layout stands for any
  number of spaces, and for the end of the text.
\<close>

definition isDigit :: "char \<Rightarrow> bool" where
  "isDigit c = (digit_val c \<noteq> None)"

definition num_of :: "string \<Rightarrow> int" where
  "num_of s = (case dec_to_nat s of Some n \<Rightarrow> int n | None \<Rightarrow> 0)"

definition getnum :: "bool \<Rightarrow> string \<Rightarrow> (int \<times> string) option" where
  "getnum fixed s =
     (case s of
        [] \<Rightarrow> None
      | a # t \<Rightarrow>
          if \<not> isDigit a then None
          else (case t of
                  [] \<Rightarrow> if fixed then None else Some (num_of [a], [])
                | b # r \<Rightarrow> if isDigit b then Some (num_of [a, b], r)
                           else if fixed then None else Some (num_of [a], t)))"

definition getyear :: "string \<Rightarrow> (int \<times> string) option" where
  "getyear s =
     (if length s < 4 \<or> \<not> list_all isDigit (take 4 s) then None
      else Some (num_of (take 4 s), drop 4 s))"

definition skip :: "char \<Rightarrow> string \<Rightarrow> string option" where
  "skip c s =
     (if c = CHR '' '' then
        (if s \<noteq> [] \<and> hd s \<noteq> CHR '' '' then None else Some (dropWhile (\<lambda>x. x = CHR '' '') s))
      else case s of x # xs \<Rightarrow> if x = c then Some xs else None | [] \<Rightarrow> None)"

definition parse_date :: "string \<Rightarrow> ((int \<times> int \<times> int) \<times> string) option" where
  "parse_date s =
     Option.bind (getyear s) (\<lambda>(y, s). Option.bind (skip (CHR ''-'') s) (\<lambda>s.
     Option.bind (getnum True s) (\<lambda>(m, s). if m \<le> 0 \<or> 12 < m then None else
     Option.bind (skip (CHR ''-'') s) (\<lambda>s. Option.bind (getnum True s) (\<lambda>(d, s). Some ((y, m, d), s))))))"

text \<open>A fraction of a second is read although the layout has none.\<close>

definition fraction :: "string \<Rightarrow> (int \<times> string) option" where
  "fraction s =
     (case s of
        x # y # r \<Rightarrow>
          if x = CHR ''.'' \<and> isDigit y then
            (let ds = takeWhile isDigit (y # r); n = num_of ds in
             if 10 ^ 9 \<le> n then None else Some (n * 10 ^ (9 - length ds), dropWhile isDigit (y # r)))
          else Some (0, s)
      | _ \<Rightarrow> Some (0, s))"

definition parse_clock :: "string \<Rightarrow> ((int \<times> int \<times> int \<times> int) \<times> string) option" where
  "parse_clock s =
     Option.bind (getnum False s) (\<lambda>(h, s). if 24 \<le> h then None else
     Option.bind (skip (CHR '':'') s) (\<lambda>s.
     Option.bind (getnum True s) (\<lambda>(m, s). if 60 \<le> m then None else
     Option.bind (skip (CHR '':'') s) (\<lambda>s.
     Option.bind (getnum True s) (\<lambda>(sec, s). if 60 \<le> sec then None else
     Option.bind (fraction s) (\<lambda>(ns, s). Some ((h, m, sec, ns), s)))))))"

definition make_time :: "int \<Rightarrow> int \<times> int \<times> int \<Rightarrow> int \<times> int \<times> int \<times> int \<Rightarrow> string \<Rightarrow> gtime option" where
  "make_time loc ymd hms rest =
     (let (y, m, d) = ymd; (h, mi, s, ns) = hms in
      if rest \<noteq> [] \<or> \<not> valid_date y m d then None else Some (time_Date y m d h mi s ns loc))"

definition time_result :: "gtime option \<Rightarrow> gtime outcome" where
  "time_result r = (case r of Some t \<Rightarrow> Ok t | None \<Rightarrow> Err (Sentinel ''time.ParseError''))"

text \<open>\<open>ParseInLocation\<close> with the three layouts of the repository.\<close>

definition parse_datetime :: "int \<Rightarrow> string \<Rightarrow> gtime outcome" where
  "parse_datetime loc s = time_result
     (Option.bind (parse_date s) (\<lambda>(ymd, s). Option.bind (skip (CHR '' '') s) (\<lambda>s.
      Option.bind (parse_clock s) (\<lambda>(hms, s). make_time loc ymd hms s))))"

definition parse_day :: "int \<Rightarrow> string \<Rightarrow> gtime outcome" where
  "parse_day loc s = time_result
     (Option.bind (parse_date s) (\<lambda>(ymd, s). make_time loc ymd (0, 0, 0, 0) s))"

definition parse_clock_only :: "int \<Rightarrow> string \<Rightarrow> gtime outcome" where
  "parse_clock_only loc s = time_result
     (Option.bind (parse_clock s) (\<lambda>(hms, s). make_time loc (0, 1, 1) hms s))"

subsection \<open>Reading what was printed\<close>

lemma length_dec_of_nat: "n < 10 ^ w \<Longrightarrow> 0 < w \<Longrightarrow> length (dec_of_nat n) \<le> w"
proof (induction w arbitrary: n)
  case (Suc w)
  show ?case
  proof (cases "n < 10")
    case False
    then have "0 < w" using Suc.prems(1) by (cases w) auto
    moreover have "n div 10 < 10 ^ w" using Suc.prems(1) by (simp add: less_mult_imp_div_less mult.commute)
    ultimately have "length (dec_of_nat (n div 10)) \<le> w" using Suc.IH by blast
    with False show ?thesis by (subst dec_of_nat.simps) simp
  qed (subst dec_of_nat.simps, simp)
qed simp

lemma dec_digits_zeros: "dec_digits 0 (replicate k (CHR ''0'') @ s) = dec_digits 0 s"
  by (induction k) (simp_all add: digit_val_def)

text \<open>A padded number is \<open>w\<close> digits, which read as the number.\<close>

lemma pad_digits:
  assumes "0 \<le> n" and "n < 10 ^ w" and "0 < w"
  shows "length (pad w n) = w" and "list_all isDigit (pad w n)" and "num_of (pad w n) = n"
proof -
  have "nat n < 10 ^ w" using assms(1,2) by (simp add: nat_less_iff)
  from length_dec_of_nat [OF this assms(3)] show "length (pad w n) = w"
    using assms(1) by (simp add: pad_def Let_def)
  have "isDigit (CHR ''0'')" by (simp add: isDigit_def digit_val_def)
  then show "list_all isDigit (pad w n)"
    using assms(1) dec_of_nat_digits by (auto simp: pad_def Let_def list_all_iff isDigit_def)
  have "pad w n \<noteq> []" using \<open>length (pad w n) = w\<close> assms(3) by auto
  moreover have "dec_digits 0 (pad w n) = Some (nat n)"
    using assms(1) by (simp add: pad_def Let_def dec_digits_zeros dec_digits_dec_of_nat)
  ultimately show "num_of (pad w n) = n" using assms(1) by (simp add: num_of_def dec_to_nat_def)
qed

lemma getnum_pad: "0 \<le> n \<Longrightarrow> n < 100 \<Longrightarrow> getnum fixed (pad 2 n @ s) = Some (n, s)"
proof -
  assume n: "0 \<le> n" "n < 100"
  then have w: "n < 10 ^ 2" by simp
  note p = pad_digits [OF n(1) w]
  obtain a b where "pad 2 n = [a, b]" using p(1) by (auto simp: length_Suc_conv numeral_2_eq_2)
  with p show ?thesis by (simp add: getnum_def)
qed

lemma getyear_pad: "0 \<le> n \<Longrightarrow> n < 10000 \<Longrightarrow> getyear (pad 4 n @ s) = Some (n, s)"
  using pad_digits [of n 4] by (simp add: getyear_def)

lemma skip_char [simp]: "c \<noteq> CHR '' '' \<Longrightarrow> skip c (c # s) = Some s"
  by (simp add: skip_def)

lemma month_lens_le: "1 \<le> m \<Longrightarrow> m \<le> 12 \<Longrightarrow> month_lens l ! nat (m - 1) \<le> 31"
proof -
  assume "1 \<le> m" "m \<le> 12"
  then have "nat (m - 1) < length (month_lens l)" by (simp add: month_lens_def)
  then have "month_lens l ! nat (m - 1) \<in> set (month_lens l)" by (rule nth_mem)
  then show ?thesis by (auto simp: month_lens_def split: if_splits)
qed

lemma parse_date_format:
  assumes "valid_date y m d" and "0 \<le> y" and "y < 10000"
  shows "parse_date (pad 4 y @ ''-'' @ pad 2 m @ ''-'' @ pad 2 d @ s) = Some ((y, m, d), s)"
proof -
  have "1 \<le> m" "m \<le> 12" "1 \<le> d" "d \<le> 31"
    using assms(1) month_lens_le [of m "leap y"] by (auto simp: valid_date_def)
  then show ?thesis using assms(2,3) by (simp add: parse_date_def getyear_pad getnum_pad)
qed

lemma parse_clock_format:
  assumes "valid_clock h m s"
  shows "parse_clock (pad 2 h @ '':'' @ pad 2 m @ '':'' @ pad 2 s) = Some ((h, m, s, 0), [])"
  using assms getnum_pad [of s True "[]"]
  by (simp add: parse_clock_def getnum_pad valid_clock_def fraction_def)

lemma parse_datetime_format:
  assumes "valid_date y mo d" and "0 \<le> y" and "y < 10000" and "valid_clock h mi s"
  shows "parse_datetime loc (format_date ''-'' (time_Date y mo d h mi s ns loc) @ '' '' @ format_clock (time_Date y mo d h mi s ns loc))
       = Ok (time_Date y mo d h mi s 0 loc)"
proof -
  have h: "pad 2 h \<noteq> []" "list_all isDigit (pad 2 h)"
    using assms(4) pad_digits [of h 2] by (auto simp: valid_clock_def)
  then have "isDigit (hd (pad 2 h))" by (simp add: list_all_iff)
  then have "hd (pad 2 h) \<noteq> CHR '' ''" by (auto simp: isDigit_def digit_val_def)
  with h(1) have "skip (CHR '' '') ('' '' @ pad 2 h @ t) = Some (pad 2 h @ t)" for t
    by (cases "pad 2 h") (simp_all add: skip_def)
  then show ?thesis
    using parse_date_format [OF assms(1-3)] parse_clock_format [OF assms(4)] assms(1)
    by (simp add: parse_datetime_def format_date_def format_clock_def time_Date_parts [OF assms(1,4)]
        make_time_def time_result_def)
qed

lemma parse_datetime_day:
  assumes "valid_date y mo d" and "0 \<le> y" and "y < 10000"
  shows "\<exists>e. parse_datetime loc (pad 4 y @ ''-'' @ pad 2 mo @ ''-'' @ pad 2 d) = Err e"
    and "parse_day loc (pad 4 y @ ''-'' @ pad 2 mo @ ''-'' @ pad 2 d) = Ok (time_Date y mo d 0 0 0 0 loc)"
  using parse_date_format [OF assms, of "[]"] assms(1)
  by (simp_all add: parse_datetime_def parse_day_def skip_def parse_clock_def getnum_def time_result_def make_time_def)

subsection \<open>Dates with another separator\<close>

lemma pad_dec_inj: "pad w n = pad w n' \<Longrightarrow> n = n'"
proof -
  have d: "dec_digits 0 (replicate k (CHR ''0'') @ dec_of_nat x) = Some x" for k x
    by (simp add: dec_digits_zeros dec_digits_dec_of_nat)
  have sign: "replicate k (CHR ''0'') @ dec_of_nat x \<noteq> CHR ''-'' # t" for k x t
    using dec_of_nat_digits [of "CHR ''-''" x] by (cases k) (auto simp: Cons_eq_append_conv)
  assume "pad w n = pad w n'"
  then have "nat \<bar>n\<bar> = nat \<bar>n'\<bar> \<and> (n < 0) = (n' < 0)"
    using sign by (auto simp: pad_def Let_def split: if_splits dest: arg_cong [where f = "dec_digits 0"]) (metis d option.inject)+
  then show ?thesis by linarith
qed

lemma pad_no_sep: "digit_val c = None \<Longrightarrow> c \<noteq> CHR ''-'' \<Longrightarrow> c \<notin> set (pad w n)"
proof -
  assume c: "digit_val c = None" "c \<noteq> CHR ''-''"
  have "digit_val (CHR ''0'') \<noteq> None" by (simp add: digit_val_def)
  then have "c \<noteq> CHR ''0''" using c(1) by metis
  moreover have "c \<notin> set (dec_of_nat k)" for k using dec_of_nat_digits [of c k] c(1) by blast
  ultimately show ?thesis using c(2) by (simp add: pad_def Let_def)
qed

lemma format_date_inj:
  assumes "format_date [c] t = format_date [c] t'" and "digit_val c = None" and "c \<noteq> CHR ''-''"
  shows "(t_sec t + t_loc t) div 86400 = (t_sec t' + t_loc t') div 86400"
proof -
  obtain y m d y' m' d' where u: "date_of t = (y, m, d)" "date_of t' = (y', m', d')" by (metis prod_cases3)
  have "Split c (format_date [c] v) = [pad 4 y, pad 2 m, pad 2 d]" if "date_of v = (y, m, d)" for v y m d
    using that by (simp add: format_date_def Split_cons Split_plain pad_no_sep [OF assms(2,3)])
  from this [OF u(1)] this [OF u(2)] have "[pad 4 y, pad 2 m, pad 2 d] = [pad 4 y', pad 2 m', pad 2 d']"
    using assms(1) by simp
  then have "date_of t = date_of t'" using u pad_dec_inj by auto
  then show ?thesis by (auto simp: date_of_def dest: civil_inj)
qed

end
