(* ===== verification/Db_Dialect.thy ===== *)
theory Db_Dialect
  imports Std_Strings
begin

text \<open>
  \<^verbatim>\<open>dbutils/mysqlDialect.go\<close>: quoting of identifiers and encoding of literals. The server that reads a
  literal is not part of the program: its reader is a parameter of the lemmas, and what the manual
  page the source refers to says of it, in the default mode and in the mode
  NO_BACKSLASH_ESCAPES, is a hypothesis.
\<close>

subsection \<open>The dialect\<close>

function QuoteIdent :: "string \<Rightarrow> string \<Rightarrow> string" where
  "QuoteIdent s quote =
     (case Cut (CHR ''.'') s of
        Some (a, b) \<Rightarrow> QuoteIdent a quote @ ''.'' @ QuoteIdent b quote
      | None \<Rightarrow> quote @ s @ quote)"
  by pat_completeness auto
termination
  by (relation "measure (\<lambda>(s, quote). length s)") (auto dest!: Cut_SomeD)

declare QuoteIdent.simps [simp del]

definition mysql_QuoteIdent :: "string \<Rightarrow> string" where
  "mysql_QuoteIdent s = QuoteIdent s [CHR 0x60]"

text \<open>One character of \<open>EncodeString\<close>; \<open>CHR 0x5C\<close> is the backslash.\<close>

definition encode_char :: "char \<Rightarrow> string" where
  "encode_char c =
     (if c = CHR 0x00 then [CHR 0x5C, CHR ''0'']
      else if c = CHR 0x27 then [CHR 0x5C, CHR 0x27]
      else if c = CHR 0x22 then [CHR 0x5C, CHR 0x22]
      else if c = CHR 0x08 then [CHR 0x5C, CHR ''b'']
      else if c = CHR 0x0A then [CHR 0x5C, CHR ''n'']
      else if c = CHR 0x0D then [CHR 0x5C, CHR ''r'']
      else if c = CHR 0x09 then [CHR 0x5C, CHR ''t'']
      else if c = CHR 0x1A then [CHR 0x5C, CHR ''Z'']
      else if c = CHR 0x5C then [CHR 0x5C, CHR 0x5C]
      else [c])"

definition EncodeString :: "string \<Rightarrow> string" where
  "EncodeString s = [CHR 0x27] @ concat (map encode_char s) @ [CHR 0x27]"

definition EncodeBool :: "bool \<Rightarrow> string" where
  "EncodeBool b = (if b then ''1'' else ''0'')"

definition EncodeBytes :: "bytes \<Rightarrow> string" where
  "EncodeBytes b = ''0x'' @ hex_of_bytes b"

definition Placeholder :: "int \<Rightarrow> string" where
  "Placeholder n = ''?''"

subsection \<open>Reading a literal\<close>

text \<open>
  A reader gets the statement after the opening quote and gives the value of the literal and what
  follows its closing quote. In the default mode, and in a character set in which no byte of a
  longer character is a backslash or a quote, a backslash and the next character stand for the
  character of the manual's table, any other character but the quote stands for itself, and a quote
  that is not doubled closes the literal.
\<close>

definition escape_table :: "(char \<times> char) list" where
  "escape_table =
     [(CHR ''0'', CHR 0x00), (CHR 0x27, CHR 0x27), (CHR 0x22, CHR 0x22), (CHR ''b'', CHR 0x08),
      (CHR ''n'', CHR 0x0A), (CHR ''r'', CHR 0x0D), (CHR ''t'', CHR 0x09), (CHR ''Z'', CHR 0x1A),
      (CHR 0x5C, CHR 0x5C)]"

type_synonym literal_reader = "string \<Rightarrow> (string \<times> string) option"

definition reads_char :: "literal_reader \<Rightarrow> string \<Rightarrow> char \<Rightarrow> bool" where
  "reads_char body w c = (\<forall>s. body (w @ s) = map_option (\<lambda>(t, u). (c # t, u)) (body s))"

definition closes_at_quote :: "literal_reader \<Rightarrow> bool" where
  "closes_at_quote body = (\<forall>s. take 1 s \<noteq> [CHR 0x27] \<longrightarrow> body (CHR 0x27 # s) = Some ([], s))"

definition literal_rules :: "literal_reader \<Rightarrow> bool" where
  "literal_rules body =
     ((\<forall>(e, c) \<in> set escape_table. reads_char body [CHR 0x5C, e] c) \<and>
      (\<forall>c. c \<noteq> CHR 0x5C \<and> c \<noteq> CHR 0x27 \<longrightarrow> reads_char body [c] c) \<and> closes_at_quote body)"

text \<open>In the mode NO_BACKSLASH_ESCAPES the backslash stands for itself too.\<close>

definition literal_rules_no_escapes :: "literal_reader \<Rightarrow> bool" where
  "literal_rules_no_escapes body =
     ((\<forall>c. c \<noteq> CHR 0x27 \<longrightarrow> reads_char body [c] c) \<and> closes_at_quote body)"

lemma reads_char_encode:
  assumes "literal_rules body"
  shows "reads_char body (encode_char c) c"
  using assms by (auto simp: literal_rules_def encode_char_def escape_table_def)

lemma read_encoded:
  assumes "literal_rules body"
  shows "body (concat (map encode_char s) @ t) = map_option (\<lambda>(x, u). (s @ x, u)) (body t)"
proof (induction s)
  case Nil
  show ?case by (cases "body t") auto
next
  case (Cons c s)
  then show ?case using reads_char_encode [OF assms, of c] by (cases "body t") (auto simp: reads_char_def)
qed

lemma read_plain:
  assumes "literal_rules_no_escapes body" "CHR 0x27 \<notin> set s"
  shows "body (s @ t) = map_option (\<lambda>(x, u). (s @ x, u)) (body t)"
  using assms(2)
proof (induction s)
  case Nil
  show ?case by (cases "body t") auto
next
  case (Cons c s)
  then have "c \<noteq> CHR 0x27" by auto
  then have "reads_char body [c] c" using assms(1) by (simp add: literal_rules_no_escapes_def)
  then have "body ((c # s) @ t) = map_option (\<lambda>(x, u). (c # x, u)) (body (s @ t))"
    by (simp add: reads_char_def)
  with Cons show ?case by (cases "body t") auto
qed

lemma quote_in_encode_char: "CHR 0x27 \<in> set (encode_char c) \<longleftrightarrow> c = CHR 0x27"
  by (simp add: encode_char_def)

lemma encode_char_first: "take 1 (encode_char c @ s) \<noteq> [CHR 0x27]"
  by (auto simp: encode_char_def)

lemma quote_in_encoded: "CHR 0x27 \<notin> set s \<Longrightarrow> CHR 0x27 \<notin> set (concat (map encode_char s))"
  by (induction s) (auto simp: quote_in_encode_char)

text \<open>A reader of each kind, used where an example is needed.\<close>

fun read_body :: "bool \<Rightarrow> string \<Rightarrow> (string \<times> string) option" where
  "read_body escapes [] = None"
| "read_body escapes (c # s) =
     (if escapes \<and> c = CHR 0x5C then
        (case s of [] \<Rightarrow> None
         | d # r \<Rightarrow> map_option (\<lambda>(t, u). ((case map_of escape_table d of Some e \<Rightarrow> e | None \<Rightarrow> d) # t, u))
                      (read_body escapes r))
      else if c = CHR 0x27 then
        (case s of d # r \<Rightarrow> if d = CHR 0x27 then map_option (\<lambda>(t, u). (c # t, u)) (read_body escapes r)
                           else Some ([], s)
         | [] \<Rightarrow> Some ([], []))
      else map_option (\<lambda>(t, u). (c # t, u)) (read_body escapes s))"

lemma read_body_rules: "literal_rules (read_body True)" "literal_rules_no_escapes (read_body False)"
proof -
  have "closes_at_quote (read_body e)" for e
    by (auto simp: closes_at_quote_def split: list.split)
  then show "literal_rules (read_body True)" "literal_rules_no_escapes (read_body False)"
    by (auto simp: literal_rules_def literal_rules_no_escapes_def reads_char_def escape_table_def)
qed

lemma QuoteIdent_Split: "QuoteIdent s q = Join (map (\<lambda>p. q @ p @ q) (Split (CHR ''.'') s)) ''.''"
proof (induction s q rule: QuoteIdent.induct)
  case (1 s q)
  show ?case
  proof (cases "Cut (CHR ''.'') s")
    case None
    then have "CHR ''.'' \<notin> set s" by (auto simp: Cut_def split: if_splits)
    with None show ?thesis by (simp add: QuoteIdent.simps [of s] Split_plain)
  next
    case (Some ab)
    obtain a b where ab: "ab = (a, b)" by fastforce
    with Some Cut_SomeD have s: "s = a @ CHR ''.'' # b" "CHR ''.'' \<notin> set a" by auto
    obtain p ps where ps: "Split (CHR ''.'') b = p # ps" by (cases "Split (CHR ''.'') b") auto
    have "QuoteIdent s q = QuoteIdent a q @ ''.'' @ QuoteIdent b q"
      using Some ab by (simp add: QuoteIdent.simps [of s])
    also have "\<dots> = (q @ a @ q) @ ''.'' @ Join (map (\<lambda>p. q @ p @ q) (Split (CHR ''.'') b)) ''.''"
      using 1 [OF Some] ab s(2) by (simp add: Split_plain)
    finally show ?thesis using s ps by (simp add: Split_cons)
  qed
qed

subsection \<open>Properties\<close>

text \<open>
  C22: To a server that reads literals as the manual says of the default mode (and a character set
  such as UTF-8, in which no byte of a longer character is a backslash or a quote), an encoded string
  is one literal of the statement it is put into, whatever bytes it holds: the server reads exactly
  the string and goes on with what was meant to follow, as long as that does not begin with a
  quote. This rests on the mode: to a server in the mode NO_BACKSLASH_ESCAPES the first quote inside
  a string, unless it is the last character, ends the literal, and the rest of the string is read
  as a part of the statement.
\<close>

theorem EncodeString_safe:
  assumes "literal_rules body" and "literal_rules_no_escapes body'" and "take 1 rest \<noteq> [CHR 0x27]"
    and "CHR 0x27 \<notin> set a" and "b \<noteq> []"
  shows "(\<exists>lit. EncodeString s @ rest = CHR 0x27 # lit \<and> body lit = Some (s, rest)) \<and>
    (\<exists>lit. EncodeString (a @ [CHR 0x27] @ b) @ rest = CHR 0x27 # lit \<and>
       body' lit = Some (concat (map encode_char a) @ [CHR 0x5C],
                         concat (map encode_char b) @ [CHR 0x27] @ rest))"
proof (intro conjI exI)
  show "EncodeString s @ rest = CHR 0x27 # (concat (map encode_char s) @ CHR 0x27 # rest)"
    by (simp add: EncodeString_def)
  have "body (CHR 0x27 # rest) = Some ([], rest)"
    using assms(1,3) by (simp add: literal_rules_def closes_at_quote_def)
  then show "body (concat (map encode_char s) @ CHR 0x27 # rest) = Some (s, rest)"
    using assms(1) by (simp add: read_encoded)
next
  let ?w = "concat (map encode_char a) @ [CHR 0x5C]"
  let ?r = "concat (map encode_char b) @ [CHR 0x27] @ rest"
  show "EncodeString (a @ [CHR 0x27] @ b) @ rest = CHR 0x27 # (?w @ CHR 0x27 # ?r)"
    by (simp add: EncodeString_def encode_char_def)
  obtain c b' where "b = c # b'" using assms(5) by (cases b) auto
  then have "take 1 ?r \<noteq> [CHR 0x27]" 
    using encode_char_first [of c "concat (map encode_char b') @ [CHR 0x27] @ rest"]
    by (simp del: take_append)
  then have "body' (CHR 0x27 # ?r) = Some ([], ?r)"
    using assms(2) by (simp add: literal_rules_no_escapes_def closes_at_quote_def)
  moreover have "CHR 0x27 \<notin> set ?w" using quote_in_encoded [OF assms(4)] by simp
  ultimately show "body' (?w @ CHR 0x27 # ?r) = Some (?w, ?r)"
    using read_plain [OF assms(2), of ?w] by simp
qed

theorem EncodeString_safe_witness:
  "(\<exists>lit. EncodeString [CHR 0x27, CHR 0x5C, CHR 0x00] @ '' and 1'' = CHR 0x27 # lit \<and>
      read_body True lit = Some ([CHR 0x27, CHR 0x5C, CHR 0x00], '' and 1'')) \<and>
   (\<exists>lit. EncodeString (''a'' @ [CHR 0x27] @ '' or 1'') @ '' and 1'' = CHR 0x27 # lit \<and>
      read_body False lit = Some (concat (map encode_char ''a'') @ [CHR 0x5C],
        concat (map encode_char '' or 1'') @ [CHR 0x27] @ '' and 1''))"
  by (rule EncodeString_safe [OF read_body_rules]) simp_all

text \<open>The digits of a hexadecimal literal are the bytes.\<close>

theorem EncodeBytes_roundtrip:
  "take 2 (EncodeBytes b) = ''0x'' \<and> bytes_of_hex (drop 2 (EncodeBytes b)) = Some b"
  by (simp add: EncodeBytes_def)

text \<open>
  The recursion of \<open>QuoteIdent\<close> ends, and quotes each of the parts between dots, joined by dots
  again; removing the quotes gives the identifier back.
\<close>

theorem QuoteIdent_parts:
  "QuoteIdent s q = Join (map (\<lambda>p. q @ p @ q) (Split (CHR ''.'') s)) ''.'' \<and>
   Join (Split (CHR ''.'') s) ''.'' = s"
  using QuoteIdent_Split by simp

end
