(* ===== verification/Db_Types.thy ===== *)
theory Db_Types
  imports Std_Time Common_Utils Db_Dialect
begin

text \<open>
  The column types of \<^verbatim>\<open>dbutils/dbtype.go\<close> besides the identifiers (times, dates, two kinds of
  booleans), the times of \<^verbatim>\<open>common/utils.go\<close> they are printed with, and \<open>EncodeTime\<close> of
  \<^verbatim>\<open>dbutils/mysqlDialect.go\<close>. \<open>loc\<close> is the offset of \<open>time.Local\<close>.
\<close>

subsection \<open>Times as text\<close>

definition DateToStr :: "gtime \<Rightarrow> string" where
  "DateToStr t = format_date ''-'' t"

definition TimeToStr :: "gtime \<Rightarrow> string" where
  "TimeToStr t = format_date ''-'' t @ '' '' @ format_clock t"

definition StrToTime :: "int \<Rightarrow> string \<Rightarrow> gtime outcome" where
  "StrToTime loc t =
     (case parse_datetime loc t of
        Ok tm \<Rightarrow> Ok tm
      | _ \<Rightarrow> (case parse_day loc t of
                Ok tm \<Rightarrow> Ok tm
              | _ \<Rightarrow> CheckError (parse_clock_only loc t)))"

definition DateIsEqual :: "gtime \<Rightarrow> gtime \<Rightarrow> bool" where
  "DateIsEqual d1 d2 = (let (y1, m1, dd1) = date_of d1; (y2, m2, dd2) = date_of d2 in y1 = y2 \<and> m1 = m2 \<and> dd1 = dd2)"

definition EncodeTime :: "gtime \<Rightarrow> string" where
  "EncodeTime t = [CHR 0x27] @ format_date ''-'' t @ '' '' @ format_clock t @ ''.'' @ pad 6 (t_nsec t div 1000) @ [CHR 0x27]"

definition FmtLogTblName :: "string \<Rightarrow> gtime \<Rightarrow> string" where
  "FmtLogTblName tblName rectime = tblName @ ''_'' @ format_date ''_'' rectime"

subsection \<open>DBTime and DBDate\<close>

text \<open>Values a database driver passes to \<open>Scan\<close>.\<close>

datatype driver_val = DNil | DTime gtime | DBytes string | DOther

definition dateFromTime :: "gtime \<Rightarrow> gtime" where
  "dateFromTime tm = (let (y, m, d) = date_of tm in time_Date y m d 0 0 0 0 (t_loc tm))"

definition NewDBTime :: "gtime \<Rightarrow> gtime" where
  "NewDBTime tm = tm"

definition NewDBDate :: "gtime \<Rightarrow> gtime" where
  "NewDBDate tm = dateFromTime tm"

text \<open>
  The marshalled text; the dates and times have no character that JSON would escape. \<open>elem\<close> and
  \<open>json_string\<close> are what the XML and the JSON decoder make of their input.
\<close>

definition DBTime_MarshalXML :: "gtime \<Rightarrow> string" where
  "DBTime_MarshalXML tm = TimeToStr tm"

definition DBTime_UnmarshalXML :: "int \<Rightarrow> string outcome \<Rightarrow> gtime outcome" where
  "DBTime_UnmarshalXML loc elem = obind elem (StrToTime loc)"

definition DBTime_String :: "gtime \<Rightarrow> string" where
  "DBTime_String tm = TimeToStr tm"

definition DBTime_Scan :: "int \<Rightarrow> driver_val \<Rightarrow> gtime outcome" where
  "DBTime_Scan loc value =
     (case value of
        DNil \<Rightarrow> Err (Sentinel ''dbr.ErrNotSupported'')
      | DTime t \<Rightarrow> Ok t
      | DBytes v \<Rightarrow> StrToTime loc v
      | DOther \<Rightarrow> Err (Errorf ''not support time type %v'' []))"

definition DBTime_Value :: "gtime \<Rightarrow> driver_val" where
  "DBTime_Value tm = DTime tm"

lemma DBTime_Value_Scan: "DBTime_Scan loc (DBTime_Value tm) = Ok tm"
  by (simp add: DBTime_Scan_def DBTime_Value_def)

definition DBTime_MarshalJSON :: "gtime \<Rightarrow> string" where
  "DBTime_MarshalJSON tm = [CHR 0x22] @ TimeToStr tm @ [CHR 0x22]"

text \<open>The value after \<open>UnmarshalJSON\<close> of \<open>v\<close> into \<open>tm\<close>, and the error.\<close>

definition DBTime_UnmarshalJSON :: "int \<Rightarrow> (string \<Rightarrow> string outcome) \<Rightarrow> string \<Rightarrow> gtime \<Rightarrow> gtime \<times> gerr option" where
  "DBTime_UnmarshalJSON loc json_string v tm =
     (case json_string v of
        Err e \<Rightarrow> (tm, Some e)
      | Panic p \<Rightarrow> (tm, None)
      | Ok s \<Rightarrow>
          (case (case parse_datetime loc s of Ok newtm \<Rightarrow> Ok newtm | _ \<Rightarrow> parse_day loc s) of
             Ok newtm \<Rightarrow> (newtm, None)
           | Err e \<Rightarrow> (tm, Some e)
           | Panic p \<Rightarrow> (tm, None)))"

definition DBDate_UnmarshalXML :: "int \<Rightarrow> string outcome \<Rightarrow> gtime outcome" where
  "DBDate_UnmarshalXML loc elem = obind (obind elem (StrToTime loc)) (\<lambda>t. Ok (dateFromTime t))"

definition DBDate_MarshalXML :: "gtime \<Rightarrow> string" where
  "DBDate_MarshalXML tm = DateToStr tm"

definition DBDate_String :: "gtime \<Rightarrow> string" where
  "DBDate_String tm = DateToStr tm"

text \<open>A time from the driver is stored as it is, text is cut to its date.\<close>

definition DBDate_Scan :: "int \<Rightarrow> driver_val \<Rightarrow> gtime outcome" where
  "DBDate_Scan loc value =
     (case value of
        DNil \<Rightarrow> Err (Sentinel ''dbr.ErrNotSupported'')
      | DTime t \<Rightarrow> Ok t
      | DBytes v \<Rightarrow> obind (StrToTime loc v) (\<lambda>t. Ok (dateFromTime t))
      | DOther \<Rightarrow> Err (Errorf ''not support time type %v'' []))"

definition DBDate_Value :: "gtime \<Rightarrow> driver_val" where
  "DBDate_Value tm = DTime tm"

definition DBDate_MarshalJSON :: "gtime \<Rightarrow> string" where
  "DBDate_MarshalJSON tm = [CHR 0x22] @ DateToStr tm @ [CHR 0x22]"

definition DBDate_UnmarshalJSON :: "int \<Rightarrow> (string \<Rightarrow> string outcome) \<Rightarrow> string \<Rightarrow> gtime \<Rightarrow> gtime \<times> gerr option" where
  "DBDate_UnmarshalJSON loc json_string v tm =
     (case json_string v of
        Err e \<Rightarrow> (tm, Some e)
      | Panic p \<Rightarrow> (tm, None)
      | Ok s \<Rightarrow>
          (case (case parse_datetime loc s of Ok newtm \<Rightarrow> Ok newtm | _ \<Rightarrow> parse_day loc s) of
             Ok newtm \<Rightarrow> (dateFromTime newtm, None)
           | Err e \<Rightarrow> (tm, Some e)
           | Panic p \<Rightarrow> (tm, None)))"

subsection \<open>Booleans\<close>

text \<open>\<open>json_bool\<close> is what the JSON decoder makes of its input.\<close>

definition DBIntBool_Value :: "int \<Rightarrow> bool" where
  "DBIntBool_Value bv = (bv \<noteq> 0)"

definition json_of_bool :: "bool \<Rightarrow> string" where
  "json_of_bool b = (if b then ''true'' else ''false'')"

definition DBIntBool_MarshalJSON :: "int \<Rightarrow> string" where
  "DBIntBool_MarshalJSON bv = json_of_bool (DBIntBool_Value bv)"

definition DBIntBool_UnmarshalJSON :: "(string \<Rightarrow> bool outcome) \<Rightarrow> string \<Rightarrow> int \<Rightarrow> int \<times> gerr option" where
  "DBIntBool_UnmarshalJSON json_bool b bv =
     (case json_bool b of
        Ok value \<Rightarrow> (if value then 1 else 0, None)
      | Err e \<Rightarrow> (bv, Some e)
      | Panic p \<Rightarrow> (bv, None))"

text \<open>
  \<open>DBBool\<close> is a byte slice. \<open>UnmarshalJSON\<close> has it as a value receiver: what it appends to the empty
  slice is lost, what it stores in a byte of the slice stays.
\<close>

definition DBBool_Value :: "bytes \<Rightarrow> bool" where
  "DBBool_Value bv = (length bv > 0 \<and> bv ! 0 \<noteq> 0)"

definition DBBool_MarshalJSON :: "bytes \<Rightarrow> string" where
  "DBBool_MarshalJSON bv = json_of_bool (length bv > 0 \<and> bv ! 0 \<noteq> 0)"

definition DBBool_UnmarshalJSON :: "(string \<Rightarrow> bool outcome) \<Rightarrow> string \<Rightarrow> bytes \<Rightarrow> bytes \<times> gerr option" where
  "DBBool_UnmarshalJSON json_bool b bv =
     (case json_bool b of
        Ok value \<Rightarrow> (let v = (if value then 1 else 0) in if length bv = 0 then (bv, None) else (bv[0 := v], None))
      | Err e \<Rightarrow> (bv, Some e)
      | Panic p \<Rightarrow> (bv, None))"

subsection \<open>Properties\<close>

text \<open>
  C39: The text of a time has no zone, and is read in the local one. Take a time of a year with four
  digits, at its own fixed offset, and a process whose \<open>time.Local\<close> has a fixed offset: the
  time that \<open>Scan\<close> reads from the bytes \<open>String\<close> prints, and the one that comes back through JSON and
  XML, has the same date and clock without the fraction of a second, but in the local zone. So its
  instant is moved by the difference of the offsets: it is the same instant to the second exactly
  if the time was in the local offset (a UTC time read on a host east of Greenwich moves back). A
  date comes back whole, as the local midnight of the same day.
\<close>

theorem DBTime_text_roundtrip:
  assumes "valid_date y mo d" and "0 \<le> y" and "y < 10000" and "valid_clock h mi s"
    and "\<And>t. json_string (DBTime_MarshalJSON t) = Ok (TimeToStr t)"
    and "\<And>t. json_string (DBDate_MarshalJSON t) = Ok (DateToStr t)"
  shows "let t = time_Date y mo d h mi s ns own; t' = time_Date y mo d h mi s 0 loc; day = time_Date y mo d 0 0 0 0 loc in
    DBTime_Scan loc (DBytes (DBTime_String t)) = Ok t' \<and>
    DBTime_UnmarshalJSON loc json_string (DBTime_MarshalJSON t) u = (t', None) \<and>
    DBTime_UnmarshalXML loc (Ok (DBTime_MarshalXML t)) = Ok t' \<and>
    date_of t' = date_of t \<and> clock_of t' = clock_of t \<and>
    t_sec t' = t_sec t + (own - loc) \<and> (t_sec t' = t_sec t \<longleftrightarrow> own = loc) \<and>
    DBDate_Scan loc (DBytes (DBDate_String t)) = Ok day \<and>
    DBDate_UnmarshalJSON loc json_string (DBDate_MarshalJSON (NewDBDate t)) u = (day, None) \<and>
    DBDate_UnmarshalXML loc (Ok (DBDate_MarshalXML t)) = Ok day \<and> date_of day = date_of t"
proof -
  let ?t = "time_Date y mo d h mi s ns own" and ?t' = "time_Date y mo d h mi s 0 loc"
    and ?day = "time_Date y mo d 0 0 0 0 loc" and ?oday = "time_Date y mo d 0 0 0 0 own"
  have c0: "valid_clock 0 0 0" by (simp add: valid_clock_def)
  note parts = time_Date_parts [OF assms(1,4)] time_Date_parts [OF assms(1) c0]
  have own: "t_loc ?t = own" "t_loc ?day = loc" by (simp_all add: time_Date_def)
  have day: "NewDBDate ?t = ?oday" by (simp add: NewDBDate_def dateFromTime_def parts own)
  have dd: "dateFromTime ?day = ?day" by (simp add: dateFromTime_def parts own)
  obtain e where e: "parse_datetime loc (pad 4 y @ ''-'' @ pad 2 mo @ ''-'' @ pad 2 d) = Err e"
    using parse_datetime_day(1) [OF assms(1-3)] by blast
  have same: "TimeToStr ?t = TimeToStr ?t'"
    by (simp add: TimeToStr_def format_date_def format_clock_def parts)
  have p: "parse_datetime loc (TimeToStr ?t) = Ok ?t'"
    unfolding same unfolding TimeToStr_def by (rule parse_datetime_format [OF assms(1-4)])
  have ds: "DateToStr ?t = pad 4 y @ ''-'' @ pad 2 mo @ ''-'' @ pad 2 d"
    "DateToStr ?oday = pad 4 y @ ''-'' @ pad 2 mo @ ''-'' @ pad 2 d"
    by (simp_all add: DateToStr_def format_date_def parts)
  note pd = parse_datetime_day(2) [OF assms(1-3)]
  have st: "StrToTime loc (TimeToStr ?t) = Ok ?t'" by (simp add: StrToTime_def p)
  have sd: "StrToTime loc (DateToStr ?t) = Ok ?day" unfolding StrToTime_def ds e pd by simp
  have jd: "DBDate_UnmarshalJSON loc json_string (DBDate_MarshalJSON (NewDBDate ?t)) u = (?day, None)"
    by (simp only: DBDate_UnmarshalJSON_def day assms(6) ds outcome.case e pd dd)
  have sec: "t_sec ?t' = t_sec ?t + (own - loc)" by (simp add: time_Date_def)
  show ?thesis unfolding Let_def
    by (intro conjI)
      (simp_all add: DBTime_Scan_def DBTime_String_def st DBTime_UnmarshalJSON_def assms(5) p
        DBTime_UnmarshalXML_def DBTime_MarshalXML_def parts sec DBDate_Scan_def DBDate_String_def sd dd jd
        DBDate_UnmarshalXML_def DBDate_MarshalXML_def)
qed

theorem DBTime_text_roundtrip_witness:
  "DBTime_Scan 3600 (DBytes (DBTime_String (time_Date 2024 2 29 23 59 7 5 0))) =
     Ok (time_Date 2024 2 29 23 59 7 0 3600) \<and>
   t_sec (time_Date 2024 2 29 23 59 7 0 3600) = t_sec (time_Date 2024 2 29 23 59 7 5 0) - 3600"
proof -
  have v: "valid_date 2024 2 29" "valid_clock 23 59 7"
    by (simp_all add: valid_date_def valid_clock_def leap_def month_lens_def)
  have b: "(\<lambda>v. Ok (butlast (tl v))) (DBTime_MarshalJSON t) = Ok (TimeToStr t)"
    "(\<lambda>v. Ok (butlast (tl v))) (DBDate_MarshalJSON t) = Ok (DateToStr t)" for t
    by (simp_all add: DBTime_MarshalJSON_def DBDate_MarshalJSON_def)
  show ?thesis
    using DBTime_text_roundtrip [OF v(1) _ _ v(2) b, of 5 0 3600] unfolding Let_def by simp
qed

text \<open>
  The JSON forms of the two booleans agree with their values, and an integer boolean reads back.
  A boolean in a byte slice reads back only into a slice that is not empty: into the empty one,
  the zero value of the type, reading \<open>true\<close> reports success and leaves it false.
\<close>

theorem DBBool_json:
  assumes "\<And>b. json_bool (json_of_bool b) = Ok b"
  shows "DBIntBool_Value (fst (DBIntBool_UnmarshalJSON json_bool (DBIntBool_MarshalJSON i) j)) = DBIntBool_Value i \<and>
    (let (r, err) = DBBool_UnmarshalJSON json_bool (DBBool_MarshalJSON bv) old in
     err = None \<and> DBBool_Value r = (old \<noteq> [] \<and> DBBool_Value bv))"
  using assms
  by (cases old)
    (auto simp: DBIntBool_MarshalJSON_def DBIntBool_UnmarshalJSON_def DBIntBool_Value_def Let_def
      DBBool_MarshalJSON_def DBBool_UnmarshalJSON_def DBBool_Value_def)

theorem DBBool_json_witness:
  "DBBool_Value (fst (DBBool_UnmarshalJSON (\<lambda>s. Ok (s = ''true'')) (DBBool_MarshalJSON [1]) [])) = False"
proof -
  have b: "(\<lambda>s. Ok (s = ''true'')) (json_of_bool b) = Ok b" for b by (simp add: json_of_bool_def)
  from DBBool_json [OF b, of 0 0 "[1]" "[]"] show ?thesis by (simp add: Let_def split: prod.splits)
qed

end
