(* ===== verification/Db_Session.thy ===== *)
theory Db_Session
  imports Db_Types Std_Regexp
begin

text \<open>
  \<^verbatim>\<open>dbutils/dbsession.go\<close>, \<^verbatim>\<open>dbutils/dbconfig.go\<close> and \<^verbatim>\<open>dbutils/database.go\<close>: columns of a struct, the
  rotation of log tables, the configuration table and opening a connection. What the database
  server answers is an argument.
\<close>

subsection \<open>Columns and values of a struct\<close>







text \<open>\<open>DBColumns.Prefix\<close>; it overwrites the slice it returns.\<close>

definition Prefix :: "string \<Rightarrow> string list \<Rightarrow> string list" where
  "Prefix pre cols = map (\<lambda>c. pre @ ''.'' @ c) cols"





subsection \<open>Statements\<close>

text \<open>The result of a statement: an error, or what asking for the affected rows gives.\<close>

definition CheckExec :: "int outcome outcome \<Rightarrow> bool" where
  "CheckExec r = (case r of Ok (Ok n) \<Rightarrow> n > 0 | _ \<Rightarrow> False)"

text \<open>Whether it reports success, and whether the transaction was committed.\<close>

definition ExecBuilderAndCommit :: "int outcome outcome \<Rightarrow> bool \<times> bool" where
  "ExecBuilderAndCommit r = (if CheckExec r then (True, True) else (False, False))"

definition VerifyInsertExec :: "int \<Rightarrow> int outcome outcome \<Rightarrow> unit outcome" where
  "VerifyInsertExec affectRows r =
     obind r (\<lambda>rs. obind rs (\<lambda>n.
       if n \<noteq> affectRows then Err (Errorf ''insert affect rows is %v, expect %v'' [AInt n, AInt affectRows])
       else Ok ()))"

subsection \<open>Log tables\<close>

text \<open>
  The database server over its own state: the definition that \<^verbatim>\<open>show create table\<close> answers, the number of tables of
  a name in the current schema, and the execution of a statement.
\<close>

record 'd mysql =
  srv_show :: "'d \<Rightarrow> string \<Rightarrow> string outcome"
  srv_count :: "'d \<Rightarrow> string \<Rightarrow> int outcome"
  srv_exec :: "'d \<Rightarrow> string \<Rightarrow> 'd \<times> unit outcome"

text \<open>\<open>time.Local\<close> by its offset at every instant; the result is the wall clock of an instant.\<close>

definition local_time :: "(int \<Rightarrow> int) \<Rightarrow> int \<Rightarrow> gtime" where
  "local_time zone sec = \<lparr>t_sec = sec, t_nsec = 0, t_loc = zone sec\<rparr>"

definition log_table :: "string \<Rightarrow> gtime \<Rightarrow> string" where
  "log_table tableName date = tableName @ ''_'' @ format_date ''_'' date"

definition CheckTableExists :: "'d mysql \<Rightarrow> 'd \<Rightarrow> string \<Rightarrow> bool outcome" where
  "CheckTableExists srv db tableName = obind (CheckError (srv_count srv db tableName)) (\<lambda>count. Ok (count > 0))"

text \<open>An action on the server after another: a panic ends it, and what was done stays.\<close>

fun then_do :: "'d \<times> 'a outcome \<Rightarrow> ('d \<Rightarrow> 'a \<Rightarrow> 'd \<times> 'b outcome) \<Rightarrow> 'd \<times> 'b outcome" where
  "then_do (db, Ok a) f = f db a"
| "then_do (db, Err e) f = (db, Err e)"
| "then_do (db, Panic p) f = (db, Panic p)"

fun for_each :: "('i \<Rightarrow> 'd \<Rightarrow> 'd \<times> unit outcome) \<Rightarrow> 'i list \<Rightarrow> 'd \<Rightarrow> 'd \<times> unit outcome" where
  "for_each f [] db = (db, Ok ())"
| "for_each f (i # is) db = then_do (f i db) (\<lambda>db _. for_each f is db)"

text \<open>A refused drop is logged, a refused creation is ignored.\<close>

definition CheckDropTable :: "'d mysql \<Rightarrow> string \<Rightarrow> gtime \<Rightarrow> 'd \<Rightarrow> 'd \<times> unit outcome" where
  "CheckDropTable srv tableName date db =
     (let tblName = log_table tableName date in
      then_do (db, CheckTableExists srv db tblName) (\<lambda>db exists.
        if exists then (fst (srv_exec srv db (''drop table `'' @ tblName @ ''`'')), Ok ()) else (db, Ok ())))"

text \<open>\<^verbatim>\<open>(?i)AUTO_INCREMENT=\d+\<close>.\<close>

definition autoIncSQLRegExp :: matcher where
  "autoIncSQLRegExp s =
     (case match_fold ''AUTO_INCREMENT='' s of
        None \<Rightarrow> None
      | Some n \<Rightarrow> (let ds = takeWhile isDigit (drop n s) in if ds = [] then None else Some (n + length ds)))"

text \<open>
  \<open>regexp.MustCompile\<close> of the name after \<^verbatim>\<open>(?i)\<close>, as the \<open>ReplaceAllString\<close> of the result. A name of word
  characters is a literal; any other expression is left to the parameter \<open>compile\<close>. The panic
  of \<open>MustCompile\<close> is a string.
\<close>

definition name_regexp :: "(string \<Rightarrow> (string \<Rightarrow> string \<Rightarrow> string) outcome) \<Rightarrow> string \<Rightarrow> (string \<Rightarrow> string \<Rightarrow> string) outcome" where
  "name_regexp compile tableName =
     (if tableName \<noteq> [] \<and> list_all word_char tableName
      then Ok (ReplaceAllString (match_fold tableName))
      else case compile (''(?i)'' @ tableName) of
             Err e \<Rightarrow> Panic (PStr ''regexp: Compile(%s)'' [AStr (''(?i)'' @ tableName)])
           | r \<Rightarrow> r)"

definition create_log_table :: "'d mysql \<Rightarrow> (string \<Rightarrow> string \<Rightarrow> string) \<Rightarrow> string \<Rightarrow> string \<Rightarrow> 'd \<Rightarrow> 'd \<times> unit outcome" where
  "create_log_table srv re sql tblName db =
     then_do (db, CheckTableExists srv db tblName) (\<lambda>db exists.
       if \<not> exists then (fst (srv_exec srv db (re sql tblName)), Ok ()) else (db, Ok ()))"

text \<open>\<open>CheckLogTable\<close> at the instant \<open>now\<close>, in seconds.\<close>

definition CheckLogTable :: "'d mysql \<Rightarrow> (string \<Rightarrow> (string \<Rightarrow> string \<Rightarrow> string) outcome) \<Rightarrow> (int \<Rightarrow> int) \<Rightarrow> int \<Rightarrow>
    string \<Rightarrow> int \<Rightarrow> 'd \<Rightarrow> 'd \<times> unit outcome" where
  "CheckLogTable srv compile zone now tableName remainDay db =
     then_do (db, CheckError (srv_show srv db (''show create table `'' @ tableName @ ''`''))) (\<lambda>db createSQL.
       let sql = ReplaceAllString autoIncSQLRegExp createSQL [] in
       then_do (db, name_regexp compile tableName) (\<lambda>db re.
       then_do (create_log_table srv re sql (log_table tableName (local_time zone now)) db) (\<lambda>db _.
       then_do (create_log_table srv re sql (log_table tableName (local_time zone (now + 86400))) db) (\<lambda>db _.
         let remainLogDays = 7 in
         for_each (\<lambda>i. CheckDropTable srv tableName
             (local_time zone (now + -1 * (remainLogDays + 1 + int i) * 86400))) [0..<90] db))))"

definition CheckLogTables :: "'d mysql \<Rightarrow> (string \<Rightarrow> (string \<Rightarrow> string \<Rightarrow> string) outcome) \<Rightarrow> (int \<Rightarrow> int) \<Rightarrow> int \<Rightarrow>
    string list \<Rightarrow> int \<Rightarrow> 'd \<Rightarrow> 'd \<times> unit outcome" where
  "CheckLogTables srv compile zone now tableNames remainDay db =
     for_each (\<lambda>tableName. CheckLogTable srv compile zone now tableName remainDay) tableNames db"

subsection \<open>The configuration table\<close>

record DBConfig =
  dbf_cc :: "string \<rightharpoonup> string"
  dbf_keyCol :: string
  dbf_valueCol :: string
  dbf_enableCol :: string
  dbf_tblName :: string

definition NewDBConfig :: "string \<Rightarrow> string \<Rightarrow> string \<Rightarrow> string \<Rightarrow> DBConfig" where
  "NewDBConfig tblName keyCol valueCol enableCol =
     \<lparr>dbf_cc = Map.empty, dbf_keyCol = keyCol, dbf_valueCol = valueCol, dbf_enableCol = enableCol, dbf_tblName = tblName\<rparr>"

text \<open>
  The result of the query: what \<open>Scan\<close> gives for each of the rows until \<open>Next\<close> is false, a key and a value
  or an error, and the error that \<open>rows.Err\<close> would report when they were cut short. \<open>Load\<close> does not
  ask for it. The second result is the returned error, or a panic.
\<close>

type_synonym db_rows = "(string \<times> string) outcome list \<times> gerr option"

fun scan_rows :: "(string \<times> string) outcome list \<Rightarrow> (string \<rightharpoonup> string) \<Rightarrow> (string \<rightharpoonup> string) outcome" where
  "scan_rows [] newCC = Ok newCC"
| "scan_rows (r # rs) newCC = obind r (\<lambda>(keyName, valueName). scan_rows rs (newCC(keyName \<mapsto> valueName)))"

definition Load :: "db_rows outcome \<Rightarrow> DBConfig \<Rightarrow> DBConfig \<times> gerr option outcome" where
  "Load rows df =
     (case obind rows (\<lambda>(rs, rows_Err). scan_rows rs Map.empty) of
        Ok newCC \<Rightarrow> (df\<lparr>dbf_cc := newCC\<rparr>, Ok None)
      | Err e \<Rightarrow> (df, Ok (Some e))
      | Panic p \<Rightarrow> (df, Panic p))"

definition DBF_StrValue :: "DBConfig \<Rightarrow> string \<Rightarrow> string \<times> bool" where
  "DBF_StrValue df key = (case dbf_cc df key of None \<Rightarrow> ([], False) | Some v \<Rightarrow> (v, True))"

definition DBF_IntValue :: "DBConfig \<Rightarrow> string \<Rightarrow> (int \<times> bool) outcome" where
  "DBF_IntValue df key =
     (case dbf_cc df key of
        None \<Rightarrow> Ok (0, False)
      | Some v \<Rightarrow> obind (CheckError (Atoi v)) (\<lambda>value. Ok (value, True)))"

definition IntValueDef :: "DBConfig \<Rightarrow> string \<Rightarrow> int \<Rightarrow> int outcome" where
  "IntValueDef df key defValue = obind (DBF_IntValue df key) (\<lambda>(v, ok). Ok (if \<not> ok then defValue else v))"

definition StrValueDef :: "DBConfig \<Rightarrow> string \<Rightarrow> string \<Rightarrow> string" where
  "StrValueDef df key defValue = (let (v, ok) = DBF_StrValue df key in if \<not> ok then defValue else v)"

subsection \<open>Opening a connection\<close>

datatype dbr_dialect = MySQL | PostgreSQL | SQLite3

definition dbrOpen :: "string \<Rightarrow> 'c outcome \<Rightarrow> ('c \<times> dbr_dialect) outcome" where
  "dbrOpen driver sqlOpen =
     obind sqlOpen (\<lambda>conn.
       if driver = ''mysql'' then Ok (conn, MySQL)
       else if driver = ''postgres'' then Ok (conn, PostgreSQL)
       else if driver = ''sqlite3'' then Ok (conn, SQLite3)
       else Err (Sentinel ''dbr.ErrNotSupported''))"

text \<open>
  \<open>Open\<close> over its rounds: what \<open>sql.Open\<close> answers, and whether the context is done during the five
  seconds that follow a failure. \<open>None\<close>: it is still trying when the list ends. \<open>InitCuidDev\<close> is
  called in every round; \<open>devs\<close> collects its arguments.
\<close>

fun Open :: "string \<Rightarrow> ('c outcome \<times> bool) list \<Rightarrow> int list \<Rightarrow> (('c \<times> dbr_dialect) outcome \<times> int list) option" where
  "Open connStr [] devs = None"
| "Open connStr ((sqlOpen, done) # rounds) devs =
     (let args = Split (CHR '','') connStr in
      if length args < 2 then Some (Panic (PErr (Errorf ''arg  <<%s>> size less than %d'' [AStr (Join args '' ''), AInt 2])), devs)
      else case (if length args \<ge> 3 then obind (CheckError (ParseInt 64 (args ! 2))) (\<lambda>devID. Ok (devs @ [devID])) else Ok devs) of
        Panic p \<Rightarrow> Some (Panic p, devs)
      | Err e \<Rightarrow> Some (Err e, devs)
      | Ok devs \<Rightarrow>
          (case dbrOpen (args ! 0) sqlOpen of
             Ok db \<Rightarrow> Some (Ok db, devs)
           | Panic p \<Rightarrow> Some (Panic p, devs)
           | Err e \<Rightarrow> if done then Some (Err (Sentinel ''context.Canceled''), devs)
                      else Open connStr rounds devs))"

subsection \<open>Lemmas\<close>






lemma scan_rows_total:
  assumes "list_all (\<lambda>r. \<not> panics r) rs"
  shows "(\<exists>kvs. rs = map Ok kvs \<and> scan_rows rs m = Ok (m ++ map_of (rev kvs))) \<or> (\<exists>e. scan_rows rs m = Err e)"
  using assms
proof (induction rs arbitrary: m)
  case (Cons r rs)
  show ?case
  proof (cases r)
    case (Ok kv)
    obtain k v where kv: "kv = (k, v)" by (cases kv)
    have "(\<exists>kvs. rs = map Ok kvs \<and> scan_rows rs (m(k \<mapsto> v)) = Ok (m(k \<mapsto> v) ++ map_of (rev kvs))) \<or>
        (\<exists>e. scan_rows rs (m(k \<mapsto> v)) = Err e)"
      by (rule Cons.IH) (use Cons.prems in simp)
    then show ?thesis
    proof (elim disjE exE conjE)
      fix kvs assume "rs = map Ok kvs" "scan_rows rs (m(k \<mapsto> v)) = Ok (m(k \<mapsto> v) ++ map_of (rev kvs))"
      moreover have "m(k \<mapsto> v) ++ map_of (rev kvs) = m ++ map_of (rev ((k, v) # kvs))"
        by (simp add: map_add_def fun_eq_iff split: option.splits)
      moreover have "scan_rows (r # rs) m = scan_rows rs (m(k \<mapsto> v))" using Ok kv by simp
      ultimately have "scan_rows (r # rs) m = Ok (m ++ map_of (rev ((k, v) # kvs)))" by (simp only:)
      moreover have "r # rs = map Ok ((k, v) # kvs)" using Ok kv \<open>rs = map Ok kvs\<close> by simp
      ultimately show ?thesis by (intro disjI1 exI [of _ "(k, v) # kvs"] conjI)
    next
      fix e assume "scan_rows rs (m(k \<mapsto> v)) = Err e"
      then have "scan_rows (r # rs) m = Err e" using Ok kv by simp
      then show ?thesis by blast
    qed
  qed (use Cons.prems in auto)
qed simp

subsection \<open>The statements that create the tables\<close>

text \<open>The definition of the new table: that of the log table, without counter, and with the name replaced.\<close>

definition new_definition :: "string \<Rightarrow> string \<Rightarrow> string \<Rightarrow> string" where
  "new_definition tableName body tblName =
     ReplaceAllString (match_fold tableName) (ReplaceAllString autoIncSQLRegExp body []) tblName"

text \<open>What a case-insensitive literal has matched, character by character.\<close>

definition folds :: "char \<Rightarrow> string \<Rightarrow> bool" where
  "folds c w \<longleftrightarrow> (\<exists>d. w = [d] \<and> lower_char d = lower_char c) \<or>
     c \<noteq> CHR ''='' \<and> (w = [CHR 0xC5, CHR 0xBF] \<or> w = [CHR 0xE2, CHR 0x84, CHR 0xAA])"

lemma take_eqD: "take n s = w \<Longrightarrow> length w = n \<Longrightarrow> \<exists>t. s = w @ t"
  by (metis append_take_drop_id)

lemma fold_char_SomeD: "fold_char c s = Some n \<Longrightarrow> \<exists>w t. s = w @ t \<and> n = length w \<and> folds c w"
proof (cases s)
  case (Cons d t)
  assume f: "fold_char c s = Some n"
  have e: "lower_char (CHR ''='') \<noteq> CHR ''s''" "lower_char (CHR ''='') \<noteq> CHR ''k''" by (simp_all add: lower_char_def)
  consider "n = 1" "lower_char d = lower_char c"
    | "n = 2" "lower_char c = CHR ''s''" "take 2 s = [CHR 0xC5, CHR 0xBF]"
    | "n = 3" "lower_char c = CHR ''k''" "take 3 s = [CHR 0xE2, CHR 0x84, CHR 0xAA]"
    using f unfolding fold_char_def Cons list.case by (auto split: if_splits)
  then show ?thesis
  proof cases
    case 1
    then show ?thesis using Cons by (intro exI [of _ "[d]"] exI [of _ t]) (simp add: folds_def)
  next
    case 2
    then obtain u where "s = [CHR 0xC5, CHR 0xBF] @ u" using take_eqD [OF 2(3)] by auto
    with 2 e show ?thesis
      by (intro exI [of _ "[CHR 0xC5, CHR 0xBF]"] exI [of _ u]) (auto simp: folds_def)
  next
    case 3
    then obtain u where "s = [CHR 0xE2, CHR 0x84, CHR 0xAA] @ u" using take_eqD [OF 3(3)] by auto
    with 3 e show ?thesis
      by (intro exI [of _ "[CHR 0xE2, CHR 0x84, CHR 0xAA]"] exI [of _ u]) (auto simp: folds_def)
  qed
qed (simp add: fold_char_def)

lemma match_fold_SomeD:
  "match_fold p s = Some n \<Longrightarrow> \<exists>ws t. s = concat ws @ t \<and> n = length (concat ws) \<and> list_all2 folds p ws"
proof (induction p s arbitrary: n rule: match_fold.induct)
  case (2 c p s)
  then obtain k m where k: "fold_char c s = Some k" "match_fold p (drop k s) = Some m" "n = k + m"
    by (auto split: option.splits)
  obtain w t where w: "s = w @ t" "k = length w" "folds c w" using fold_char_SomeD [OF k(1)] by blast
  obtain ws u where "drop k s = concat ws @ u" "m = length (concat ws)" "list_all2 folds p ws"
    using "2.IH" [OF k(1,2)] by blast
  with w k(3) show ?case by (intro exI [of _ "w # ws"] exI [of _ u]) simp
qed auto

lemma folds_ascii: "folds c w \<Longrightarrow> \<forall>x \<in> set w. of_char x < (128 :: nat) \<Longrightarrow> map lower_char w = [lower_char c]"
  by (auto simp: folds_def)

lemma folds_list_ascii:
  "list_all2 folds p ws \<Longrightarrow> \<forall>x \<in> set (concat ws). of_char x < (128 :: nat) \<Longrightarrow>
   map lower_char (concat ws) = map lower_char p"
  by (induction rule: list_all2_induct) (simp_all add: folds_ascii)

lemma folds_list_char:
  "list_all2 folds p ws \<Longrightarrow> x \<in> set (concat ws) \<Longrightarrow> of_char x < (128 :: nat) \<Longrightarrow>
   lower_char x \<in> lower_char ` set p"
  by (induction rule: list_all2_induct) (auto simp: folds_def)

lemma lower_char_eq_sign: "lower_char d = CHR ''='' \<Longrightarrow> d = CHR ''=''"
proof -
  assume a: "lower_char d = CHR ''=''"
  have "\<not> (65 \<le> (of_char d :: nat) \<and> (of_char d :: nat) \<le> 90)"
  proof
    assume n: "65 \<le> (of_char d :: nat) \<and> (of_char d :: nat) \<le> 90"
    then have "(of_char (lower_char d) :: nat) = of_char d + 32"
      by (simp add: lower_char_def Let_def)
    with a n show False by simp
  qed
  with a show ?thesis by (auto simp: lower_char_def Let_def)
qed

lemma folds_list_eq_sign: "list_all2 folds p ws \<Longrightarrow> CHR ''='' \<in> set p \<Longrightarrow> CHR ''='' \<in> set (concat ws)"
proof (induction rule: list_all2_induct)
  case (Cons c p w ws)
  have "w = [CHR ''='']" if "c = CHR ''=''"
  proof -
    have "lower_char (CHR ''='') = CHR ''=''" by (simp add: lower_char_def)
    with Cons(1) that show ?thesis by (auto simp: folds_def dest: lower_char_eq_sign)
  qed
  with Cons show ?case by (cases "c = CHR ''=''") auto
qed simp

text \<open>
  The beginning \<open>b\<close> of a text, when it ends with a character that no match contains: a match that
  begins in it ends before that character.
\<close>

lemma match_fold_within:
  assumes "match_fold p ((b @ [x]) @ s) = Some n" and "of_char x < (128 :: nat)"
    and "lower_char x \<notin> lower_char ` set p"
  shows "n \<le> length b" and "\<exists>ws t. b = concat ws @ t \<and> list_all2 folds p ws"
proof -
  obtain ws t where w: "(b @ [x]) @ s = concat ws @ t" "n = length (concat ws)" "list_all2 folds p ws"
    using match_fold_SomeD [OF assms(1)] by blast
  have "x \<notin> set (concat ws)" using folds_list_char [OF w(3) _ assms(2)] assms(3) by blast
  moreover have "x \<in> set (concat ws)" if "length b < length (concat ws)"
  proof -
    have "concat ws ! length b = ((b @ [x]) @ s) ! length b" unfolding w(1) by (rule nth_append_left [OF that, symmetric])
    also have "\<dots> = x" by (simp add: nth_append)
    finally show ?thesis using that nth_mem by metis
  qed
  ultimately have "length (concat ws) \<le> length b" by (meson not_le)
  moreover from this have "b = concat ws @ take (length b - length (concat ws)) t"
    using arg_cong [OF w(1), of "take (length b)"] by simp
  ultimately show "n \<le> length b" "\<exists>ws t. b = concat ws @ t \<and> list_all2 folds p ws"
    using w(2,3) by blast+
qed

lemma word_char_lower: "word_char c \<Longrightarrow> lower_char c \<noteq> CHR 0x60"
proof
  assume w: "word_char c" and l: "lower_char c = CHR 0x60"
  show False
  proof (cases "65 \<le> (of_char c :: nat) \<and> (of_char c :: nat) \<le> 90")
    case True
    then have "(of_char (lower_char c) :: nat) = of_char c + 32" by (simp add: lower_char_def Let_def)
    with l True show False by simp
  next
    case False
    then have "c = CHR 0x60" using l by (simp add: lower_char_def Let_def split: if_splits)
    with w show False by (simp add: word_char_def)
  qed
qed

lemma backtick_no_word: "list_all word_char p \<Longrightarrow> lower_char (CHR 0x60) \<notin> lower_char ` set p"
  using word_char_lower by (force simp: list_all_iff lower_char_def)

text \<open>The two replacements leave the beginning of the shown statement alone, but for the name.\<close>

lemma last_split: "t @ [x] = a @ b \<Longrightarrow> b \<noteq> [] \<Longrightarrow> \<exists>b'. b = b' @ [x] \<and> t = a @ b'"
  by (metis append_butlast_last_id butlast_append last_appendR last_snoc butlast_snoc)

lemma auto_inc_prefix:
  assumes "CHR ''='' \<notin> set t"
  shows "ReplaceAllString autoIncSQLRegExp ((t @ [CHR 0x60]) @ body) [] =
    (t @ [CHR 0x60]) @ ReplaceAllString autoIncSQLRegExp body []"
proof (rule ReplaceAllString_plain_append)
  fix a b assume ab: "t @ [CHR 0x60] = a @ b" "b \<noteq> []"
  obtain b' where b: "b = b' @ [CHR 0x60]" "t = a @ b'" using last_split [OF ab] by blast
  have nl: "lower_char (CHR 0x60) \<notin> lower_char ` set ''AUTO_INCREMENT=''" by code_simp
  show "autoIncSQLRegExp (b @ body) = None"
  proof (cases "match_fold ''AUTO_INCREMENT='' ((b' @ [CHR 0x60]) @ body)")
    case None
    then show ?thesis unfolding b(1) autoIncSQLRegExp_def by simp
  next
    case (Some n)
    obtain ws u where w: "b' = concat ws @ u" "list_all2 folds ''AUTO_INCREMENT='' ws"
      using match_fold_within(2) [OF Some _ nl] by auto
    have "CHR ''='' \<in> set (concat ws)" by (rule folds_list_eq_sign [OF w(2)]) simp
    then have "CHR ''='' \<in> set t" unfolding b(2) w(1) by simp
    with assms show ?thesis by simp
  qed
qed

definition create_prefix :: string where "create_prefix = ''CREATE TABLE ''"

lemma name_replaced:
  assumes "tableName \<noteq> []" "list_all word_char tableName"
    and "\<not> sublist (map lower_char tableName) (map lower_char create_prefix)"
  shows "ReplaceAllString (match_fold tableName)
      (create_prefix @ [CHR 0x60] @ tableName @ [CHR 0x60] @ body) r =
    create_prefix @ [CHR 0x60] @ r @ [CHR 0x60] @ ReplaceAllString (match_fold tableName) body r"
proof -
  let ?m = "match_fold tableName"
  note nl = backtick_no_word [OF assms(2)]
  have none: "?m (b @ s) = None" if ab: "create_prefix @ [CHR 0x60] = a @ b" "b \<noteq> []" for a b s
  proof (cases "?m (b @ s)")
    case (Some n)
    obtain b' where b: "b = b' @ [CHR 0x60]" "create_prefix = a @ b'" using last_split [OF ab] by blast
    obtain ws u where w: "b' = concat ws @ u" "list_all2 folds tableName ws"
      using match_fold_within(2) [OF Some [unfolded b(1)] _ nl] by auto
    have "\<forall>x \<in> set create_prefix. of_char x < (128 :: nat)" by (simp add: create_prefix_def)
    then have "map lower_char (concat ws) = map lower_char tableName"
      using w b(2) by (intro folds_list_ascii) (metis UnCI set_append)+
    then have "sublist (map lower_char tableName) (map lower_char create_prefix)"
      unfolding b(2) w(1) by (metis map_append sublist_appendI)
    with assms(3) show ?thesis by simp
  qed
  have tick: "?m ([CHR 0x60] @ s) = None" for s
  proof -
    obtain c p where "tableName = c # p" using assms(1) by (cases tableName) auto
    with assms(2) word_char_lower [of c] show ?thesis by (auto simp: fold_char_def lower_char_def)
  qed
  have "ReplaceAllString ?m ((create_prefix @ [CHR 0x60]) @ tableName @ [CHR 0x60] @ body) r =
      (create_prefix @ [CHR 0x60]) @ ReplaceAllString ?m (tableName @ [CHR 0x60] @ body) r"
    by (rule ReplaceAllString_plain_append) (rule none)
  also have "ReplaceAllString ?m (tableName @ [CHR 0x60] @ body) r = r @ ReplaceAllString ?m ([CHR 0x60] @ body) r"
    using match_fold_self assms(1) by (intro ReplaceAllString_match)
  also have "ReplaceAllString ?m ([CHR 0x60] @ body) r = [CHR 0x60] @ ReplaceAllString ?m body r"
    by (rule ReplaceAllString_plain_append) (use tick in \<open>auto simp: Cons_eq_append_conv\<close>)
  finally show ?thesis by simp
qed

lemma statement_rewritten:
  assumes "tableName \<noteq> []" "list_all word_char tableName"
    and "\<not> sublist (map lower_char tableName) (map lower_char create_prefix)"
  shows "ReplaceAllString (match_fold tableName)
      (ReplaceAllString autoIncSQLRegExp (create_prefix @ [CHR 0x60] @ tableName @ [CHR 0x60] @ body) []) tblName =
    create_prefix @ [CHR 0x60] @ tblName @ [CHR 0x60] @ new_definition tableName body tblName"
proof -
  have "CHR ''='' \<notin> set (create_prefix @ [CHR 0x60] @ tableName)"
    using assms(2) by (auto simp: create_prefix_def list_all_iff word_char_def)
  from auto_inc_prefix [OF this, of body] name_replaced [OF assms] show ?thesis
    by (simp add: new_definition_def)
qed

subsection \<open>A server with tables\<close>

text \<open>
  What the manual says of the server, as far as the statements of the program go: \<open>tables\<close> gives the
  tables of the current schema, each with the text that follows its name in its definition. The
  shown definition, the count, the creation of a table that does not exist from a definition the
  server accepts, and the drop of one that exists; names have no backtick.
\<close>

definition table_server :: "'d mysql \<Rightarrow> ('d \<Rightarrow> (string \<rightharpoonup> string)) \<Rightarrow> (string \<Rightarrow> bool) \<Rightarrow> bool" where
  "table_server srv tables accepted =
     ((\<forall>d t b. CHR 0x60 \<notin> set t \<and> tables d t = Some b \<longrightarrow>
        srv_show srv d (''show create table `'' @ t @ ''`'') = Ok (''CREATE TABLE `'' @ t @ ''`'' @ b)) \<and>
      (\<forall>d t. srv_count srv d t = Ok (if tables d t = None then 0 else 1)) \<and>
      (\<forall>d t b. CHR 0x60 \<notin> set t \<and> tables d t = None \<and> accepted b \<longrightarrow>
        tables (fst (srv_exec srv d (''CREATE TABLE `'' @ t @ ''`'' @ b))) = (tables d)(t \<mapsto> b)) \<and>
      (\<forall>d t b. CHR 0x60 \<notin> set t \<and> tables d t = Some b \<longrightarrow>
        tables (fst (srv_exec srv d (''drop table `'' @ t @ ''`''))) = (tables d)(t := None)))"

lemma create_text: "''CREATE TABLE `'' @ t = create_prefix @ [CHR 0x60] @ t"
  by (simp add: create_prefix_def)

lemma log_table_no_backtick: "list_all word_char tableName \<Longrightarrow> CHR 0x60 \<notin> set (log_table tableName date)"
proof -
  assume "list_all word_char tableName"
  then have "CHR 0x60 \<notin> set tableName" by (auto simp: list_all_iff word_char_def)
  moreover have "CHR 0x60 \<notin> set (pad w n)" for w n by (rule pad_no_sep) (simp_all add: digit_val_def)
  ultimately show ?thesis by (auto simp: log_table_def format_date_def split: prod.splits)
qed

lemma CheckTableExists_table:
  "table_server srv tables accepted \<Longrightarrow> CheckTableExists srv d t = Ok (tables d t \<noteq> None)"
  by (simp add: table_server_def CheckTableExists_def)

lemma create_log_table_table:
  assumes "table_server srv tables accepted" and "CHR 0x60 \<notin> set t"
    and "re sql t = ''CREATE TABLE `'' @ t @ ''`'' @ b" and "accepted b"
  shows "\<exists>d'. create_log_table srv re sql t d = (d', Ok ()) \<and>
    tables d' = (if tables d t = None then (tables d)(t \<mapsto> b) else tables d)"
proof -
  have "tables (fst (srv_exec srv d (re sql t))) = (tables d)(t \<mapsto> b)" if "tables d t = None"
    using assms that unfolding table_server_def assms(3) by blast
  then show ?thesis by (simp add: create_log_table_def CheckTableExists_table [OF assms(1)])
qed

lemma CheckDropTable_table:
  assumes "table_server srv tables accepted" and "CHR 0x60 \<notin> set (log_table tableName date)"
  shows "\<exists>d'. CheckDropTable srv tableName date d = (d', Ok ()) \<and>
    tables d' = (tables d)(log_table tableName date := None)"
proof (cases "tables d (log_table tableName date)")
  case None
  then have "(tables d)(log_table tableName date := None) = tables d" by auto
  with None show ?thesis by (simp add: CheckDropTable_def Let_def CheckTableExists_table [OF assms(1)])
next
  case (Some b)
  then have "tables (fst (srv_exec srv d (''drop table `'' @ log_table tableName date @ ''`''))) =
      (tables d)(log_table tableName date := None)"
    using assms unfolding table_server_def by blast
  with Some show ?thesis by (simp add: CheckDropTable_def Let_def CheckTableExists_table [OF assms(1)])
qed

lemma drop_tables:
  assumes "table_server srv tables accepted" and "\<And>date. CHR 0x60 \<notin> set (log_table tableName date)"
  shows "\<exists>d'. for_each (\<lambda>i. CheckDropTable srv tableName (date i)) is d = (d', Ok ()) \<and>
    tables d' = (\<lambda>t. if t \<in> (\<lambda>i. log_table tableName (date i)) ` set is then None else tables d t)"
proof (induction "is" arbitrary: d)
  case (Cons i "is")
  obtain d1 where d1: "CheckDropTable srv tableName (date i) d = (d1, Ok ())"
    "tables d1 = (tables d)(log_table tableName (date i) := None)"
    using CheckDropTable_table [OF assms] by blast
  with Cons [of d1] show ?case by (auto simp: fun_eq_iff)
qed auto

text \<open>The log table of the wall-clock date \<open>k\<close> times 24 hours after \<open>now\<close>.\<close>

definition day_table :: "(int \<Rightarrow> int) \<Rightarrow> string \<Rightarrow> int \<Rightarrow> int \<Rightarrow> string" where
  "day_table zone tableName now k = log_table tableName (local_time zone (now + k * 86400))"

lemma day_table_inj:
  assumes "zone (now + i * 86400) = zone (now + j * 86400)"
    and "day_table zone tbl now i = day_table zone tbl now j"
  shows "i = j"
proof -
  have "format_date ''_'' (local_time zone (now + i * 86400)) = format_date ''_'' (local_time zone (now + j * 86400))"
    using assms(2) by (simp add: day_table_def log_table_def)
  from format_date_inj [OF this] have "(now + i * 86400 + zone (now + j * 86400)) div 86400 =
      (now + j * 86400 + zone (now + j * 86400)) div 86400"
    using assms(1) by (simp add: local_time_def digit_val_def)
  then have "(now + zone (now + j * 86400) + i * 86400) div 86400 = (now + zone (now + j * 86400) + j * 86400) div 86400"
    by (simp add: add_ac)
  then show "i = j" by simp
qed

lemma dropped_days: "(\<lambda>i. -1 * (7 + 1 + int i)) ` set [0..<90] = {-97..-8}"
proof -
  have "k \<in> (\<lambda>i. -1 * (7 + 1 + int i)) ` set [0..<90]" if "k \<in> {-97..-8}" for k
    by (rule image_eqI [of _ _ "nat (- k - 8)"]) (use that in auto)
  then show ?thesis by auto
qed

text \<open>A failing \<^verbatim>\<open>show create table\<close> and a name that is no expression end in a panic, before any statement that changes something.\<close>

lemma CheckLogTable_panics:
  "srv_show srv d (''show create table `'' @ tableName @ ''`'') = Err e \<Longrightarrow>
     CheckLogTable srv compile zone now tableName remainDay d = (d, Panic (PErr e))"
  "srv_show srv d (''show create table `'' @ tableName @ ''`'') = Ok sql \<Longrightarrow> \<not> list_all word_char tableName \<Longrightarrow>
   compile (''(?i)'' @ tableName) = Err e \<Longrightarrow>
     CheckLogTable srv compile zone now tableName remainDay d =
       (d, Panic (PStr ''regexp: Compile(%s)'' [AStr (''(?i)'' @ tableName)]))"
  by (simp_all add: CheckLogTable_def name_regexp_def Let_def)

text \<open>The name is replaced wherever it stands, also in the names of columns and in the words of the statement.\<close>

lemma log_columns_renamed:
  "new_definition ''log'' '' (`login` int)'' ''log_2024_01_01'' = '' (`log_2024_01_01in` int)''"
  "ReplaceAllString (match_fold ''t'') ''CREATE TABLE `t`'' ''t_2024_01_01'' =
     ''CREAt_2024_01_01E t_2024_01_01ABLE `t_2024_01_01`''"
  by code_simp+

subsection \<open>Properties\<close>

text \<open>
  C30: Take a log table whose name is made of word characters and does not occur in \<^verbatim>\<open>create table \<close>, and a server
  that shows, counts, creates and drops tables as its manual says and accepts the two rewritten
  definitions. Checking the table creates the tables of now and of 24 hours later if they do not
  exist, with the definition of the log table after its counter is removed and every occurrence of
  its name is replaced; it drops those of 8 to 97 times 24 hours before, and changes no other
  table, whatever number of days to keep the caller passes. If the offset of the local time is
  the same at all these instants, the tables of today and tomorrow are there at the end and those
  of the last 7 days stay.
\<close>

theorem CheckLogTable_retention:
  assumes "table_server srv tables accepted" and "tables d tableName = Some body"
    and "tableName \<noteq> []" and "list_all word_char tableName"
    and "\<not> sublist (map lower_char tableName) ''create table ''"
    and "\<And>k. k \<in> {0, 1} \<Longrightarrow> accepted (new_definition tableName body (day_table zone tableName now k))"
  shows "\<exists>d'. CheckLogTable srv compile zone now tableName remainDay d = (d', Ok ()) \<and>
    tables d' = (\<lambda>t. if t \<in> day_table zone tableName now ` {-97..-8} then None
       else if tables d t = None \<and> t \<in> day_table zone tableName now ` {0, 1}
       then Some (new_definition tableName body t) else tables d t) \<and>
    ((\<forall>k \<in> {-97..1}. zone (now + k * 86400) = zone now) \<longrightarrow>
       (\<forall>k \<in> {0, 1}. tables d' (day_table zone tableName now k) \<noteq> None) \<and>
       (\<forall>k \<in> {-7..1}. tables d (day_table zone tableName now k) \<noteq> None \<longrightarrow>
          tables d' (day_table zone tableName now k) = tables d (day_table zone tableName now k)))"
proof -
  let ?day = "day_table zone tableName now" and ?re = "ReplaceAllString (match_fold tableName)"
  let ?sql = "ReplaceAllString autoIncSQLRegExp (''CREATE TABLE `'' @ tableName @ ''`'' @ body) []"
  let ?drop = "\<lambda>i. local_time zone (now + -1 * (7 + 1 + int i) * 86400)"
  have tick: "CHR 0x60 \<notin> set tableName" using assms(4) by (auto simp: list_all_iff word_char_def)
  note nt = log_table_no_backtick [OF assms(4)]
  have day: "CHR 0x60 \<notin> set (?day k)" for k unfolding day_table_def by (rule nt)
  have sh: "srv_show srv d (''show create table `'' @ tableName @ ''`'') = Ok (''CREATE TABLE `'' @ tableName @ ''`'' @ body)"
    using assms(1,2) tick unfolding table_server_def by blast
  have "map lower_char create_prefix = ''create table ''" by code_simp
  then have re: "?re ?sql t = ''CREATE TABLE `'' @ t @ ''`'' @ new_definition tableName body t" for t
    using statement_rewritten [OF assms(3,4), of body t] assms(5) unfolding create_text by simp
  obtain d1 where d1: "create_log_table srv ?re ?sql (?day 0) d = (d1, Ok ())"
    "tables d1 = (if tables d (?day 0) = None then (tables d)(?day 0 \<mapsto> new_definition tableName body (?day 0)) else tables d)"
    using create_log_table_table [where re = ?re and sql = ?sql and t = "?day 0", OF assms(1) day re assms(6)] by blast
  obtain d2 where d2: "create_log_table srv ?re ?sql (?day 1) d1 = (d2, Ok ())"
    "tables d2 = (if tables d1 (?day 1) = None then (tables d1)(?day 1 \<mapsto> new_definition tableName body (?day 1)) else tables d1)"
    using create_log_table_table [where re = ?re and sql = ?sql and t = "?day 1", OF assms(1) day re assms(6)] by blast
  obtain d' where d': "for_each (\<lambda>i. CheckDropTable srv tableName (?drop i)) [0..<90] d2 = (d', Ok ())"
    "tables d' = (\<lambda>t. if t \<in> (\<lambda>i. log_table tableName (?drop i)) ` set [0..<90] then None else tables d2 t)"
    using drop_tables [OF assms(1) nt, of ?drop "[0..<90]" d2] by blast
  have "(\<lambda>i. log_table tableName (?drop i)) ` set [0..<90] = ?day ` {-97..-8}"
    unfolding dropped_days [symmetric] image_image day_table_def ..
  moreover have "tables d2 = (\<lambda>t. if tables d t = None \<and> t \<in> ?day ` {0, 1} then Some (new_definition tableName body t) else tables d t)"
    unfolding d2(2) d1(2) by (auto simp: fun_eq_iff)
  ultimately have t': "tables d' = (\<lambda>t. if t \<in> ?day ` {-97..-8} then None
       else if tables d t = None \<and> t \<in> ?day ` {0, 1} then Some (new_definition tableName body t) else tables d t)"
    unfolding d'(2) by (simp only:)
  have run: "CheckLogTable srv compile zone now tableName remainDay d = (d', Ok ())"
  proof -
    have nr: "name_regexp compile tableName = Ok ?re" using assms(3,4) by (simp add: name_regexp_def)
    have "?day 0 = log_table tableName (local_time zone now)"
      "?day 1 = log_table tableName (local_time zone (now + 86400))" by (simp_all add: day_table_def)
    with d1(1) d2(1) d'(1) show ?thesis
      unfolding CheckLogTable_def sh CheckError.simps then_do.simps nr Let_def by (simp only: then_do.simps)
  qed
  have stay: "?day k \<notin> ?day ` {-97..-8}"
    if "\<forall>k \<in> {-97..1}. zone (now + k * 86400) = zone now" "k \<in> {-7..1}" for k
  proof
    assume "?day k \<in> ?day ` {-97..-8}"
    then obtain j where j: "j \<in> {-97..-8}" "?day k = ?day j" by blast
    then have "zone (now + k * 86400) = zone (now + j * 86400)" using that by simp
    from day_table_inj [OF this j(2)] j(1) that(2) show False by simp
  qed
  show ?thesis
  proof (intro exI [of _ d'] conjI run t' impI ballI)
    assume z: "\<forall>k \<in> {-97..1}. zone (now + k * 86400) = zone now"
    show "tables d' (?day k) \<noteq> None" if "k \<in> {0, 1}" for k
      using stay [OF z, of k] that unfolding t' by auto
    show "tables d' (?day k) = tables d (?day k)" if "k \<in> {-7..1}" "tables d (?day k) \<noteq> None" for k
      using stay [OF z, of k] that unfolding t' by simp
  qed
qed

text \<open>A server whose state is the tables, used where an example is needed.\<close>

definition text_server :: "(string \<rightharpoonup> string) mysql" where
  "text_server =
     \<lparr>srv_show = (\<lambda>d st. case Cut (CHR 0x60) (drop 19 st) of
          None \<Rightarrow> Err (Sentinel ''syntax'')
        | Some (t, r) \<Rightarrow> (case d t of None \<Rightarrow> Err (Sentinel ''no table'') | Some b \<Rightarrow> Ok (''CREATE TABLE `'' @ t @ ''`'' @ b))),
      srv_count = (\<lambda>d t. Ok (if d t = None then 0 else 1)),
      srv_exec = (\<lambda>d st.
        if take 14 st = ''CREATE TABLE `'' then
          (case Cut (CHR 0x60) (drop 14 st) of
             None \<Rightarrow> (d, Err (Sentinel ''syntax''))
           | Some (t, b) \<Rightarrow> (d(t \<mapsto> b), Ok ()))
        else
          (case Cut (CHR 0x60) (drop 12 st) of
             None \<Rightarrow> (d, Err (Sentinel ''syntax''))
           | Some (t, b) \<Rightarrow> (d(t := None), Ok ())))\<rparr>"

lemma text_server_tables: "table_server text_server (\<lambda>d. d) (\<lambda>b. True)"
  unfolding table_server_def by (auto simp: text_server_def Cut_append)

theorem CheckLogTable_retention_witness:
  "\<exists>d'. CheckLogTable text_server (\<lambda>e. Err (Sentinel ''regexp'')) (\<lambda>sec. 3600) 1700000000 ''log'' 30
      [''log'' \<mapsto> '' (`id` int) AUTO_INCREMENT=7''] = (d', Ok ()) \<and>
    (\<forall>k \<in> {0, 1}. d' (day_table (\<lambda>sec. 3600) ''log'' 1700000000 k) \<noteq> None)"
proof -
  have "\<not> sublist (map lower_char ''log'') ''create table ''" by code_simp
  moreover have "[''log'' \<mapsto> '' (`id` int) AUTO_INCREMENT=7''] ''log'' = Some '' (`id` int) AUTO_INCREMENT=7''" by simp
  moreover have "list_all word_char ''log''" by code_simp
  ultimately show ?thesis
    using CheckLogTable_retention [OF text_server_tables, of "[''log'' \<mapsto> '' (`id` int) AUTO_INCREMENT=7'']" "''log''"
      "'' (`id` int) AUTO_INCREMENT=7''" "\<lambda>e. Err (Sentinel ''regexp'')" "\<lambda>sec. 3600" 1700000000 30]
    by blast
qed



text \<open>
  If the query and the scan of every delivered row succeed, the keys are those of these rows, with
  the last value of each, whether or not the rows were cut short; otherwise nothing changes and
  the error is returned.
\<close>

theorem Load_all_or_nothing:
  assumes "\<forall>p. rows \<noteq> Panic p" and "\<forall>rs e. rows = Ok (rs, e) \<longrightarrow> list_all (\<lambda>r. \<not> panics r) rs"
  shows "(\<exists>kvs e. rows = Ok (map Ok kvs, e) \<and> Load rows df = (df\<lparr>dbf_cc := map_of (rev kvs)\<rparr>, Ok None)) \<or>
         (\<exists>e. Load rows df = (df, Ok (Some e)))"
proof (cases rows)
  case (Ok r)
  obtain rs e where r: "r = (rs, e)" by (cases r)
  with Ok assms(2) have "list_all (\<lambda>r. \<not> panics r) rs" by simp
  from scan_rows_total [OF this, of Map.empty] show ?thesis
  proof (elim disjE exE conjE)
    fix kvs assume "rs = map Ok kvs" "scan_rows rs Map.empty = Ok (Map.empty ++ map_of (rev kvs))"
    with Ok r show ?thesis by (intro disjI1 exI [of _ kvs] exI [of _ e]) (simp add: Load_def)
  next
    fix e assume "scan_rows rs Map.empty = Err e"
    with Ok r show ?thesis by (intro disjI2 exI [of _ e]) (simp add: Load_def)
  qed
qed (use assms(1) in \<open>auto simp: Load_def\<close>)

theorem Load_all_or_nothing_witness:
  "\<exists>e. Load (Ok ([Ok (''a'', ''1''), Err (Sentinel ''scan'')], None)) (NewDBConfig ''t'' ''k'' ''v'' '''') =
     (NewDBConfig ''t'' ''k'' ''v'' '''', Ok (Some e))"
  using Load_all_or_nothing [of "Ok ([Ok (''a'', ''1''), Err (Sentinel ''scan'')], None)"
      "NewDBConfig ''t'' ''k'' ''v'' ''''"]
  by auto

end
