(* ===== verification/Std_Utf8.thy ===== *)
theory Std_Utf8
  imports Go_Prelude
begin

text \<open>
  Strings as sequences of runes, as the conversions between \<open>string\<close> and \<open>[]rune\<close> see them (UTF-8): a byte that is
  not part of a well-formed encoding becomes the replacement character.
\<close>

definition RuneError :: nat where "RuneError = 0xFFFD"

definition valid_rune :: "nat \<Rightarrow> bool" where
  "valid_rune r \<longleftrightarrow> r < 0xD800 \<or> 0xE000 \<le> r \<and> r < 0x110000"

definition rune_bytes :: "nat \<Rightarrow> nat list" where
  "rune_bytes r =
     (if r < 0x80 then [r]
      else if r < 0x800 then [0xC0 + r div 64, 0x80 + r mod 64]
      else if r < 0x10000 then [0xE0 + r div 64 div 64, 0x80 + r div 64 mod 64, 0x80 + r mod 64]
      else [0xF0 + r div 64 div 64 div 64, 0x80 + r div 64 div 64 mod 64, 0x80 + r div 64 mod 64, 0x80 + r mod 64])"

definition encode_rune :: "nat \<Rightarrow> nat list" where
  "encode_rune r = rune_bytes (if valid_rune r then r else RuneError)"

text \<open>The range of the second byte, by the first one.\<close>

definition accept :: "nat \<Rightarrow> nat \<Rightarrow> bool" where
  "accept b0 b1 \<longleftrightarrow>
     (if b0 = 0xE0 then 0xA0 \<le> b1 else if b0 = 0xF0 then 0x90 \<le> b1 else 0x80 \<le> b1) \<and>
     (if b0 = 0xED then b1 \<le> 0x9F else if b0 = 0xF4 then b1 \<le> 0x8F else b1 \<le> 0xBF)"

definition tail_byte :: "nat \<Rightarrow> bool" where
  "tail_byte b \<longleftrightarrow> 0x80 \<le> b \<and> b \<le> 0xBF"

fun decode_runes :: "nat list \<Rightarrow> nat list" where
  "decode_runes [] = []"
| "decode_runes (b0 # bs) =
     (if b0 < 0x80 then b0 # decode_runes bs
      else case bs of
        b1 # bs1 \<Rightarrow>
          if 0xC2 \<le> b0 \<and> b0 \<le> 0xDF \<and> accept b0 b1
          then ((b0 - 0xC0) * 64 + (b1 - 0x80)) # decode_runes bs1
          else (case bs1 of
            b2 # bs2 \<Rightarrow>
              if 0xE0 \<le> b0 \<and> b0 \<le> 0xEF \<and> accept b0 b1 \<and> tail_byte b2
              then (((b0 - 0xE0) * 64 + (b1 - 0x80)) * 64 + (b2 - 0x80)) # decode_runes bs2
              else (case bs2 of
                b3 # bs3 \<Rightarrow>
                  if 0xF0 \<le> b0 \<and> b0 \<le> 0xF4 \<and> accept b0 b1 \<and> tail_byte b2 \<and> tail_byte b3
                  then ((((b0 - 0xF0) * 64 + (b1 - 0x80)) * 64 + (b2 - 0x80)) * 64 + (b3 - 0x80)) # decode_runes bs3
                  else RuneError # decode_runes bs
              | [] \<Rightarrow> RuneError # decode_runes bs)
          | [] \<Rightarrow> RuneError # decode_runes bs)
      | [] \<Rightarrow> RuneError # decode_runes bs)"

lemmas decode_runes_Cons = decode_runes.simps(2)

declare decode_runes.simps(2) [simp del]

lemma split64:
  fixes r :: nat
  obtains q m where "r = 64 * q + m" "m < 64"
  using that [of "r div 64" "r mod 64"] by simp

lemma decode_rune_bytes:
  assumes "valid_rune r"
  shows "decode_runes (rune_bytes r @ bs) = r # decode_runes bs"
proof -
  obtain q m where r: "r = 64 * q + m" "m < 64" by (rule split64)
  obtain q1 m1 where q: "q = 64 * q1 + m1" "m1 < 64" by (rule split64)
  obtain q2 m2 where q1: "q1 = 64 * q2 + m2" "m2 < 64" by (rule split64)
  have parts: "(64 * x + y) div 64 = x" "(64 * x + y) mod 64 = y" if "y < 64" for x y :: nat
    using that by simp_all
  have d: "r div 64 = q" "r mod 64 = m" "q div 64 = q1" "q mod 64 = m1" "q1 div 64 = q2" "q1 mod 64 = m2"
    using parts [OF r(2), of q] parts [OF q(2), of q1] parts [OF q1(2), of q2] by (simp_all only: r(1) [symmetric] q(1) [symmetric] q1(1) [symmetric])
  consider "r < 0x80" | "0x80 \<le> r" "r < 0x800" | "0x800 \<le> r" "r < 0x10000" | "0x10000 \<le> r" by linarith
  then show ?thesis
  proof cases
    case 1
    then show ?thesis by (simp add: rune_bytes_def decode_runes_Cons)
  next
    case 2
    then have "2 \<le> q" "q \<le> 31" using r by linarith+
    moreover have "rune_bytes r = [0xC0 + q, 0x80 + m]" using 2 by (simp add: rune_bytes_def d)
    moreover have "r = q * 64 + m" using r by simp
    ultimately show ?thesis using r(2) by (simp add: decode_runes_Cons accept_def)
  next
    case 3
    then have "32 \<le> q" "q \<le> 1023" using r by linarith+
    then have "q1 \<le> 15" "q1 = 0 \<longrightarrow> 32 \<le> m1" "q1 = 13 \<longrightarrow> m1 \<le> 31"
      using q r 3 assms by (auto simp: valid_rune_def)
    moreover have "rune_bytes r = [0xE0 + q1, 0x80 + m1, 0x80 + m]" using 3 by (simp add: rune_bytes_def d)
    moreover have "r = (q1 * 64 + m1) * 64 + m" using r q by simp
    ultimately show ?thesis using r(2) q(2) by (auto simp: decode_runes_Cons accept_def tail_byte_def)
  next
    case 4
    then have "r < 0x110000" using assms by (simp add: valid_rune_def)
    with 4 have "16 \<le> q1" "q1 \<le> 271" using r q by linarith+
    then have "q2 \<le> 4" "q2 = 0 \<longrightarrow> 16 \<le> m2" "q2 = 4 \<longrightarrow> m2 \<le> 15" using q1 by linarith+
    moreover have "rune_bytes r = [0xF0 + q2, 0x80 + m2, 0x80 + m1, 0x80 + m]" using 4 by (simp add: rune_bytes_def d)
    moreover have "r = ((q2 * 64 + m2) * 64 + m1) * 64 + m" using r q q1 by simp
    ultimately show ?thesis using r(2) q(2) q1(2) by (auto simp: decode_runes_Cons accept_def tail_byte_def)
  qed
qed

lemma decode_encode_runes:
  "list_all valid_rune rs \<Longrightarrow> decode_runes (concat (map encode_rune rs)) = rs"
  by (induction rs) (simp_all add: encode_rune_def decode_rune_bytes)

definition runes_of_string :: "string \<Rightarrow> nat list" where
  "runes_of_string s = decode_runes (map of_char s)"

definition string_of_runes :: "nat list \<Rightarrow> string" where
  "string_of_runes rs = concat (map (\<lambda>r. map char_of (encode_rune r)) rs)"

lemma encode_rune_less: "b \<in> set (encode_rune r) \<Longrightarrow> b < 256"
proof -
  have "b < 256" if "b \<in> set (rune_bytes r)" "valid_rune r" for r
  proof -
    have "r div 64 div 64 div 64 < 5" "r < 0x10000 \<Longrightarrow> r div 64 div 64 < 16" "r < 0x800 \<Longrightarrow> r div 64 < 32"
      using that(2) by (auto simp: valid_rune_def div_mult2_eq [symmetric] less_mult_imp_div_less)
    then show ?thesis using that(1) mod_less_divisor [of 64]
      by (auto simp: rune_bytes_def split: if_splits intro: order_less_le_trans [OF add_strict_left_mono])
  qed
  then show "b \<in> set (encode_rune r) \<Longrightarrow> b < 256"
    by (simp add: encode_rune_def RuneError_def valid_rune_def split: if_splits)
qed

lemma runes_of_string_of_runes: "list_all valid_rune rs \<Longrightarrow> runes_of_string (string_of_runes rs) = rs"
proof -
  assume v: "list_all valid_rune rs"
  have "map (of_char \<circ> char_of) (encode_rune r) = encode_rune r" for r
    using encode_rune_less by (simp add: map_idI)
  then have "map of_char (string_of_runes rs) = concat (map encode_rune rs)"
    by (simp add: string_of_runes_def map_concat comp_def)
  with decode_encode_runes [OF v] show ?thesis by (simp add: runes_of_string_def)
qed

end
