(* ===== verification/Common_Sys.thy ===== *)
theory Common_Sys
  imports Std_Utf8 Std_Time Common_Utils
begin

text \<open>
  The rest of \<^verbatim>\<open>common/utils.go\<close>: errors and their logging, random and limited text, files over what the file
  system answers, the addresses of interfaces, and the repeated action.
\<close>

subsection \<open>Errors\<close>

text \<open>
  \<open>LogError\<close> of an arbitrary value, which is nil, an error or a string: it returns the error, and panics when the value is
  something else.
\<close>

definition LogError :: "gpanic option \<Rightarrow> gerr option outcome" where
  "LogError e =
     (case e of
        None \<Rightarrow> Ok None
      | Some (PErr err) \<Rightarrow> Ok (Some err)
      | Some (PStr s args) \<Rightarrow> conversion_panic)"

definition ERR :: "gerr option \<Rightarrow> gerr option outcome" where
  "ERR err = LogError (map_option PErr err)"

definition CheckPanicAndLogErr :: "gerr option \<Rightarrow> unit outcome" where
  "CheckPanicAndLogErr e = (case e of Some err \<Rightarrow> Panic (PErr err) | None \<Rightarrow> Ok ())"

definition CheckPanicErr :: "gerr option \<Rightarrow> unit outcome" where
  "CheckPanicErr err = (case err of Some e \<Rightarrow> Panic (PErr e) | None \<Rightarrow> Ok ())"

definition LogERR :: "gerr option \<Rightarrow> gerr option outcome" where
  "LogERR err = LogError (map_option PErr err)"

text \<open>\<open>msg\<close> is \<open>Error()\<close> of an error, \<open>stack\<close> the text of the stack.\<close>

definition ErrStack :: "(gerr \<Rightarrow> string) \<Rightarrow> string \<Rightarrow> gerr option \<Rightarrow> string outcome" where
  "ErrStack msg stack err = (case err of None \<Rightarrow> nil_panic | Some e \<Rightarrow> Ok (msg e @ [CHR 0x0A] @ stack))"

text \<open>A function with \<open>LogPanicErr\<close> deferred: a panic with an error is swallowed, and any other panics again.\<close>

definition LogPanicErr :: "unit outcome \<Rightarrow> unit outcome" where
  "LogPanicErr body =
     (case body of
        Panic (PErr e) \<Rightarrow> Ok ()
      | Panic (PStr s args) \<Rightarrow> conversion_panic
      | r \<Rightarrow> r)"

subsection \<open>Text and bytes\<close>

definition letterRunes :: string where
  "letterRunes = ''abcdefghijklmnopqrstuvwxyzABCDEFGHIJKLMNOPQRSTUVWXYZ''"

abbreviation makeslice_panic :: "'a outcome" where
  "makeslice_panic \<equiv> Panic (PErr (RuntimeError ''makeslice: len out of range''))"

text \<open>\<open>draw i\<close> is the \<open>i\<close>-th random number; \<^verbatim>\<open>rand.Intn(n)\<close> reduces it below \<open>n\<close>.\<close>

definition RandStringRunes :: "(nat \<Rightarrow> nat) \<Rightarrow> int \<Rightarrow> string outcome" where
  "RandStringRunes draw n =
     (if n < 0 then makeslice_panic
      else Ok (map (\<lambda>i. letterRunes ! (draw i mod length letterRunes)) [0..<nat n]))"

definition RandBytes :: "(nat \<Rightarrow> nat) \<Rightarrow> int \<Rightarrow> bytes outcome" where
  "RandBytes draw n =
     (if n < 0 then makeslice_panic else Ok (map (\<lambda>i. of_nat (draw i mod 256)) [0..<nat n]))"

definition LimitStr :: "string \<Rightarrow> int \<Rightarrow> string outcome" where
  "LimitStr s n =
     (let sn = runes_of_string s in
      if int (length sn) > n
      then (if n < 0 then slice_panic else Ok (string_of_runes (take (nat n) sn)))
      else Ok s)"

text \<open>\<open>InterfaceSlice\<close> of a value that is a slice, or is not.\<close>

definition InterfaceSlice :: "'v list option \<Rightarrow> 'v list outcome" where
  "InterfaceSlice sl =
     (case sl of
        None \<Rightarrow> Panic (PStr ''InterfaceSlice() given a non-slice type'' [])
      | Some s \<Rightarrow> Ok s)"

text \<open>\<open>eval\<close> is the substitution of \<^verbatim>\<open>envsubst\<close>, given the text and the mapping of names.\<close>

definition EnvSubst :: "(string \<Rightarrow> (string \<Rightarrow> string \<times> bool) \<Rightarrow> string outcome) \<Rightarrow> string \<Rightarrow> (string \<Rightarrow> string \<times> bool) \<Rightarrow> string outcome" where
  "EnvSubst eval s mapping = eval s mapping"

definition EnvSubstMap :: "(string \<Rightarrow> (string \<Rightarrow> string \<times> bool) \<Rightarrow> string outcome) \<Rightarrow> string \<Rightarrow> (string \<Rightarrow> string) \<Rightarrow> string outcome" where
  "EnvSubstMap eval s str = EnvSubst eval s (\<lambda>varname. (str varname, True))"

definition EnvSubstOS :: "(string \<Rightarrow> (string \<Rightarrow> string \<times> bool) \<Rightarrow> string outcome) \<Rightarrow> (string \<Rightarrow> string) \<Rightarrow> string \<Rightarrow> string outcome" where
  "EnvSubstOS eval getenv s = CheckError (EnvSubst eval s (\<lambda>varname. (getenv varname, True)))"

text \<open>The date and the time of day of \<open>now\<close>.\<close>

definition NowDateTimeStr :: "gtime \<Rightarrow> string \<times> string" where
  "NowDateTimeStr now = (format_date ''-'' now, format_clock now)"

text \<open>\<open>StringMap.Value\<close>.\<close>

definition StringMap_Value :: "(string \<rightharpoonup> string) \<Rightarrow> string \<Rightarrow> string \<times> bool" where
  "StringMap_Value m key = (case m key of Some v \<Rightarrow> (v, True) | None \<Rightarrow> ([], False))"

text \<open>JSON to and from streams and bytes, over the codec; \<open>w\<close> is what has been written.\<close>

definition WriteJSON :: "('a \<Rightarrow> bytes outcome) \<Rightarrow> bytes \<Rightarrow> 'a \<Rightarrow> bytes outcome" where
  "WriteJSON encode w v = CheckError (obind (encode v) (\<lambda>d. Ok (w @ d)))"

definition ReadJSON :: "('r \<Rightarrow> 'a outcome) \<Rightarrow> 'r \<Rightarrow> 'a outcome" where
  "ReadJSON decode r = CheckError (decode r)"

definition JsonToObj :: "(bytes \<Rightarrow> 'a outcome) \<Rightarrow> bytes \<Rightarrow> 'a outcome" where
  "JsonToObj unmarshal data = CheckError (unmarshal data)"

text \<open>The dumps of requests and responses, over what \<^verbatim>\<open>httputil\<close> makes of them.\<close>

definition DumpHttpRequest :: "('r \<Rightarrow> bool \<Rightarrow> bytes outcome) \<Rightarrow> 'r \<Rightarrow> bytes \<Rightarrow> bool \<Rightarrow> bytes outcome" where
  "DumpHttpRequest dump r w dumpBody = obind (CheckError (dump r dumpBody)) (\<lambda>v. Ok (w @ v))"

definition DumpHttpResponse :: "('r \<Rightarrow> bool \<Rightarrow> bytes outcome) \<Rightarrow> 'r \<Rightarrow> bytes \<Rightarrow> bool \<Rightarrow> bytes outcome" where
  "DumpHttpResponse dump resp w dumpBody = obind (CheckError (dump resp dumpBody)) (\<lambda>v. Ok (w @ v))"

subsection \<open>Files\<close>

text \<open>
  \<open>GetExecDir\<close> with the variable \<open>_execDir\<close>: \<open>resolve\<close> is the directory of the absolute path of the program, the errors of
  its parts dropped. The second result is the variable afterwards.
\<close>

definition GetExecDir :: "string \<Rightarrow> string \<Rightarrow> string \<times> string" where
  "GetExecDir resolve execDir = (let d = (if execDir = [] then resolve else execDir) in (d, d))"

text \<open>\<open>stat\<close> is the answer of the file system to a path; \<open>not_exist\<close> is \<^verbatim>\<open>os.IsNotExist\<close>.\<close>

definition FileExists :: "(gerr \<Rightarrow> bool) \<Rightarrow> (string \<Rightarrow> gerr option) \<Rightarrow> string \<Rightarrow> bool \<times> gerr option" where
  "FileExists not_exist stat path =
     (case stat path of
        None \<Rightarrow> (True, None)
      | Some err \<Rightarrow> if not_exist err then (False, None) else (True, Some err))"

text \<open>
  \<open>InitLogger\<close>: the directory used, whether it is created, and whether the logger writes to it. \<open>stat'\<close> answers after
  the attempt to create the directory.
\<close>

definition InitLogger :: "(gerr \<Rightarrow> bool) \<Rightarrow> (string \<Rightarrow> gerr option) \<Rightarrow> (string \<Rightarrow> gerr option) \<Rightarrow> string \<Rightarrow> string \<Rightarrow> string \<times> bool \<times> bool" where
  "InitLogger not_exist stat stat' execDir logDir =
     (let logDir = (if logDir = [] then execDir @ ''/log'' else logDir);
          create = \<not> fst (FileExists not_exist stat logDir)
      in (logDir, create, fst (FileExists not_exist (if create then stat' else stat) logDir)))"

text \<open>
  \<open>InitContext\<close>: the log file, whether it is open, and whether the context is cancelled; \<open>None\<close> is the end of the process
  by \<^verbatim>\<open>log.Fatal\<close>. \<open>on_signal\<close> is its goroutine when a signal arrives.
\<close>

record sys_context =
  sc_logfile :: "string option"
  sc_open :: bool
  sc_done :: bool

definition InitContext :: "(string \<Rightarrow> gerr option) \<Rightarrow> string \<Rightarrow> sys_context option" where
  "InitContext open logfile =
     (if logfile \<noteq> [] then
        (case open logfile of
           Some err \<Rightarrow> None
         | None \<Rightarrow> Some \<lparr>sc_logfile = Some logfile, sc_open = True, sc_done = False\<rparr>)
      else Some \<lparr>sc_logfile = None, sc_open = False, sc_done = False\<rparr>)"

definition on_signal :: "sys_context \<Rightarrow> sys_context" where
  "on_signal c = c\<lparr>sc_open := (if sc_logfile c \<noteq> None then False else sc_open c), sc_done := True\<rparr>"

text \<open>\<open>Wait\<close>: which results it can have when the channel is closed, or the time has passed, or both.\<close>

definition Wait_result :: "bool \<Rightarrow> bool \<Rightarrow> bool \<Rightarrow> bool" where
  "Wait_result closed elapsed r \<longleftrightarrow> (if r then elapsed else closed)"

text \<open>A file that could be read, or not; \<open>execDir\<close> is the directory of the program.\<close>

definition ReadConfigData :: "(string \<Rightarrow> bytes outcome) \<Rightarrow> string \<Rightarrow> string \<Rightarrow> bytes outcome" where
  "ReadConfigData readFile execDir configPath =
     readFile (if configPath = [] then execDir @ ''/config.json'' else configPath)"

definition CalcFileMd5 :: "(string \<Rightarrow> bytes outcome) \<Rightarrow> string \<Rightarrow> string outcome" where
  "CalcFileMd5 readFile fullFileName = obind (readFile fullFileName) (\<lambda>data. Ok (CalcDataMd5 data))"

definition LoadYMLFile :: "(string \<Rightarrow> bytes outcome) \<Rightarrow> (bytes \<Rightarrow> 'c outcome) \<Rightarrow> string \<Rightarrow> 'c outcome" where
  "LoadYMLFile readFile unmarshal configFile = obind (readFile configFile) unmarshal"

text \<open>
  \<open>CopyFiles\<close>: the files copied and the error. \<open>copy\<close> is the error of a copy, \<open>same\<close> whether that is the error of a file
  copied onto itself.
\<close>

fun CopyFiles :: "(string \<Rightarrow> gerr option) \<Rightarrow> (gerr \<Rightarrow> bool) \<Rightarrow> string list \<Rightarrow> string list \<times> gerr option" where
  "CopyFiles copy same [] = ([], None)"
| "CopyFiles copy same (f # fs) =
     (case copy f of
        Some err \<Rightarrow>
          if \<not> same err then ([], Some err) else CopyFiles copy same fs
      | None \<Rightarrow> (case CopyFiles copy same fs of (done, r) \<Rightarrow> (f # done, r)))"

text \<open>\<open>RemoveDirContents\<close> over the names in the directory; \<open>remove\<close> is the error of \<open>RemoveAll\<close>.\<close>

fun remove_names :: "(string \<Rightarrow> gerr option) \<Rightarrow> string list \<Rightarrow> string list \<times> gerr option" where
  "remove_names remove [] = ([], None)"
| "remove_names remove (f # fs) =
     (case remove f of
        Some err \<Rightarrow> ([], Some err)
      | None \<Rightarrow> (case remove_names remove fs of (done, r) \<Rightarrow> (f # done, r)))"

definition RemoveDirContents :: "gerr + string list \<Rightarrow> (string \<Rightarrow> gerr option) \<Rightarrow> string list \<times> gerr option" where
  "RemoveDirContents names remove =
     (case names of Inr ns \<Rightarrow> remove_names remove ns | Inl e \<Rightarrow> ([], Some e))"

subsection \<open>Interfaces\<close>

datatype net_addr = IPNet bytes | IPAddr bytes | OtherAddr

fun addr_ip :: "net_addr \<Rightarrow> bytes list" where
  "addr_ip (IPNet ip) = [ip]"
| "addr_ip (IPAddr ip) = [ip]"
| "addr_ip OtherAddr = []"

definition getIntefaceIps :: "net_addr list outcome \<Rightarrow> bytes list" where
  "getIntefaceIps addrs = (case addrs of Ok as \<Rightarrow> concat (map addr_ip as) | _ \<Rightarrow> [])"

definition LocalIPs :: "net_addr list outcome list outcome \<Rightarrow> bytes list outcome" where
  "LocalIPs ifaces = obind (CheckError ifaces) (\<lambda>is. Ok (concat (map getIntefaceIps is)))"

subsection \<open>Repeated actions\<close>

text \<open>
  \<open>TimerAction\<close> over its rounds: what the action does, and whether the context is done when the \<open>select\<close> chooses. The
  number of actions run, and how it ends: still running, returned, or a panic that ends the process.
\<close>

datatype timer_end = TimerRuns | TimerReturns | TimerPanics gpanic

fun TimerAction :: "(unit outcome \<times> bool) list \<Rightarrow> nat \<times> timer_end" where
  "TimerAction [] = (0, TimerRuns)"
| "TimerAction ((action, ctx_done) # rs) =
     (case LogPanicErr action of
        Panic p \<Rightarrow> (1, TimerPanics p)
      | _ \<Rightarrow> if ctx_done then (1, TimerReturns)
             else (case TimerAction rs of (n, e) \<Rightarrow> (Suc n, e)))"

subsection \<open>Properties\<close>

text \<open>
  Limiting a well-formed text keeps its first characters, however many bytes they have, and never cuts one in two.
\<close>

theorem LimitStr_runes:
  assumes "list_all valid_rune rs" and "0 \<le> n"
  shows "LimitStr (string_of_runes rs) n = Ok (string_of_runes (take (nat n) rs)) \<and>
         runes_of_string (string_of_runes (take (nat n) rs)) = take (nat n) rs"
proof -
  have "list_all valid_rune (take (nat n) rs)"
    using assms(1) by (meson in_set_takeD list_all_iff)
  with assms show ?thesis
    by (auto simp: LimitStr_def Let_def runes_of_string_of_runes)
qed

theorem LimitStr_runes_witness:
  "LimitStr (string_of_runes [0x4F60, 0x597D, 0x61]) 2 = Ok (string_of_runes [0x4F60, 0x597D])"
  using LimitStr_runes [of "[0x4F60, 0x597D, 0x61]" 2] by (simp add: valid_rune_def)

text \<open>
  The repeated action goes on after panics with an error and stops after the first round in which the context is done;
  a panic with anything else in an earlier round ends the process, because the recovery asserts an error.
\<close>

theorem TimerAction_rounds:
  assumes "list_all (\<lambda>(a, d). \<not> d \<and> (\<forall>s x. a \<noteq> Panic (PStr s x))) rs"
  shows "TimerAction (rs @ [(a, True)] @ rest) =
           (Suc (length rs), case a of Panic (PStr s x) \<Rightarrow> TimerPanics (PErr (RuntimeError ''interface conversion'')) | _ \<Rightarrow> TimerReturns) \<and>
         TimerAction rs = (length rs, TimerRuns) \<and>
         TimerAction (rs @ [(Panic (PStr s x), d)] @ rest) = (Suc (length rs), TimerPanics (PErr (RuntimeError ''interface conversion'')))"
  using assms
  by (induction rs) (auto simp: LogPanicErr_def split: outcome.splits gpanic.splits)

theorem TimerAction_rounds_witness:
  "TimerAction [(Ok (), False), (index_panic, False), (Ok (), True), (Ok (), False)] = (3, TimerReturns)"
  using TimerAction_rounds [of "[(Ok (), False), (index_panic, False)]" "Ok ()" "[(Ok (), False)]"] by simp

text \<open>The directory of the program is resolved once, unless it is empty: later calls give the same.\<close>

lemma GetExecDir_once:
  "GetExecDir r1 e = (d, e') \<Longrightarrow> d \<noteq> [] \<Longrightarrow> GetExecDir r2 e' = (d, e')"
  by (auto simp: GetExecDir_def Let_def)

text \<open>
  \<open>CopyFiles\<close> and \<open>RemoveDirContents\<close> stop at the first error that counts, having treated exactly the files before it.
\<close>

lemma CopyFiles_stops:
  "CopyFiles copy same fs =
     (let before = takeWhile (\<lambda>f. \<forall>e. copy f = Some e \<longrightarrow> same e) fs
      in (filter (\<lambda>f. copy f = None) before,
          case dropWhile (\<lambda>f. \<forall>e. copy f = Some e \<longrightarrow> same e) fs of [] \<Rightarrow> None | f # rest \<Rightarrow> copy f))"
  by (induction fs) (auto simp: Let_def split: option.splits)

lemma RemoveDirContents_stops:
  "RemoveDirContents (Inr fs) remove =
     (takeWhile (\<lambda>f. remove f = None) fs,
      case dropWhile (\<lambda>f. remove f = None) fs of [] \<Rightarrow> None | f # rest \<Rightarrow> remove f)"
proof -
  have "remove_names remove fs = (takeWhile (\<lambda>f. remove f = None) fs,
      case dropWhile (\<lambda>f. remove f = None) fs of [] \<Rightarrow> None | f # rest \<Rightarrow> remove f)"
    by (induction fs) (auto split: option.splits)
  then show ?thesis by (simp add: RemoveDirContents_def)
qed

end
