(* ===== verification/Db_Database.thy ===== *)
theory Db_Database
  imports Db_Session Common_Sys
begin

text \<open>
  The rest of \<^verbatim>\<open>dbutils/database.go\<close>: the database object, its configuration table and the periodic update of it.
  \<open>'c\<close> is a connection of the driver.
\<close>

subsection \<open>The object\<close>

record 'c Database =
  db_conn :: "'c option"
  db_connStr :: string
  db_dbf :: "DBConfig option"

definition NewDatabase :: "'c Database" where
  "NewDatabase = \<lparr>db_conn = None, db_connStr = [], db_dbf = None\<rparr>"

text \<open>\<open>Close\<close>: the second result is the connection it closes, if there is one.\<close>

definition Database_Close :: "'c Database \<Rightarrow> 'c Database \<times> 'c option" where
  "Database_Close dbs =
     (case db_conn dbs of
        None \<Rightarrow> (dbs, None)
      | Some c \<Rightarrow> (dbs\<lparr>db_conn := None\<rparr>, Some c))"

definition InitDBF :: "string \<Rightarrow> string \<Rightarrow> string \<Rightarrow> string \<Rightarrow> 'c Database \<Rightarrow> 'c Database" where
  "InitDBF tblName keyCol valueCol enableCol dbs =
     dbs\<lparr>db_dbf := Some (NewDBConfig tblName keyCol valueCol enableCol)\<rparr>"

definition NewSession :: "'c Database \<Rightarrow> 'c outcome" where
  "NewSession dbs = (case db_conn dbs of None \<Rightarrow> nil_panic | Some c \<Rightarrow> Ok c)"

text \<open>The query of \<open>Load\<close>: columns, table and condition.\<close>

definition load_query :: "DBConfig \<Rightarrow> string \<times> string \<times> string \<times> string option" where
  "load_query df =
     (dbf_keyCol df, dbf_valueCol df, dbf_tblName df,
      if dbf_enableCol df \<noteq> [] then Some (dbf_enableCol df @ ''<> 0'') else None)"

text \<open>\<open>ask\<close> is what the server answers to a query on a connection.\<close>

type_synonym 'c server = "'c \<Rightarrow> string \<times> string \<times> string \<times> string option \<Rightarrow> db_rows outcome"

definition UpdateDBF :: "'c server \<Rightarrow> 'c Database \<Rightarrow> 'c Database \<times> gerr option outcome" where
  "UpdateDBF ask dbs =
     (case NewSession dbs of
        Ok c \<Rightarrow>
          (case db_dbf dbs of
             None \<Rightarrow> (dbs, nil_panic)
           | Some df \<Rightarrow> (case Load (ask c (load_query df)) df of (df, r) \<Rightarrow> (dbs\<lparr>db_dbf := Some df\<rparr>, r)))
      | Err e \<Rightarrow> (dbs, Err e)
      | Panic p \<Rightarrow> (dbs, Panic p))"

text \<open>
  \<open>StartUpdateDBF\<close> over the rounds of \<open>TimerAction\<close>: an error is logged, a panic with an error is recovered, and one
  with a string ends the process. The flag is whether the context is done after the round.
\<close>

fun update_rounds :: "('c server \<times> bool) list \<Rightarrow> 'c Database \<Rightarrow> 'c Database \<times> timer_end" where
  "update_rounds [] dbs = (dbs, TimerRuns)"
| "update_rounds ((ask, ctx_done) # rs) dbs =
     (case UpdateDBF ask dbs of
        (dbs, r) \<Rightarrow>
          (case LogPanicErr (obind r (\<lambda>logged. Ok ())) of
             Panic p \<Rightarrow> (dbs, TimerPanics p)
           | _ \<Rightarrow> if ctx_done then (dbs, TimerReturns) else update_rounds rs dbs))"

text \<open>Whether \<open>TimingKv\<close> reports a statement: whole seconds, of nanoseconds, above three.\<close>

definition too_slow :: "int \<Rightarrow> bool" where
  "too_slow nanoseconds \<longleftrightarrow> 0 \<le> nanoseconds \<and> nanoseconds div 1000000000 > 3"

subsection \<open>Lemmas\<close>

lemma Database_Close_twice:
  "Database_Close (fst (Database_Close dbs)) = (fst (Database_Close dbs), None)"
  by (simp add: Database_Close_def split: option.splits)

text \<open>
  What an answer means to a round: the configuration it gives, if the query and every scan of a
  delivered row succeed, and the outcome of the action.
\<close>

definition scanned :: "db_rows outcome \<Rightarrow> (string \<rightharpoonup> string) option" where
  "scanned answer =
     (case answer of
        Ok (rows, rows_Err) \<Rightarrow> (case scan_rows rows Map.empty of Ok cc \<Rightarrow> Some cc | _ \<Rightarrow> None)
      | _ \<Rightarrow> None)"

definition action_outcome :: "db_rows outcome \<Rightarrow> unit outcome" where
  "action_outcome answer =
     (case obind answer (\<lambda>(rows, rows_Err). scan_rows rows Map.empty) of Panic p \<Rightarrow> Panic p | _ \<Rightarrow> Ok ())"

definition after_answer :: "db_rows outcome \<Rightarrow> (string \<rightharpoonup> string) \<Rightarrow> (string \<rightharpoonup> string)" where
  "after_answer answer cc = (case scanned answer of Some new \<Rightarrow> new | None \<Rightarrow> cc)"

lemma UpdateDBF_answer:
  assumes "db_conn dbs = Some c" and "db_dbf dbs = Some df"
  shows "\<exists>r. UpdateDBF ask dbs =
      (dbs\<lparr>db_dbf := Some (df\<lparr>dbf_cc := after_answer (ask c (load_query df)) (dbf_cc df)\<rparr>)\<rparr>, r) \<and>
    obind r (\<lambda>logged. Ok ()) = action_outcome (ask c (load_query df))"
proof (cases "ask c (load_query df)")
  case (Ok a)
  obtain rows e where a: "a = (rows, e)" by (cases a)
  show ?thesis using assms Ok a
    by (cases "scan_rows rows Map.empty")
      (simp_all add: UpdateDBF_def NewSession_def Load_def after_answer_def scanned_def action_outcome_def)
qed (use assms in \<open>simp_all add: UpdateDBF_def NewSession_def Load_def after_answer_def scanned_def action_outcome_def\<close>)

lemma fold_after_answer:
  "fold after_answer as cc = last (cc # List.map_filter scanned as)"
  by (induction as arbitrary: cc)
    (auto simp: after_answer_def map_filter_simps split: option.splits)

lemma scan_rows_read: "scan_rows (map Ok kvs) m = Ok (m ++ map_of (rev kvs))"
  by (induction kvs arbitrary: m) (auto simp: map_add_def fun_eq_iff split: option.splits)

lemma update_rounds_fold:
  assumes "db_conn dbs = Some c" and "db_dbf dbs = Some df"
    and "TimerAction (map (\<lambda>(ask, ctx_done). (action_outcome (ask c (load_query df)), ctx_done)) rs) = (n, e)"
  shows "update_rounds rs dbs =
    (dbs\<lparr>db_dbf := Some (df\<lparr>dbf_cc := fold after_answer (take n (map (\<lambda>(ask, ctx_done). ask c (load_query df)) rs))
       (dbf_cc df)\<rparr>)\<rparr>, e)"
  using assms
proof (induction rs arbitrary: dbs df n e)
  case (Cons r rs)
  obtain ask d where r: "r = (ask, d)" by (cases r)
  let ?q = "load_query df"
  let ?df = "df\<lparr>dbf_cc := after_answer (ask c ?q) (dbf_cc df)\<rparr>"
  let ?dbs = "dbs\<lparr>db_dbf := Some ?df\<rparr>"
  let ?acts = "map (\<lambda>(ask, ctx_done). (action_outcome (ask c ?q), ctx_done)) rs"
  obtain x where u: "UpdateDBF ask dbs = (?dbs, x)" "obind x (\<lambda>logged. Ok ()) = action_outcome (ask c ?q)"
    using UpdateDBF_answer [OF Cons.prems(1,2)] by blast
  have q: "load_query ?df = ?q" by (simp add: load_query_def)
  consider p where "LogPanicErr (action_outcome (ask c ?q)) = Panic p"
    | "\<nexists>p. LogPanicErr (action_outcome (ask c ?q)) = Panic p" d
    | "\<nexists>p. LogPanicErr (action_outcome (ask c ?q)) = Panic p" "\<not> d" by blast
  then show ?case
  proof cases
    case 1
    then show ?thesis using Cons.prems(3) u by (auto simp: r)
  next
    case 2
    then show ?thesis using Cons.prems(3) u by (auto simp: r split: outcome.splits)
  next
    case 3
    obtain m e' where t: "TimerAction ?acts = (m, e')" by force
    have "n = Suc m" "e = e'" using Cons.prems(3) 3 t by (auto simp: r split: outcome.splits)
    moreover have "db_conn ?dbs = Some c" "db_dbf ?dbs = Some ?df" using Cons.prems(1) by simp_all
    moreover have "TimerAction (map (\<lambda>(ask, ctx_done). (action_outcome (ask c (load_query ?df)), ctx_done)) rs) = (m, e')"
      using t by (simp only: q)
    note Cons.IH [OF \<open>db_conn ?dbs = Some c\<close> \<open>db_dbf ?dbs = Some ?df\<close> this]
    moreover have "update_rounds (r # rs) dbs = update_rounds rs ?dbs"
      using 3 u by (auto simp: r split: outcome.splits)
    ultimately show ?thesis by (simp add: r q)
  qed
qed simp

subsection \<open>Properties\<close>

text \<open>
  C31: However the server answers the periodic updates, their rounds are those of \<open>TimerAction\<close>, and the configuration in use
  after them is that of the last executed round whose query succeeded and whose delivered rows
  could all be read, or the old one if there was none; columns and table never change. It need
  not be a complete one: a result that an error cut short replaces the configuration by the rows
  that came before the error.
\<close>

theorem update_config_of_answer:
  assumes "db_conn dbs = Some c" and "db_dbf dbs = Some df"
    and "TimerAction (map (\<lambda>(ask, ctx_done). (action_outcome (ask c (load_query df)), ctx_done)) rs) = (n, e)"
  shows "update_rounds rs dbs =
      (dbs\<lparr>db_dbf := Some (df\<lparr>dbf_cc := last (dbf_cc df # List.map_filter scanned
         (take n (map (\<lambda>(ask, ctx_done). ask c (load_query df)) rs)))\<rparr>)\<rparr>, e) \<and>
    scanned (Ok (map Ok kvs, Some lost)) = Some (map_of (rev kvs)) \<and>
    update_rounds [(\<lambda>c q. Ok (map Ok kvs, Some lost), True)] dbs =
      (dbs\<lparr>db_dbf := Some (df\<lparr>dbf_cc := map_of (rev kvs)\<rparr>)\<rparr>, TimerReturns)"
proof (intro conjI)
  show "update_rounds rs dbs =
      (dbs\<lparr>db_dbf := Some (df\<lparr>dbf_cc := last (dbf_cc df # List.map_filter scanned
         (take n (map (\<lambda>(ask, ctx_done). ask c (load_query df)) rs)))\<rparr>)\<rparr>, e)"
    unfolding update_rounds_fold [OF assms] fold_after_answer ..
  show "scanned (Ok (map Ok kvs, Some lost)) = Some (map_of (rev kvs))"
    by (simp add: scanned_def scan_rows_read)
  show "update_rounds [(\<lambda>c q. Ok (map Ok kvs, Some lost), True)] dbs =
      (dbs\<lparr>db_dbf := Some (df\<lparr>dbf_cc := map_of (rev kvs)\<rparr>)\<rparr>, TimerReturns)"
    using assms(1,2) by (simp add: UpdateDBF_def NewSession_def Load_def scan_rows_read LogPanicErr_def)
qed

theorem update_config_of_answer_witness:
  "fst (update_rounds [(\<lambda>c q. Ok ([Ok (''k'', ''v'')], Some io_EOF), False), (\<lambda>c q. Err (Sentinel ''lost''), True)]
      ((InitDBF ''t'' ''k'' ''v'' [] NewDatabase)\<lparr>db_conn := Some (1 :: nat)\<rparr>)) =
    (InitDBF ''t'' ''k'' ''v'' [] NewDatabase)\<lparr>db_conn := Some 1,
      db_dbf := Some ((NewDBConfig ''t'' ''k'' ''v'' [])\<lparr>dbf_cc := [''k'' \<mapsto> ''v'']\<rparr>)\<rparr>"
proof -
  define rs :: "(nat server \<times> bool) list" where
    "rs = [(\<lambda>c q. Ok ([Ok (''k'', ''v'')], Some io_EOF), False), (\<lambda>c q. Err (Sentinel ''lost''), True)]"
  let ?df = "NewDBConfig ''t'' ''k'' ''v'' []"
  let ?dbs = "(InitDBF ''t'' ''k'' ''v'' [] NewDatabase)\<lparr>db_conn := Some (1 :: nat)\<rparr>"
  have t: "TimerAction (map (\<lambda>(ask, ctx_done). (action_outcome (ask 1 (load_query ?df)), ctx_done)) rs) = (2, TimerReturns)"
    by (simp add: rs_def action_outcome_def LogPanicErr_def numeral_2_eq_2)
  have d: "db_conn ?dbs = Some 1" "db_dbf ?dbs = Some ?df" by (simp_all add: InitDBF_def)
  have "update_rounds rs ?dbs = (?dbs\<lparr>db_dbf := Some (?df\<lparr>dbf_cc := last (dbf_cc ?df # List.map_filter scanned
         (take 2 (map (\<lambda>(ask, ctx_done). ask 1 (load_query ?df)) rs)))\<rparr>)\<rparr>, TimerReturns)"
    by (rule update_config_of_answer [OF d t, THEN conjunct1])
  then show ?thesis by (simp add: rs_def map_filter_simps scanned_def)
qed

end
