(* ===== verification/Ssh_Dialer.thy ===== *)
theory Ssh_Dialer
  imports Step_Systems Std_Net Std_Base64 Std_Path
begin

text \<open>
  \<^verbatim>\<open>sshutil/sshmgr.go\<close> (a dialer with its waiting times, and the serving loop of the manager),
  \<^verbatim>\<open>sshutil/sshclient.go\<close> (dialling through a client) and \<^verbatim>\<open>sshutil/sshconfig.go\<close> (key, host key and
  connection attempts). Times are seconds; what the network answers is an argument.
\<close>

subsection \<open>A dialer\<close>

record SSHDialer =
  sd_waitSeconds :: int
  sd_lastestConnectTime :: int

text \<open>
  \<open>newClient\<close> at time \<open>now\<close>, with the result of \<open>sshClientDialFunc\<close> if it is called: too early, it
  returns no client and no error.
\<close>

definition may_dial :: "SSHDialer \<Rightarrow> int \<Rightarrow> bool" where
  "may_dial sd now = (\<not> (sd_lastestConnectTime sd \<noteq> 0 \<and> i64 (now - sd_lastestConnectTime sd) < sd_waitSeconds sd))"

definition newClient :: "int \<Rightarrow> 'c outcome \<Rightarrow> SSHDialer \<Rightarrow> SSHDialer \<times> 'c option outcome" where
  "newClient now dialled sd =
     (if \<not> may_dial sd now then (sd, Ok None)
      else let sd = sd\<lparr>sd_lastestConnectTime := now\<rparr> in
        case dialled of
          Panic p \<Rightarrow> (sd, Panic p)
        | Err e \<Rightarrow>
            (sd\<lparr>sd_waitSeconds := if sd_waitSeconds sd \<le> 0 then 5 else i64 (sd_waitSeconds sd * 2)\<rparr>, Err e)
        | Ok client \<Rightarrow> (sd\<lparr>sd_waitSeconds := 0\<rparr>, Ok (Some client)))"

text \<open>\<open>newSSHDialer\<close>, and the dialers \<open>Init\<close> puts into its channel: the ones that could be built.\<close>

definition newSSHDialer :: "'f outcome \<Rightarrow> ('f \<times> SSHDialer) outcome" where
  "newSSHDialer dialFunc = obind dialFunc (\<lambda>f. Ok (f, \<lparr>sd_waitSeconds = 0, sd_lastestConnectTime = 0\<rparr>))"

fun Init :: "'f outcome list \<Rightarrow> ('f \<times> SSHDialer) list outcome" where
  "Init [] = Ok []"
| "Init (c # cs) =
     (case newSSHDialer c of
        Ok d \<Rightarrow> obind (Init cs) (\<lambda>ds. Ok (d # ds))
      | Err e \<Rightarrow> Init cs
      | Panic p \<Rightarrow> Panic p)"

text \<open>The times at which a dialer really dials, called at the times \<open>ts\<close> with every dial failing.\<close>

fun failing_dials :: "gerr \<Rightarrow> int list \<Rightarrow> SSHDialer \<Rightarrow> int list" where
  "failing_dials e [] sd = []"
| "failing_dials e (t # ts) sd =
     (let rest = failing_dials e ts (fst (newClient t (Err e :: unit outcome) sd))
      in if may_dial sd t then t # rest else rest)"

subsection \<open>Dialling through a client\<close>

text \<open>
  \<open>SSHClient.Dial\<close>: \<open>attempt k\<close> is the answer to the attempt with \<open>retryCnt = k\<close>; the second result
  is the seconds slept.
\<close>

function dial_loop :: "(nat \<Rightarrow> 'c outcome) \<Rightarrow> nat \<Rightarrow> 'c outcome \<times> nat list" where
  "dial_loop attempt retryCnt =
     (case attempt retryCnt of
        Err e \<Rightarrow> if retryCnt + 1 > 5 then (Err e, [retryCnt])
                 else let (r, slept) = dial_loop attempt (retryCnt + 1) in (r, retryCnt # slept)
      | r \<Rightarrow> (r, []))"
  by pat_completeness auto
termination by (relation "measure (\<lambda>(attempt, retryCnt). 6 - retryCnt)") auto

declare dial_loop.simps [simp del]

definition SSHClient_Dial :: "(nat \<Rightarrow> 'c outcome) \<Rightarrow> 'c outcome \<times> nat list" where
  "SSHClient_Dial attempt = dial_loop attempt 1"

text \<open>\<open>GetDialFunc\<close>: the connection or error, and whether \<open>connIsValid\<close> is cleared.\<close>

definition GetDialFunc :: "'k option \<Rightarrow> ('k \<Rightarrow> 'c outcome) \<Rightarrow> 'c outcome \<times> bool" where
  "GetDialFunc sshClient dial =
     (case sshClient of
        None \<Rightarrow> (Err (Errorf ''not found valid ssh client'' []), False)
      | Some k \<Rightarrow> (case dial k of Err e \<Rightarrow> (Err e, True) | r \<Rightarrow> (r, False)))"

subsection \<open>Configuration\<close>

record SSHConfig =
  sc_Host :: string
  sc_Port :: int
  sc_UserName :: string
  sc_KeyPath :: string
  sc_ProxyAddrs :: string
  sc_HostKey :: string
  sc_Timeout :: int
  sc_VerifyHostKey :: bool

text \<open>\<^verbatim>\<open>filepath.Join\<close> of a directory and a name that is not empty.\<close>

definition filepath_Join :: "string \<Rightarrow> string \<Rightarrow> string" where
  "filepath_Join dir name = (if dir = [] then path_Clean name else path_Clean (dir @ ''/'' @ name))"

text \<open>
  \<open>HostMapToSSHConfig\<close>: \<open>hstr\<close> and \<open>hint\<close> are the methods \<open>Str\<close> and \<open>Int\<close> of the host, which \<open>MapIntf\<close> does not
  declare.
\<close>

definition HostMapToSSHConfig :: "(string \<Rightarrow> string) \<Rightarrow> (string \<Rightarrow> int) \<Rightarrow> SSHConfig" where
  "HostMapToSSHConfig hstr hint =
     (let keyPath = (if hstr ''keyPath'' = [] then ''id_rsa'' else hstr ''keyPath'') in
      \<lparr>sc_Host = hstr ''host'', sc_Port = hint ''port'', sc_UserName = hstr ''user'',
       sc_KeyPath = filepath_Join (hstr ''keyDir'') keyPath, sc_ProxyAddrs = hstr ''proxy'',
       sc_HostKey = hstr ''hostkey'', sc_Timeout = hint ''timeout'', sc_VerifyHostKey = (hstr ''hostkey'' \<noteq> [])\<rparr>)"

text \<open>\<open>None\<close> is the nil slice.\<close>

definition testEq :: "bytes option \<Rightarrow> bytes option \<Rightarrow> bool" where
  "testEq a b =
     (case (a, b) of
        (None, None) \<Rightarrow> True
      | (None, Some _) \<Rightarrow> False
      | (Some _, None) \<Rightarrow> False
      | (Some x, Some y) \<Rightarrow> if length x \<noteq> length y then False else list_all2 (=) x y)"

text \<open>
  \<open>readKeyData\<close> with the cache of pass phrases; \<open>pem\<close> is \<open>pem.Decode\<close> (a block, if one is found, and
  the rest), \<open>decrypt\<close> is \<open>x509.DecryptPEMBlock\<close>, \<open>md5hex\<close> the hash of the file.
\<close>

definition readKeyData :: "(bytes \<Rightarrow> 'b option \<times> bytes) \<Rightarrow> ('b \<Rightarrow> string \<Rightarrow> bytes outcome) \<Rightarrow> (bytes \<Rightarrow> string)
    \<Rightarrow> bytes outcome \<Rightarrow> string \<Rightarrow> (string \<rightharpoonup> string) \<Rightarrow> (string \<rightharpoonup> string) \<times> bytes outcome" where
  "readKeyData pem decrypt md5hex keyFile askedPass cache =
     (case keyFile of
        Err e \<Rightarrow> (cache, Err e)
      | Panic p \<Rightarrow> (cache, Panic p)
      | Ok key \<Rightarrow>
          let md5Hash = md5hex key; (block, rest) = pem key in
          if length rest > 0 then (cache, Err (Errorf ''decode rsa private key failed'' []))
          else let keypass = (case cache md5Hash of Some k \<Rightarrow> k | None \<Rightarrow> askedPass) in
            case block of
              None \<Rightarrow> (cache, nil_panic)
            | Some b \<Rightarrow>
                (case decrypt b keypass of
                   Ok der \<Rightarrow> (cache(md5Hash \<mapsto> keypass), Ok der)
                 | r \<Rightarrow> (cache, r)))"

text \<open>\<open>HostKeyCallback\<close> for the decoded host key: whether the server's key is accepted.\<close>

definition HostKeyCallback :: "bytes option \<Rightarrow> bool \<Rightarrow> bytes \<Rightarrow> bool" where
  "HostKeyCallback hostKey verifyHostKey key =
     (if (case hostKey of Some h \<Rightarrow> length h > 0 \<and> testEq (Some key) hostKey | None \<Rightarrow> False) then True
      else if (case hostKey of Some h \<Rightarrow> length h = 0 | None \<Rightarrow> True) \<and> \<not> verifyHostKey then True
      else False)"

text \<open>
  \<open>SSHClientConfig\<close>: user name and host key check; \<open>keyData\<close> is the result of \<open>readKeyData\<close>, \<open>parse\<close> and
  \<open>signer\<close> are \<open>x509.ParsePKCS1PrivateKey\<close> and \<open>ssh.NewSignerFromKey\<close>.
\<close>

definition SSHClientConfig :: "(bytes \<Rightarrow> 'k outcome) \<Rightarrow> ('k \<Rightarrow> 's outcome) \<Rightarrow> bytes outcome \<Rightarrow> SSHConfig
    \<Rightarrow> (string \<times> 's \<times> (bytes \<Rightarrow> bool)) outcome" where
  "SSHClientConfig parse signer keyData p =
     (let username = (if sc_UserName p = [] then ''jumpbox'' else sc_UserName p) in
      obind keyData (\<lambda>keyData. obind (parse keyData) (\<lambda>priKey. obind (signer priKey) (\<lambda>sgn.
      obind (b64_decode (sc_HostKey p)) (\<lambda>hostKey.
        Ok (username, sgn, HostKeyCallback (Some hostKey) (sc_VerifyHostKey p)))))))"

definition timeout :: "SSHConfig \<Rightarrow> int" where
  "timeout p = (if sc_Timeout p = 0 then 30 else sc_Timeout p)"

text \<open>
  \<open>DialSSH\<close>: \<open>attempt i a\<close> is what connecting through the proxy \<open>a\<close> gives at the \<open>i\<close>-th attempt. Only
  the first success counts.
\<close>

fun try_all :: "(nat \<Rightarrow> string \<Rightarrow> 'c outcome) \<Rightarrow> nat \<Rightarrow> string list \<Rightarrow> 'c option outcome" where
  "try_all attempt i [] = Ok None"
| "try_all attempt i (a # as) =
     (case attempt i a of
        Ok client \<Rightarrow> Ok (Some client)
      | Err e \<Rightarrow> try_all attempt (Suc i) as
      | Panic p \<Rightarrow> Panic p)"

definition DialSSH :: "(nat \<Rightarrow> string \<Rightarrow> 'c outcome) \<Rightarrow> string \<Rightarrow> SSHConfig \<Rightarrow> 'c outcome" where
  "DialSSH attempt addr p =
     (let proxyAddrs = Split (CHR '';'') (sc_ProxyAddrs p) in
      if length proxyAddrs = 0 then attempt 0 []
      else obind (try_all attempt 0 (concat (replicate 3 proxyAddrs))) (\<lambda>r.
        case r of Some client \<Rightarrow> Ok client | None \<Rightarrow> Err (Errorf ''connect to %v failed'' [AStr addr])))"

subsection \<open>The serving loop\<close>

text \<open>\<open>testGetWebs\<close>: the random domain first, then the others; \<open>testDial\<close> answers per domain.\<close>

definition testDomains :: "string list" where
  "testDomains = [''www.microsoft.com'', ''twitter.com'', ''www.google.com'', ''www.facebook.com'', ''www.apple.com'']"

fun test_others :: "(string \<Rightarrow> bool) \<Rightarrow> nat \<Rightarrow> nat \<Rightarrow> string list \<Rightarrow> bool" where
  "test_others testDial randIdx i [] = False"
| "test_others testDial randIdx i (d # ds) =
     (if i \<noteq> randIdx \<and> testDial d then True else test_others testDial randIdx (Suc i) ds)"

definition testGetWebs :: "(string \<Rightarrow> bool) \<Rightarrow> nat \<Rightarrow> bool" where
  "testGetWebs testDial rnd =
     (let randIdx = rnd mod length testDomains in
      if testDial (testDomains ! randIdx) then True else test_others testDial randIdx 0 testDomains)"

text \<open>
  The manager as the serving loop and the dialling goroutines share it. \<open>sm_closed\<close> are the
  clients the loop has closed. The assignment of \<open>connIsValid\<close>, the test behind it and the failed
  dials, which clear it, are separate steps: there is no lock.
\<close>

datatype mgr_pc = Looping | Assigning bool | Testing | Connecting | Sleeping | Stopped

record 'k ssh_mgr =
  sm_sshClient :: "'k option"
  sm_connIsValid :: bool
  sm_lastCheckUrlTime :: int
  sm_closed :: "'k set"
  sm_pc :: mgr_pc

definition checkSSHState :: "('k \<Rightarrow> bool) \<Rightarrow> 'k ssh_mgr \<Rightarrow> bool" where
  "checkSSHState ping sm = (case sm_sshClient sm of Some k \<Rightarrow> ping k | None \<Rightarrow> False)"

definition serverIsOK :: "('k \<Rightarrow> bool) \<Rightarrow> int \<Rightarrow> bool \<Rightarrow> 'k ssh_mgr \<Rightarrow> 'k ssh_mgr \<times> bool" where
  "serverIsOK ping now webs sm =
     (if sm_connIsValid sm then (sm, True)
      else if \<not> checkSSHState ping sm then (sm, False)
      else if now - sm_lastCheckUrlTime sm < 10 then (sm, True)
      else (sm\<lparr>sm_lastCheckUrlTime := now\<rparr>, webs))"

inductive mgr_step :: "'k ssh_mgr \<Rightarrow> 'k ssh_mgr \<Rightarrow> bool" where
  check: "sm_pc sm = Looping \<Longrightarrow> serverIsOK ping now webs sm = (sm', ok) \<Longrightarrow>
    mgr_step sm (sm'\<lparr>sm_pc := Assigning ok\<rparr>)"
| assign: "sm_pc sm = Assigning ok \<Longrightarrow>
    mgr_step sm (sm\<lparr>sm_connIsValid := ok, sm_pc := Testing\<rparr>)"
| valid: "sm_pc sm = Testing \<Longrightarrow> sm_connIsValid sm \<Longrightarrow>
    mgr_step sm (sm\<lparr>sm_pc := Sleeping\<rparr>)"
| invalid: "sm_pc sm = Testing \<Longrightarrow> \<not> sm_connIsValid sm \<Longrightarrow>
    mgr_step sm (sm\<lparr>sm_closed := sm_closed sm \<union> set_option (sm_sshClient sm), sm_pc := Connecting\<rparr>)"
| connected: "sm_pc sm = Connecting \<Longrightarrow> set_option r \<inter> sm_closed sm = {} \<Longrightarrow>
    mgr_step sm (sm\<lparr>sm_sshClient := r, sm_pc := Sleeping\<rparr>)"
| terminated: "sm_pc sm = Connecting \<Longrightarrow> mgr_step sm (sm\<lparr>sm_pc := Stopped\<rparr>)"
| awake: "sm_pc sm = Sleeping \<Longrightarrow> mgr_step sm (sm\<lparr>sm_pc := Looping\<rparr>)"
| stop: "sm_pc sm = Sleeping \<Longrightarrow> mgr_step sm (sm\<lparr>sm_pc := Stopped\<rparr>)"
| dial_fails: "sm_sshClient sm = Some k \<Longrightarrow> mgr_step sm (sm\<lparr>sm_connIsValid := False\<rparr>)"

definition mgr_start :: "int \<Rightarrow> 'k ssh_mgr" where
  "mgr_start now = \<lparr>sm_sshClient = None, sm_connIsValid = False, sm_lastCheckUrlTime = now,
     sm_closed = {}, sm_pc = Looping\<rparr>"

text \<open>The client in use is open except between closing it and replacing it.\<close>

definition mgr_inv :: "'k ssh_mgr \<Rightarrow> bool" where
  "mgr_inv sm \<longleftrightarrow>
     ((sm_connIsValid sm \<or> sm_pc sm = Assigning True) \<longrightarrow> sm_sshClient sm \<noteq> None) \<and>
     (sm_pc sm \<in> {Connecting, Stopped} \<or> set_option (sm_sshClient sm) \<inter> sm_closed sm = {}) \<and>
     (sm_connIsValid sm \<longrightarrow> sm_pc sm \<noteq> Connecting \<and> set_option (sm_sshClient sm) \<inter> sm_closed sm = {})"

subsection \<open>Lemmas\<close>

lemma mgr_step_inv:
  assumes "mgr_inv sm" and "mgr_step sm sm'"
  shows "mgr_inv sm'"
  using assms(2,1)
  by cases (auto simp: mgr_inv_def serverIsOK_def checkSSHState_def split: if_splits option.splits)

interpretation mgr: step_system mgr_step mgr_inv
  by unfold_locales (fact mgr_step_inv)

lemma mgr_start_inv: "mgr_inv (mgr_start now)"
  by (simp add: mgr_inv_def mgr_start_def)

text \<open>
  A dialer that has failed \<open>k\<close> times in a row, at the last time \<open>u\<close>. A further dial at \<open>t\<close> shows that
  the waiting time does not overflow.
\<close>

definition failed :: "nat \<Rightarrow> int \<Rightarrow> SSHDialer \<Rightarrow> bool" where
  "failed k u sd \<longleftrightarrow> sd_lastestConnectTime sd = u \<and> sd_waitSeconds sd = 5 * 2 ^ k \<and> 0 < u \<and> u < 2 ^ 62"

lemma newClient_early: "\<not> may_dial sd t \<Longrightarrow> newClient t r sd = (sd, Ok None)"
  by (simp add: newClient_def)

lemma failed_step:
  assumes "failed k u sd" and "u \<le> t" and "t < 2 ^ 62"
  shows "may_dial sd t \<longleftrightarrow> u + 5 * 2 ^ k \<le> t"
    and "may_dial sd t \<Longrightarrow> failed (Suc k) t (fst (newClient t (Err e) sd))"
proof -
  have "i64 (t - u) = t - u" using assms by (intro i64_id) (auto simp: failed_def)
  then show m: "may_dial sd t \<longleftrightarrow> u + 5 * 2 ^ k \<le> t"
    using assms(1) by (auto simp: may_dial_def failed_def)
  show "failed (Suc k) t (fst (newClient t (Err e) sd))" if may: "may_dial sd t"
  proof -
    have "5 * 2 ^ k < (2 ^ 62 :: int)" using may m assms by (auto simp: failed_def)
    then have "i64 (5 * 2 ^ k * 2) = 5 * 2 ^ k * 2"
      by (intro i64_id) (simp_all add: order.trans [of _ "0 :: int"])
    with may assms show ?thesis by (auto simp: newClient_def failed_def Let_def)
  qed
qed

text \<open>\<open>spaced u k ts\<close>: the times \<open>ts\<close> follow \<open>u\<close>, the first after \<open>5 * 2 ^ k\<close> seconds, doubling.\<close>

fun spaced :: "int \<Rightarrow> nat \<Rightarrow> int list \<Rightarrow> bool" where
  "spaced u k [] = True"
| "spaced u k (t # ts) \<longleftrightarrow> u + 5 * 2 ^ k \<le> t \<and> spaced t (Suc k) ts"

lemma failing_dials_spaced:
  assumes "failed k u sd" and "sorted (u # ts)" and "\<forall>t \<in> set ts. t < 2 ^ 62"
  shows "spaced u k (failing_dials e ts sd)"
  using assms
proof (induction ts arbitrary: k u sd)
  case (Cons t ts)
  then have ut: "u \<le> t" "t < 2 ^ 62" and st: "sorted (t # ts)" "sorted (u # ts)" by auto
  note f = failed_step [OF Cons.prems(1) ut]
  show ?case
  proof (cases "may_dial sd t")
    case True
    with f(1) Cons.IH [OF f(2) [OF True] st(1)] Cons.prems(3) show ?thesis by (simp add: Let_def)
  next
    case False
    with Cons.IH [OF Cons.prems(1) st(2)] Cons.prems(3) show ?thesis by (simp add: Let_def newClient_early)
  qed
qed simp

lemma spaced_total: "spaced u k ts \<Longrightarrow> u + 5 * 2 ^ k * (2 ^ length ts - 1) \<le> last (u # ts)"
proof (induction ts arbitrary: u k)
  case (Cons t ts)
  have "t + 5 * 2 ^ Suc k * (2 ^ length ts - 1) \<le> last (t # ts)"
    by (rule Cons.IH) (use Cons.prems in simp)
  moreover have "u + 5 * 2 ^ k \<le> t" using Cons.prems by simp
  ultimately show ?case by (simp add: algebra_simps)
qed simp

lemma first_dial:
  assumes "0 < t" and "t < 2 ^ 62"
  shows "may_dial \<lparr>sd_waitSeconds = 0, sd_lastestConnectTime = 0\<rparr> t"
    and "failed 0 t (fst (newClient t (Err e) \<lparr>sd_waitSeconds = 0, sd_lastestConnectTime = 0\<rparr>))"
  using assms by (simp_all add: may_dial_def newClient_def failed_def Let_def)

lemma try_all_first:
  "try_all attempt i as =
     (case find (\<lambda>j. \<not> (\<exists>e. attempt (i + j) (as ! j) = Err e)) [0..<length as] of
        None \<Rightarrow> Ok None
      | Some j \<Rightarrow> obind (attempt (i + j) (as ! j)) (\<lambda>c. Ok (Some c)))"
proof (induction as arbitrary: i)
  case (Cons a as)
  have up: "[0..<Suc (length as)] = 0 # map Suc [0..<length as]"
    by (simp only: upt_conv_Cons map_Suc_upt zero_less_Suc)
  have sh: "find P (map Suc xs) = map_option Suc (find (P \<circ> Suc) xs)" for P and xs :: "nat list"
    by (induction xs) auto
  show ?case
    by (cases "attempt i a") (simp_all add: up sh Cons [of "Suc i"] o_def del: upt_Suc split: option.splits)
qed simp

text \<open>A configuration made from a host accepts every host key or exactly one, if its host key decodes to bytes.\<close>

lemma HostMapToSSHConfig_check:
  assumes "SSHClientConfig parse signer keyData (HostMapToSSHConfig hstr hint) = Ok (user, sg, check)"
  shows "(hstr ''hostkey'' = [] \<longrightarrow> check = (\<lambda>key. True)) \<and>
    (\<forall>h. b64_decode (hstr ''hostkey'') = Ok h \<and> h \<noteq> [] \<longrightarrow> check = (\<lambda>key. key = h))"
proof -
  let ?p = "HostMapToSSHConfig hstr hint"
  have p: "sc_HostKey ?p = hstr ''hostkey''" "sc_VerifyHostKey ?p \<longleftrightarrow> hstr ''hostkey'' \<noteq> []"
    by (simp_all add: HostMapToSSHConfig_def)
  obtain h where h: "b64_decode (hstr ''hostkey'') = Ok h" "check = HostKeyCallback (Some h) (sc_VerifyHostKey ?p)"
    using assms unfolding SSHClientConfig_def p(1) by (auto simp: Let_def obind_eq_Ok)
  show ?thesis
  proof (cases "hstr ''hostkey'' = []")
    case True
    then have "h = []" using h(1) b64_decode_encode [of "[]"] by simp
    with True h(2) p(2) b64_decode_encode [of "[]"] show ?thesis by (simp add: HostKeyCallback_def testEq_def fun_eq_iff)
  next
    case False
    have "check = (\<lambda>key. key = h)" if "h \<noteq> []"
      using h(2) p(2) False that by (auto simp: HostKeyCallback_def testEq_def list.rel_eq fun_eq_iff)
    with False h(1) show ?thesis by simp
  qed
qed

lemma obind_unwrap: "obind (obind r (\<lambda>c. Ok (Some c))) (case_option f Ok) = r"
  by (cases r) simp_all

lemma test_others_iff:
  "test_others testDial r i ds \<longleftrightarrow> (\<exists>j < length ds. i + j \<noteq> r \<and> testDial (ds ! j))"
proof (induction ds arbitrary: i)
  case (Cons d ds)
  then show ?case by (auto simp: less_Suc_eq_0_disj)
qed simp

subsection \<open>Properties\<close>

text \<open>
  C24: A server that cannot be reached is not flooded: called at any ascending times, a new dialer
  whose dials all fail dials at the first call, and leaves at least 5, 10, 20, ... seconds between
  its dials; \<open>k\<close> dials take at least \<open>5 (2\<^sup>k\<^sup>-\<^sup>1 - 1)\<close> seconds. The 64-bit waiting time does not
  overflow within the range of times.
\<close>

theorem newClient_backoff:
  assumes "sorted (t # ts)" and "0 < t" and "\<forall>u \<in> set (t # ts). u < 2 ^ 62"
  shows "\<exists>ds. failing_dials e (t # ts) \<lparr>sd_waitSeconds = 0, sd_lastestConnectTime = 0\<rparr> = t # ds \<and>
              spaced t 0 ds \<and> 5 * (2 ^ length ds - 1) \<le> last (t # ds) - t"
proof -
  let ?sd = "\<lparr>sd_waitSeconds = 0, sd_lastestConnectTime = 0\<rparr>"
  let ?ds = "failing_dials e ts (fst (newClient t (Err e :: unit outcome) ?sd))"
  have t: "t < 2 ^ 62" using assms(3) by simp
  have "spaced t 0 ?ds"
    using failing_dials_spaced [OF first_dial(2) [OF assms(2) t] assms(1)] assms(3) by simp
  with spaced_total [OF this] first_dial(1) [OF assms(2) t] show ?thesis by (simp add: Let_def)
qed

theorem newClient_backoff_witness:
  "\<exists>ds. failing_dials (Sentinel ''refused'') [100, 102, 104, 106, 116] \<lparr>sd_waitSeconds = 0, sd_lastestConnectTime = 0\<rparr>
      = 100 # ds \<and> spaced 100 0 ds \<and> 5 * (2 ^ length ds - 1) \<le> last (100 # ds) - 100"
  using newClient_backoff [of 100 "[102, 104, 106, 116]"] by simp

text \<open>
  Whatever the serving loop and the dialling goroutines interleave, a manager whose connection
  counts as valid has a client, and one that the loop has not closed.
\<close>

theorem ssh_mgr_valid_client:
  assumes "mgr_step\<^sup>*\<^sup>* (mgr_start now) sm" and "sm_connIsValid sm"
  shows "\<exists>k. sm_sshClient sm = Some k \<and> k \<notin> sm_closed sm"
  using mgr.run_inv [OF assms(1) mgr_start_inv] assms(2) by (auto simp: mgr_inv_def)

theorem ssh_mgr_valid_client_witness:
  "\<exists>k. sm_sshClient \<lparr>sm_sshClient = Some (1 :: nat), sm_connIsValid = True, sm_lastCheckUrlTime = 0,
          sm_closed = {}, sm_pc = Testing\<rparr> = Some k \<and> k \<notin> {}"
proof -
  let ?m = "\<lambda>c v p. \<lparr>sm_sshClient = c, sm_connIsValid = v, sm_lastCheckUrlTime = 0, sm_closed = {}, sm_pc = p\<rparr> :: nat ssh_mgr"
  have "mgr_step (?m None False Looping) (?m None False (Assigning False))"
    using mgr_step.check [of "?m None False Looping" "\<lambda>k. True" 0 True "?m None False Looping" False]
    by (simp add: serverIsOK_def checkSSHState_def)
  moreover have "mgr_step (?m None False (Assigning False)) (?m None False Testing)"
    using mgr_step.assign [of "?m None False (Assigning False)" False] by simp
  moreover have "mgr_step (?m None False Testing) (?m None False Connecting)"
    using mgr_step.invalid [of "?m None False Testing"] by simp
  moreover have "mgr_step (?m None False Connecting) (?m (Some 1) False Sleeping)"
    using mgr_step.connected [of "?m None False Connecting" "Some 1"] by simp
  moreover have "mgr_step (?m (Some 1) False Sleeping) (?m (Some 1) False Looping)"
    using mgr_step.awake [of "?m (Some 1) False Sleeping"] by simp
  moreover have "mgr_step (?m (Some 1) False Looping) (?m (Some 1) False (Assigning True))"
    using mgr_step.check [of "?m (Some 1) False Looping" "\<lambda>k. True" 2 True "?m (Some 1) False Looping" True]
    by (simp add: serverIsOK_def checkSSHState_def)
  moreover have "mgr_step (?m (Some 1) False (Assigning True)) (?m (Some 1) True Testing)"
    using mgr_step.assign [of "?m (Some 1) False (Assigning True)" True] by simp
  ultimately have "mgr_step\<^sup>*\<^sup>* (mgr_start 0) (?m (Some 1) True Testing)"
    unfolding mgr_start_def by (meson converse_rtranclp_into_rtranclp rtranclp.rtrancl_refl)
  from ssh_mgr_valid_client [OF this] show ?thesis by simp
qed

text \<open>
  C33: A configuration with a host key pins it: the check accepts that key and no other, whether or
  not verification is asked for. Without a host key every key is accepted, unless verification is
  asked for, and then none is.
\<close>

theorem host_key_pinned:
  assumes "SSHClientConfig parse signer keyData p = Ok (user, sg, check)"
  shows "\<exists>h. b64_decode (sc_HostKey p) = Ok h \<and>
             check = (\<lambda>key. if h = [] then \<not> sc_VerifyHostKey p else key = h)"
proof -
  obtain h where h: "b64_decode (sc_HostKey p) = Ok h"
    and c: "check = HostKeyCallback (Some h) (sc_VerifyHostKey p)"
    using assms by (auto simp: SSHClientConfig_def Let_def outcome_simps)
  have "list_all2 (=) key h \<longleftrightarrow> key = h" for key by (simp add: list.rel_eq)
  then have "check = (\<lambda>key. if h = [] then \<not> sc_VerifyHostKey p else key = h)"
    unfolding c by (auto simp: HostKeyCallback_def testEq_def fun_eq_iff)
  with h show ?thesis by blast
qed

theorem host_key_pinned_witness:
  "\<exists>h. b64_decode (b64_encode [1, 2, 3]) = Ok h \<and>
     HostKeyCallback (Some [1, 2, 3]) False = (\<lambda>key. if h = [] then \<not> False else key = h)"
proof -
  let ?p = "\<lparr>sc_Host = ''h'', sc_Port = 22, sc_UserName = [], sc_KeyPath = [], sc_ProxyAddrs = [],
    sc_HostKey = b64_encode [1, 2, 3], sc_Timeout = 0, sc_VerifyHostKey = False\<rparr>"
  have "SSHClientConfig Ok Ok (Ok [9]) ?p = Ok (''jumpbox'', [9], HostKeyCallback (Some [1, 2, 3]) False)"
    by (simp add: SSHClientConfig_def Let_def del: b64_encode.simps)
  from host_key_pinned [OF this] show ?thesis by (simp del: b64_encode.simps)
qed

text \<open>
  \<open>DialSSH\<close> tries every proxy three times in the order given, and ends with the first attempt
  that does not fail; if all fail, so does it.
\<close>

theorem DialSSH_first:
  "DialSSH attempt addr p =
     (let as = concat (replicate 3 (Split (CHR '';'') (sc_ProxyAddrs p))) in
      case find (\<lambda>j. \<not> (\<exists>e. attempt j (as ! j) = Err e)) [0..<length as] of
        Some j \<Rightarrow> attempt j (as ! j)
      | None \<Rightarrow> Err (Errorf ''connect to %v failed'' [AStr addr]))"
proof -
  have "Split (CHR '';'') s \<noteq> []" for s by (induction s) (auto split: list.splits)
  then show ?thesis
    by (simp add: DialSSH_def Let_def try_all_first [of attempt 0, simplified] obind_unwrap split: option.splits)
qed

end
