(* ===== verification/Ssh_Connect.thy ===== *)
theory Ssh_Connect
  imports Step_Systems Go_Prelude "HOL-Library.Multiset"
begin

text \<open>
  \<open>SSHDialersMgr.connetToSSH\<close> of \<^verbatim>\<open>sshutil/sshmgr.go\<close>: one call with the goroutines it starts, as a
  step relation over the channels they share. Every operation on a channel is a step; a send
  blocks while the buffer is full, a receive while it is empty.

  \<open>'d\<close> are the dialers, \<open>'c\<close> the clients. What a dialer's \<open>newClient\<close> returns is any client or
  none. \<open>cn_held\<close> are the dialers that goroutines of earlier calls, left after a time-out, have
  not yet put back. \<open>cn_made\<close> collects the clients the dialers returned; no rule looks at it.
\<close>

subsection \<open>The goroutines\<close>

datatype ('d, 'c) dial_go = Dialing 'd | Sending 'd "'c option" | Returning 'd

datatype collector = NotStarted | Collecting nat bool | Collected

datatype 'c main_pc = Popping | Selecting | Returned "'c option" bool

record ('d, 'c) connect =
  cn_sshDialers :: "'d list"
  cn_held :: "'d multiset"
  cn_gos :: "('d, 'c) dial_go multiset"
  cn_dialers :: nat
  cn_sshClients :: "'c option list"
  cn_collector :: collector
  cn_sshClient :: "'c option list"
  cn_closed :: "'c multiset"
  cn_main :: "'c main_pc"
  cn_made :: "'c multiset"

text \<open>The start of a call: some dialers are in the channel, others are held by earlier calls.\<close>

definition connect_start :: "'d list \<Rightarrow> 'd multiset \<Rightarrow> ('d, 'c) connect" where
  "connect_start pool held =
     \<lparr>cn_sshDialers = pool, cn_held = held, cn_gos = {#}, cn_dialers = 0, cn_sshClients = [],
      cn_collector = NotStarted, cn_sshClient = [], cn_closed = {#}, cn_main = Popping, cn_made = {#}\<rparr>"

text \<open>\<open>popSSHDialer\<close>: the next dialer of the channel, if there is one.\<close>

definition popSSHDialer :: "'d list \<Rightarrow> 'd option \<times> 'd list" where
  "popSSHDialer sshDialers = (case sshDialers of [] \<Rightarrow> (None, []) | d # ds \<Rightarrow> (Some d, ds))"

lemma popSSHDialer_eq [simp]:
  "popSSHDialer ch = (Some d, ds) \<longleftrightarrow> ch = d # ds"
  "popSSHDialer ch = (None, ds) \<longleftrightarrow> ch = [] \<and> ds = []"
  by (auto simp: popSSHDialer_def split: list.splits)

text \<open>
  The rules, for channels of capacity \<open>n\<close>. \<open>pop\<close> and \<open>pop_empty\<close> are the loop over \<open>popSSHDialer\<close>,
  which starts a goroutine per dialer and then the collector; \<open>dial\<close>, \<open>send\<close> and \<open>put\<close> are such a
  goroutine; \<open>first\<close>, \<open>surplus\<close>, \<open>failure\<close>, \<open>none\<close> and \<open>over\<close> the collector; \<open>result\<close>, \<open>timeout\<close> and
  \<open>cancel\<close> the final \<open>select\<close>; \<open>late\<close> is a goroutine of an earlier call.
\<close>

inductive connect_step :: "nat \<Rightarrow> ('d, 'c) connect \<Rightarrow> ('d, 'c) connect \<Rightarrow> bool" for n where
  pop: "cn_main s = Popping \<Longrightarrow> popSSHDialer (cn_sshDialers s) = (Some d, ds) \<Longrightarrow>
    connect_step n s (s\<lparr>cn_sshDialers := ds, cn_dialers := Suc (cn_dialers s),
      cn_gos := add_mset (Dialing d) (cn_gos s)\<rparr>)"
| pop_empty: "cn_main s = Popping \<Longrightarrow> popSSHDialer (cn_sshDialers s) = (None, []) \<Longrightarrow>
    connect_step n s (s\<lparr>cn_main := Selecting, cn_collector := Collecting (cn_dialers s) False\<rparr>)"
| dial: "cn_gos s = add_mset (Dialing d) G \<Longrightarrow>
    connect_step n s (s\<lparr>cn_gos := add_mset (Sending d r) G, cn_made := cn_made s + mset_set (set_option r)\<rparr>)"
| send: "cn_gos s = add_mset (Sending d r) G \<Longrightarrow> length (cn_sshClients s) < n \<Longrightarrow>
    connect_step n s (s\<lparr>cn_gos := add_mset (Returning d) G, cn_sshClients := cn_sshClients s @ [r]\<rparr>)"
| put: "cn_gos s = add_mset (Returning d) G \<Longrightarrow> length (cn_sshDialers s) < n \<Longrightarrow>
    connect_step n s (s\<lparr>cn_gos := G, cn_sshDialers := cn_sshDialers s @ [d]\<rparr>)"
| late: "cn_held s = add_mset d H \<Longrightarrow> length (cn_sshDialers s) < n \<Longrightarrow>
    connect_step n s (s\<lparr>cn_held := H, cn_sshDialers := cn_sshDialers s @ [d]\<rparr>)"
| first: "cn_collector s = Collecting (Suc i) False \<Longrightarrow> cn_sshClients s = Some c # rs \<Longrightarrow> cn_sshClient s = [] \<Longrightarrow>
    connect_step n s (s\<lparr>cn_sshClients := rs, cn_sshClient := [Some c], cn_collector := Collecting i True\<rparr>)"
| surplus: "cn_collector s = Collecting (Suc i) True \<Longrightarrow> cn_sshClients s = Some c # rs \<Longrightarrow>
    connect_step n s (s\<lparr>cn_sshClients := rs, cn_closed := add_mset c (cn_closed s), cn_collector := Collecting i True\<rparr>)"
| failure: "cn_collector s = Collecting (Suc i) haveGet \<Longrightarrow> cn_sshClients s = None # rs \<Longrightarrow>
    connect_step n s (s\<lparr>cn_sshClients := rs, cn_collector := Collecting i haveGet\<rparr>)"
| none: "cn_collector s = Collecting 0 False \<Longrightarrow> cn_sshClient s = [] \<Longrightarrow>
    connect_step n s (s\<lparr>cn_sshClient := [None], cn_collector := Collected\<rparr>)"
| over: "cn_collector s = Collecting 0 True \<Longrightarrow>
    connect_step n s (s\<lparr>cn_collector := Collected\<rparr>)"
| result: "cn_main s = Selecting \<Longrightarrow> cn_sshClient s = r # rs \<Longrightarrow>
    connect_step n s (s\<lparr>cn_sshClient := rs, cn_main := Returned r False\<rparr>)"
| timeout: "cn_main s = Selecting \<Longrightarrow>
    connect_step n s (s\<lparr>cn_main := Returned None False\<rparr>)"
| cancel: "cn_main s = Selecting \<Longrightarrow>
    connect_step n s (s\<lparr>cn_main := Returned None True\<rparr>)"

inductive_cases connect_stepE: "connect_step n s t"

subsection \<open>The invariant\<close>

fun go_dialer :: "('d, 'c) dial_go \<Rightarrow> 'd" where
  "go_dialer (Dialing d) = d"
| "go_dialer (Sending d r) = d"
| "go_dialer (Returning d) = d"

text \<open>Results a goroutine still owes, and the client it is about to send.\<close>

fun go_owes :: "('d, 'c) dial_go \<Rightarrow> nat" where
  "go_owes (Returning d) = 0"
| "go_owes _ = 1"

fun go_client :: "('d, 'c) dial_go \<Rightarrow> 'c multiset" where
  "go_client (Sending d r) = mset_set (set_option r)"
| "go_client _ = {#}"

definition sum_ms :: "('a \<Rightarrow> 'b::comm_monoid_add) \<Rightarrow> 'a multiset \<Rightarrow> 'b" where
  "sum_ms f M = sum_mset (image_mset f M)"

lemma sum_ms_simps [simp]:
  "sum_ms f {#} = 0"
  "sum_ms f (add_mset x M) = f x + sum_ms f M"
  by (simp_all add: sum_ms_def)

definition due :: "('d, 'c) connect \<Rightarrow> nat" where
  "due s = (case cn_collector s of NotStarted \<Rightarrow> cn_dialers s | Collecting i h \<Rightarrow> i | Collected \<Rightarrow> 0)"

definition some_clients :: "'c option list \<Rightarrow> 'c multiset" where
  "some_clients rs = mset (concat (map (\<lambda>r. case r of None \<Rightarrow> [] | Some c \<Rightarrow> [c]) rs))"

fun returned :: "'c main_pc \<Rightarrow> 'c multiset" where
  "returned (Returned r b) = mset_set (set_option r)"
| "returned _ = {#}"

text \<open>The clients the caller has or can still get.\<close>

definition delivered :: "('d, 'c) connect \<Rightarrow> 'c multiset" where
  "delivered s = some_clients (cn_sshClient s) + returned (cn_main s)"

definition delivered_ok :: "('d, 'c) connect \<Rightarrow> bool" where
  "delivered_ok s \<longleftrightarrow> length (cn_sshClient s) \<le> 1 \<and>
     (case cn_collector s of
        Collecting i True \<Rightarrow> size (delivered s) = 1
      | Collected \<Rightarrow> size (delivered s) = 1 \<or> (delivered s = {#} \<and> cn_closed s = {#})
      | _ \<Rightarrow> cn_sshClient s = [] \<and> returned (cn_main s) = {#} \<and> cn_closed s = {#})"

text \<open>
  The dialers are in the channel, with a goroutine or held by an earlier call; the results sent
  and still to be sent are the ones the collector waits for; every client is somewhere; the
  channel to the caller is used once.
\<close>

definition connect_inv :: "nat \<Rightarrow> 'd multiset \<Rightarrow> ('d, 'c) connect \<Rightarrow> bool" where
  "connect_inv n D s \<longleftrightarrow>
     mset (cn_sshDialers s) + image_mset go_dialer (cn_gos s) + cn_held s = D \<and> size D \<le> n \<and>
     length (cn_sshClients s) \<le> n \<and>
     due s = sum_ms go_owes (cn_gos s) + length (cn_sshClients s) \<and>
     cn_dialers s \<le> size D + n \<and>
     (cn_main s = Popping) = (cn_collector s = NotStarted) \<and>
     cn_made s = sum_ms go_client (cn_gos s) + some_clients (cn_sshClients s) + delivered s + cn_closed s \<and>
     delivered_ok s"

fun go_weight :: "('d, 'c) dial_go \<Rightarrow> nat" where
  "go_weight (Dialing d) = 4"
| "go_weight (Sending d r) = 3"
| "go_weight (Returning d) = 1"

fun main_weight :: "'c main_pc \<Rightarrow> nat" where
  "main_weight Popping = 3"
| "main_weight Selecting = 1"
| "main_weight (Returned r b) = 0"

fun collector_weight :: "collector \<Rightarrow> nat" where
  "collector_weight NotStarted = 2"
| "collector_weight (Collecting i h) = 1"
| "collector_weight Collected = 0"

definition connect_weight :: "nat \<Rightarrow> 'd multiset \<Rightarrow> ('d, 'c) connect \<Rightarrow> nat" where
  "connect_weight n D s =
     5 * (size D + n - cn_dialers s) + sum_ms go_weight (cn_gos s) + length (cn_sshClients s)
     + size (cn_held s) + main_weight (cn_main s) + collector_weight (cn_collector s)"

text \<open>A call that is over, with everything it started.\<close>

definition connect_done :: "'d multiset \<Rightarrow> ('d, 'c) connect \<Rightarrow> bool" where
  "connect_done D s \<longleftrightarrow> (case cn_main s of Returned r b \<Rightarrow> True | _ \<Rightarrow> False) \<and> cn_collector s = Collected \<and>
     cn_gos s = {#} \<and> cn_held s = {#} \<and> cn_sshClients s = [] \<and> mset (cn_sshDialers s) = D"

subsection \<open>Steps keep the invariant and use up the weight\<close>

lemma some_clients_simps [simp]:
  "some_clients [] = {#}"
  "some_clients (r # rs) = mset_set (set_option r) + some_clients rs"
  "some_clients (rs @ ss) = some_clients rs + some_clients ss"
  by (auto simp: some_clients_def split: option.splits)

lemma sum_owes_le: "sum_ms go_owes G \<le> size G"
proof (induction G)
  case (add g G)
  then show ?case by (cases g) simp_all
qed simp

text \<open>While dialers are popped, the goroutines and the results sent bound their number.\<close>

lemma pops_bounded:
  assumes "connect_inv n D s" and "cn_main s = Popping"
  shows "cn_dialers s + length (cn_sshDialers s) \<le> size D + n"
proof -
  have "size D = length (cn_sshDialers s) + size (cn_gos s) + size (cn_held s)"
    using assms(1) by (auto simp: connect_inv_def)
  moreover have "cn_dialers s = sum_ms go_owes (cn_gos s) + length (cn_sshClients s)"
    using assms by (auto simp: connect_inv_def due_def)
  moreover have "length (cn_sshClients s) \<le> n" using assms(1) by (simp add: connect_inv_def)
  ultimately show ?thesis using sum_owes_le [of "cn_gos s"] by linarith
qed

lemmas connect_inv_defs = connect_inv_def due_def delivered_def delivered_ok_def

lemma connect_step_inv:
  assumes "connect_inv n D s" and "connect_step n s t"
  shows "connect_inv n D t"
  using assms(2)
proof cases
  case (pop d ds)
  then show ?thesis using assms(1) pops_bounded [OF assms(1)]
    by (auto simp: connect_inv_defs split: collector.splits)
qed (use assms(1) in \<open>auto simp: connect_inv_defs add_ac split: collector.splits bool.splits\<close>)

lemma connect_step_weight:
  assumes "connect_inv n D s" and "connect_step n s t"
  shows "connect_weight n D t < connect_weight n D s"
  using assms(2)
proof cases
  case (pop d ds)
  then show ?thesis using pops_bounded [OF assms(1)] by (simp add: connect_weight_def)
qed (simp_all add: connect_weight_def)

interpretation connect: terminating_system "connect_step n" "connect_inv n D" "connect_weight n D" for n D
  by unfold_locales (fact connect_step_inv, fact connect_step_weight)

subsection \<open>Progress\<close>

lemma connect_pool_room:
  assumes "connect_inv n D s" and "cn_gos s = add_mset g G \<or> cn_held s = add_mset d H"
  shows "length (cn_sshDialers s) < n"
proof -
  have "size D = length (cn_sshDialers s) + size (cn_gos s) + size (cn_held s)" and "size D \<le> n"
    using assms(1) by (auto simp: connect_inv_def)
  moreover have "0 < size (cn_gos s) + size (cn_held s)" using assms(2) by auto
  ultimately show ?thesis by linarith
qed

text \<open>The collector takes the next result as long as there is one.\<close>

lemma connect_collects:
  assumes "connect_inv n D s" and "cn_main s \<noteq> Popping" and "cn_sshClients s \<noteq> []"
  shows "\<exists>t. connect_step n s t"
proof -
  obtain r rs where rs: "cn_sshClients s = r # rs" using assms(3) by (cases "cn_sshClients s") auto
  obtain i h where c: "cn_collector s = Collecting (Suc i) h"
  proof (cases "cn_collector s")
    case (Collecting j h)
    with assms(1) rs have "j = Suc (sum_ms go_owes (cn_gos s) + length rs)"
      by (simp add: connect_inv_def due_def)
    with Collecting that show ?thesis by blast
  qed (use assms rs in \<open>auto simp: connect_inv_def due_def\<close>)
  show ?thesis
  proof (cases r)
    case None
    with rs have "cn_sshClients s = None # rs" by simp
    from connect_step.failure [OF c this] show ?thesis by blast
  next
    case (Some x)
    with rs have x: "cn_sshClients s = Some x # rs" by simp
    show ?thesis
    proof (cases h)
      case True
      with c have "cn_collector s = Collecting (Suc i) True" by simp
      from connect_step.surplus [OF this x] show ?thesis by blast
    next
      case False
      with c have "cn_collector s = Collecting (Suc i) False" by simp
      moreover from this have "cn_sshClient s = []" using assms(1) by (simp add: connect_inv_defs)
      ultimately show ?thesis using connect_step.first [OF _ x] by blast
    qed
  qed
qed

lemma connect_go_progress:
  assumes "connect_inv n D s" and "cn_main s \<noteq> Popping" and g: "cn_gos s = add_mset g G"
  shows "\<exists>t. connect_step n s t"
proof (cases "cn_sshClients s = []")
  case True
  have room: "length (cn_sshDialers s) < n" using connect_pool_room [OF assms(1)] g by blast
  with True have "length (cn_sshClients s) < n" by simp
  with g room show ?thesis by (cases g) (blast intro: connect_step.intros)+
qed (use connect_collects [OF assms(1,2)] in blast)

lemma connect_progress:
  assumes inv: "connect_inv n D s"
  shows "(\<exists>t. connect_step n s t) \<or> connect_done D s"
proof (cases "cn_main s")
  case Popping
  then have "popSSHDialer (cn_sshDialers s) = (None, []) \<Longrightarrow> \<exists>t. connect_step n s t"
    and "\<And>d ds. popSSHDialer (cn_sshDialers s) = (Some d, ds) \<Longrightarrow> \<exists>t. connect_step n s t"
    by (blast intro: connect_step.pop connect_step.pop_empty)+
  then show ?thesis by (cases "cn_sshDialers s") auto
next
  case Selecting
  then show ?thesis by (blast intro: connect_step.timeout)
next
  case (Returned r b)
  then have m: "cn_main s \<noteq> Popping" by simp
  show ?thesis
  proof (cases "cn_gos s = {#} \<and> cn_sshClients s = [] \<and> cn_held s = {#} \<and> cn_collector s = Collected")
    case True
    then have "mset (cn_sshDialers s) = D" using inv by (simp add: connect_inv_def)
    with True Returned show ?thesis by (auto simp: connect_done_def)
  next
    case False
    then consider (go) g G where "cn_gos s = add_mset g G" | (clients) "cn_sshClients s \<noteq> []"
      | (held) d H where "cn_held s = add_mset d H"
      | (coll) "cn_gos s = {#}" "cn_sshClients s = []" "cn_collector s \<noteq> Collected"
      using multiset_cases [of "cn_gos s"] multiset_cases [of "cn_held s"] by blast
    then show ?thesis
    proof cases
      case go
      then show ?thesis using connect_go_progress [OF inv m] by blast
    next
      case clients
      then show ?thesis using connect_collects [OF inv m] by blast
    next
      case held
      then show ?thesis using connect_pool_room [OF inv] by (blast intro: connect_step.late)
    next
      case coll
      then obtain h where "cn_collector s = Collecting 0 h"
        using inv m by (cases "cn_collector s") (auto simp: connect_inv_def due_def)
      then show ?thesis using inv
        by (cases h) (auto simp: connect_inv_defs intro: connect_step.none connect_step.over)
    qed
  qed
qed

lemma connect_start_inv:
  "length pool + size held \<le> n \<Longrightarrow> connect_inv n (mset pool + held) (connect_start pool held)"
  by (simp add: connect_inv_defs connect_start_def)

lemma connect_start_weight:
  assumes "length pool + size held \<le> n"
  shows "connect_weight n (mset pool + held) (connect_start pool held) \<le> 11 * n + 5"
  using assms by (simp add: connect_weight_def connect_start_def)

subsection \<open>Two runs\<close>

text \<open>
  A run in which the caller's 20 seconds pass before the only dialer succeeds: its client stays in
  the channel, neither returned nor closed.
\<close>

lemma connect_leak_run:
  "(connect_step 1 ^^ 8) (connect_start [0 :: nat] {#})
     (\<lparr>cn_sshDialers = [0], cn_held = {#}, cn_gos = {#}, cn_dialers = 1,
      cn_sshClients = [], cn_collector = Collected, cn_sshClient = [Some 7],
      cn_closed = {#}, cn_main = Returned None False, cn_made = {#7#}\<rparr> :: (nat, nat) connect)"
proof -
  let ?step = "connect_step 1 :: (nat, nat) connect \<Rightarrow> _"
  let ?s0 = "\<lparr>cn_sshDialers = [0], cn_held = {#}, cn_gos = {#}, cn_dialers = 0,
    cn_sshClients = [], cn_collector = NotStarted, cn_sshClient = [],
    cn_closed = {#}, cn_main = Popping, cn_made = {#}\<rparr> :: (nat, nat) connect"
  let ?s1 = "\<lparr>cn_sshDialers = [], cn_held = {#}, cn_gos = {#Dialing 0#}, cn_dialers = 1,
    cn_sshClients = [], cn_collector = NotStarted, cn_sshClient = [],
    cn_closed = {#}, cn_main = Popping, cn_made = {#}\<rparr> :: (nat, nat) connect"
  let ?s2 = "\<lparr>cn_sshDialers = [], cn_held = {#}, cn_gos = {#Dialing 0#}, cn_dialers = 1,
    cn_sshClients = [], cn_collector = Collecting 1 False, cn_sshClient = [],
    cn_closed = {#}, cn_main = Selecting, cn_made = {#}\<rparr> :: (nat, nat) connect"
  let ?s3 = "\<lparr>cn_sshDialers = [], cn_held = {#}, cn_gos = {#Sending 0 (Some 7)#}, cn_dialers = 1,
    cn_sshClients = [], cn_collector = Collecting 1 False, cn_sshClient = [],
    cn_closed = {#}, cn_main = Selecting, cn_made = {#7#}\<rparr> :: (nat, nat) connect"
  let ?s4 = "\<lparr>cn_sshDialers = [], cn_held = {#}, cn_gos = {#Sending 0 (Some 7)#}, cn_dialers = 1,
    cn_sshClients = [], cn_collector = Collecting 1 False, cn_sshClient = [],
    cn_closed = {#}, cn_main = Returned None False, cn_made = {#7#}\<rparr> :: (nat, nat) connect"
  let ?s5 = "\<lparr>cn_sshDialers = [], cn_held = {#}, cn_gos = {#Returning 0#}, cn_dialers = 1,
    cn_sshClients = [Some 7], cn_collector = Collecting 1 False, cn_sshClient = [],
    cn_closed = {#}, cn_main = Returned None False, cn_made = {#7#}\<rparr> :: (nat, nat) connect"
  let ?s6 = "\<lparr>cn_sshDialers = [0], cn_held = {#}, cn_gos = {#}, cn_dialers = 1,
    cn_sshClients = [Some 7], cn_collector = Collecting 1 False, cn_sshClient = [],
    cn_closed = {#}, cn_main = Returned None False, cn_made = {#7#}\<rparr> :: (nat, nat) connect"
  let ?s7 = "\<lparr>cn_sshDialers = [0], cn_held = {#}, cn_gos = {#}, cn_dialers = 1,
    cn_sshClients = [], cn_collector = Collecting 0 True, cn_sshClient = [Some 7],
    cn_closed = {#}, cn_main = Returned None False, cn_made = {#7#}\<rparr> :: (nat, nat) connect"
  let ?s8 = "\<lparr>cn_sshDialers = [0], cn_held = {#}, cn_gos = {#}, cn_dialers = 1,
    cn_sshClients = [], cn_collector = Collected, cn_sshClient = [Some 7],
    cn_closed = {#}, cn_main = Returned None False, cn_made = {#7#}\<rparr> :: (nat, nat) connect"
  have a: "?step ?s0 ?s1"
    using connect_step.pop [of ?s0 0 "[]" 1] by simp
  have b: "?step ?s1 ?s2"
    using connect_step.pop_empty [of ?s1 1] by simp
  have c: "?step ?s2 ?s3"
    using connect_step.dial [of ?s2 0 "{#}" 1 "Some 7"] by simp
  have d: "?step ?s3 ?s4"
    using connect_step.timeout [of ?s3 1] by simp
  have e: "?step ?s4 ?s5"
    using connect_step.send [of ?s4 0 "Some 7" "{#}" 1] by simp
  have f: "?step ?s5 ?s6"
    using connect_step.put [of ?s5 0 "{#}" 1] by simp
  have g: "?step ?s6 ?s7"
    using connect_step.first [of ?s6 0 7 "[]" 1] by simp
  have h: "?step ?s7 ?s8"
    using connect_step.over [of ?s7 1] by simp
  have "connect_start [0] {#} = ?s0" by (simp add: connect_start_def)
  then show ?thesis using a b c d e f g h by (auto simp: numeral_eq_Suc relpowp_commute simp del: relpowp.simps intro!: relpowp_Suc_I2 relpowp_0_I)
qed

text \<open>
  A run in which a dialer that fails at once is back in the channel before the loop over the
  dialers ends, and is dialled a second time in the same call.
\<close>

lemma connect_double_dial_run:
  "(connect_step 1 ^^ 5) (connect_start [0 :: nat] {#})
     (\<lparr>cn_sshDialers = [], cn_held = {#}, cn_gos = {#Dialing 0#}, cn_dialers = Suc (Suc 0),
      cn_sshClients = [None], cn_collector = NotStarted, cn_sshClient = [],
      cn_closed = {#}, cn_main = Popping, cn_made = {#}\<rparr> :: (nat, nat) connect)"
proof -
  let ?step = "connect_step 1 :: (nat, nat) connect \<Rightarrow> _"
  let ?s0 = "\<lparr>cn_sshDialers = [0], cn_held = {#}, cn_gos = {#}, cn_dialers = 0,
    cn_sshClients = [], cn_collector = NotStarted, cn_sshClient = [],
    cn_closed = {#}, cn_main = Popping, cn_made = {#}\<rparr> :: (nat, nat) connect"
  let ?s1 = "\<lparr>cn_sshDialers = [], cn_held = {#}, cn_gos = {#Dialing 0#}, cn_dialers = 1,
    cn_sshClients = [], cn_collector = NotStarted, cn_sshClient = [],
    cn_closed = {#}, cn_main = Popping, cn_made = {#}\<rparr> :: (nat, nat) connect"
  let ?s2 = "\<lparr>cn_sshDialers = [], cn_held = {#}, cn_gos = {#Sending 0 None#}, cn_dialers = 1,
    cn_sshClients = [], cn_collector = NotStarted, cn_sshClient = [],
    cn_closed = {#}, cn_main = Popping, cn_made = {#}\<rparr> :: (nat, nat) connect"
  let ?s3 = "\<lparr>cn_sshDialers = [], cn_held = {#}, cn_gos = {#Returning 0#}, cn_dialers = 1,
    cn_sshClients = [None], cn_collector = NotStarted, cn_sshClient = [],
    cn_closed = {#}, cn_main = Popping, cn_made = {#}\<rparr> :: (nat, nat) connect"
  let ?s4 = "\<lparr>cn_sshDialers = [0], cn_held = {#}, cn_gos = {#}, cn_dialers = 1,
    cn_sshClients = [None], cn_collector = NotStarted, cn_sshClient = [],
    cn_closed = {#}, cn_main = Popping, cn_made = {#}\<rparr> :: (nat, nat) connect"
  let ?s5 = "\<lparr>cn_sshDialers = [], cn_held = {#}, cn_gos = {#Dialing 0#}, cn_dialers = Suc (Suc 0),
    cn_sshClients = [None], cn_collector = NotStarted, cn_sshClient = [],
    cn_closed = {#}, cn_main = Popping, cn_made = {#}\<rparr> :: (nat, nat) connect"
  have a: "?step ?s0 ?s1"
    using connect_step.pop [of ?s0 0 "[]" 1] by simp
  have b: "?step ?s1 ?s2"
    using connect_step.dial [of ?s1 0 "{#}" 1 None] by simp
  have c: "?step ?s2 ?s3"
    using connect_step.send [of ?s2 0 None "{#}" 1] by simp
  have d: "?step ?s3 ?s4"
    using connect_step.put [of ?s3 0 "{#}" 1] by simp
  have e: "?step ?s4 ?s5"
    using connect_step.pop [of ?s4 0 "[]" 1] by simp
  have "connect_start [0] {#} = ?s0" by (simp add: connect_start_def)
  then show ?thesis using a b c d e by (auto simp: numeral_eq_Suc relpowp_commute simp del: relpowp.simps intro!: relpowp_Suc_I2 relpowp_0_I)
qed

subsection \<open>Properties\<close>

text \<open>
  C16: However the goroutines of a call are scheduled and whatever the dialers return, the call is
  over after a bounded number of channel operations: no run is longer than \<open>11 n + 5\<close> steps for
  \<open>n\<close> configured dialers, at most \<open>2 n\<close> dials are started, and a run can only stop when the call
  has returned, the collector and all dialling goroutines have ended and every dialer is back in
  the channel. Nothing deadlocks, also when goroutines of earlier calls still hold dialers.
\<close>

theorem connetToSSH_completes:
  assumes "length pool + size held \<le> n" and "(connect_step n ^^ k) (connect_start pool held) s"
  shows "k \<le> 11 * n + 5 \<and> cn_dialers s \<le> 2 * n \<and>
         ((\<exists>t. connect_step n s t) \<or> connect_done (mset pool + held) s)"
proof -
  note start = connect_start_inv [OF assms(1)]
  have "connect_inv n (mset pool + held) s"
    using connect.run_inv [OF relpowp_imp_rtranclp [OF assms(2)] start] .
  moreover from this have "cn_dialers s \<le> 2 * n" by (simp add: connect_inv_def)
  moreover have "k \<le> 11 * n + 5"
    by (rule order.trans [OF connect.run_bound [OF assms(2) start] connect_start_weight [OF assms(1)]])
  ultimately show ?thesis using connect_progress by blast
qed

theorem connetToSSH_completes_witness:
  "connect_done {#0#} (\<lparr>cn_sshDialers = [0], cn_held = {#}, cn_gos = {#}, cn_dialers = 1,
      cn_sshClients = [], cn_collector = Collected, cn_sshClient = [Some 7],
      cn_closed = {#}, cn_main = Returned None False, cn_made = {#7#}\<rparr> :: (nat, nat) connect)"
proof -
  have "\<not> connect_step 1 \<lparr>cn_sshDialers = [0], cn_held = {#}, cn_gos = {#}, cn_dialers = 1,
      cn_sshClients = [], cn_collector = Collected, cn_sshClient = [Some 7],
      cn_closed = {#}, cn_main = Returned None False, cn_made = {#7#}\<rparr> t" for t :: "(nat, nat) connect"
    by (auto elim: connect_stepE)
  then show ?thesis using connetToSSH_completes [OF _ connect_leak_run] by auto
qed

text \<open>
  C15: Of all the clients the dialers of a call return, exactly one stays open, if there is any: when
  the call is over, every other one has been closed. The open one was returned to the caller, or
  it is still in the channel, which happens only to a call that returned no client.
\<close>

theorem connetToSSH_one_client:
  assumes "length pool + size held \<le> n" and "(connect_step n)\<^sup>*\<^sup>* (connect_start pool held) s"
    and "connect_done (mset pool + held) s"
  shows "cn_made s = cn_closed s + some_clients (cn_sshClient s) + returned (cn_main s) \<and>
         size (some_clients (cn_sshClient s) + returned (cn_main s)) = (if cn_made s = {#} then 0 else 1)"
proof -
  have "connect_inv n (mset pool + held) s"
    using connect.run_inv [OF assms(2) connect_start_inv [OF assms(1)]] .
  then show ?thesis using assms(3)
    by (auto simp: connect_inv_defs connect_done_def)
qed

theorem connetToSSH_one_client_witness:
  "size (some_clients [Some (7 :: nat)] + returned (Returned None False)) = 1"
proof -
  let ?s = "\<lparr>cn_sshDialers = [0], cn_held = {#}, cn_gos = {#}, cn_dialers = 1,
      cn_sshClients = [], cn_collector = Collected, cn_sshClient = [Some 7],
      cn_closed = {#}, cn_main = Returned None False, cn_made = {#7#}\<rparr> :: (nat, nat) connect"
  have "connect_done (mset [0] + {#}) ?s" by (simp add: connect_done_def)
  from connetToSSH_one_client [OF _ relpowp_imp_rtranclp [OF connect_leak_run] this]
  show ?thesis by auto
qed

end
