(* ===== verification/Ssh_Manager.thy ===== *)
theory Ssh_Manager
  imports Ssh_Dialer Ssh_Connect
begin

text \<open>
  \<open>SSHDialersMgr\<close> of \<^verbatim>\<open>sshutil/sshmgr.go\<close> as a whole: what \<open>Init\<close> builds, the serving loop of \<open>Ssh_Dialer\<close> and
  the calls of \<open>connetToSSH\<close> of \<open>Ssh_Connect\<close> it makes, with the goroutines they leave behind.
\<close>

subsection \<open>The system\<close>

text \<open>
  \<open>Init\<close> of the manager: its channel (\<open>None\<close> is nil) with the dialers that could be built, and whether it
  starts to serve.
\<close>

definition sds_Init :: "'f outcome list \<Rightarrow> (('f \<times> SSHDialer) list option \<times> bool) outcome" where
  "sds_Init sshList =
     (if length sshList = 0 then Ok (None, False)
      else obind (Init sshList) (\<lambda>sshDialers.
        if length sshDialers = 0 then Ok (Some sshDialers, False) else Ok (Some sshDialers, True)))"

text \<open>
  \<open>sy_held\<close> are the dialers in goroutines that calls have left behind, \<open>sy_made\<close> all clients ever connected,
  and \<open>sy_lost\<close> those that a collector closes or that stay in the channel of a call.
\<close>

record ('d, 'c) ssh_sys =
  sy_mgr :: "'c ssh_mgr"
  sy_pool :: "'d list"
  sy_held :: "'d multiset"
  sy_made :: "'c set"
  sy_lost :: "'c set"

definition sys_start :: "int \<Rightarrow> 'd list \<Rightarrow> ('d, 'c) ssh_sys" where
  "sys_start now pool =
     \<lparr>sy_mgr = mgr_start now, sy_pool = pool, sy_held = {#}, sy_made = {}, sy_lost = {}\<rparr>"

text \<open>
  \<open>serve\<close> is any step of the loop but the call; \<open>call\<close> is a run of \<open>connetToSSH\<close> up to its return, with its
  result used as in \<open>StartServe\<close>; \<open>late\<close> is a goroutine of an earlier call, which may still have connected. A
  client that is connected is a new object.
\<close>

inductive sys_step :: "nat \<Rightarrow> ('d, 'c) ssh_sys \<Rightarrow> ('d, 'c) ssh_sys \<Rightarrow> bool" for n where
  serve: "mgr_step (sy_mgr S) sm \<Longrightarrow> (sm_pc (sy_mgr S) = Connecting \<longrightarrow> sm_pc sm = Connecting) \<Longrightarrow>
    sys_step n S (S\<lparr>sy_mgr := sm\<rparr>)"
| call: "sm_pc (sy_mgr S) = Connecting \<Longrightarrow> (connect_step n)\<^sup>*\<^sup>* (connect_start (sy_pool S) (sy_held S)) s \<Longrightarrow>
    cn_main s = Returned sshClient terminate \<Longrightarrow>
    (\<forall>c. count (cn_made s) c \<le> (if c \<in> sy_made S then 0 else 1)) \<Longrightarrow>
    sys_step n S (S\<lparr>
      sy_mgr := (if terminate then (sy_mgr S)\<lparr>sm_pc := Stopped\<rparr>
                 else (sy_mgr S)\<lparr>sm_sshClient := sshClient, sm_pc := Sleeping\<rparr>),
      sy_pool := cn_sshDialers s, sy_held := cn_held s + image_mset go_dialer (cn_gos s),
      sy_made := sy_made S \<union> set_mset (cn_made s),
      sy_lost := sy_lost S \<union> (set_mset (cn_made s) - set_option sshClient)\<rparr>)"
| late: "sy_held S = add_mset d H \<Longrightarrow> length (sy_pool S) < n \<Longrightarrow> set_option client \<inter> sy_made S = {} \<Longrightarrow>
    sys_step n S (S\<lparr>sy_held := H, sy_pool := sy_pool S @ [d],
      sy_made := sy_made S \<union> set_option client, sy_lost := sy_lost S \<union> set_option client\<rparr>)"

inductive_cases sys_stepE: "sys_step n S T"

subsection \<open>Lemmas\<close>

lemma Init_length:
  "Init cs = Ok ds \<Longrightarrow> length ds \<le> length cs"
proof (induction cs arbitrary: ds)
  case (Cons c cs)
  then show ?case by (cases "newSSHDialer c") (fastforce simp: obind_eq_Ok)+
qed simp

text \<open>
  The dialers are in the channel or held; every client the manager closed, lost or uses has been made,
  and the one in use is not lost.
\<close>

definition sys_inv :: "nat \<Rightarrow> 'd multiset \<Rightarrow> ('d, 'c) ssh_sys \<Rightarrow> bool" where
  "sys_inv n D S \<longleftrightarrow> mset (sy_pool S) + sy_held S = D \<and> size D \<le> n \<and> mgr_inv (sy_mgr S) \<and>
     sm_closed (sy_mgr S) \<subseteq> sy_made S \<and> set_option (sm_sshClient (sy_mgr S)) \<subseteq> sy_made S \<and>
     sy_lost S \<subseteq> sy_made S \<and> set_option (sm_sshClient (sy_mgr S)) \<inter> sy_lost S = {}"

lemma sys_inv_room:
  "sys_inv n D S \<Longrightarrow> length (sy_pool S) + size (sy_held S) \<le> n"
  by (auto simp: sys_inv_def)

text \<open>What a call that has returned leaves behind.\<close>

lemma call_result:
  assumes "length pool + size held \<le> n" and "(connect_step n)\<^sup>*\<^sup>* (connect_start pool held) s"
    and "cn_main s = Returned r b"
  shows "mset (cn_sshDialers s) + (cn_held s + image_mset go_dialer (cn_gos s)) = mset pool + held \<and>
    set_option r \<subseteq> set_mset (cn_made s)"
proof -
  have "connect_inv n (mset pool + held) s"
    by (rule connect.run_inv [OF assms(2) connect_start_inv [OF assms(1)]])
  then show ?thesis using assms(3) by (auto simp: connect_inv_def delivered_def add_ac)
qed

text \<open>The loop closes only its own client, and changes it only when a call returns.\<close>

lemma serve_keeps:
  assumes "mgr_step sm sm'" and "sm_pc sm = Connecting \<longrightarrow> sm_pc sm' = Connecting"
  shows "sm_sshClient sm' = sm_sshClient sm \<and> sm_closed sm' \<subseteq> sm_closed sm \<union> set_option (sm_sshClient sm)"
  using assms by cases (auto simp: serverIsOK_def split: if_splits)

text \<open>The assumption of \<open>mgr_step\<close> on the results of calls holds, because clients are new.\<close>

lemma sys_step_mgr:
  assumes "sys_inv n D S" and "sys_step n S T"
  shows "mgr_step\<^sup>=\<^sup>= (sy_mgr S) (sy_mgr T)"
  using assms(2)
proof cases
  case (call s sshClient terminate)
  have "set_option sshClient \<subseteq> set_mset (cn_made s)"
    using call_result [OF sys_inv_room [OF assms(1)] call(3,4)] by blast
  moreover have "set_mset (cn_made s) \<inter> sy_made S = {}"
    using call(5) by (auto split: if_splits dest: spec simp flip: count_greater_zero_iff)
  ultimately have "set_option sshClient \<inter> sm_closed (sy_mgr S) = {}"
    using assms(1) unfolding sys_inv_def by blast
  with call show ?thesis by (auto intro: mgr_step.connected mgr_step.terminated)
qed auto

lemma sys_step_inv:
  assumes "sys_inv n D S" and "sys_step n S T"
  shows "sys_inv n D T"
proof -
  have mgr: "mgr_inv (sy_mgr T)"
    using sys_step_mgr [OF assms] mgr_step_inv assms(1) by (auto simp: sys_inv_def)
  from assms(2) show ?thesis
  proof cases
    case (serve sm)
    then show ?thesis using serve_keeps [OF serve(2,3)] assms(1) mgr by (auto simp: sys_inv_def)
  next
    case (call s sshClient terminate)
    note res = call_result [OF sys_inv_room [OF assms(1)] call(3,4)]
    have "set_mset (cn_made s) \<inter> sy_made S = {}"
      using call(5) by (auto split: if_splits dest: spec simp flip: count_greater_zero_iff)
    with res call(1) assms(1) mgr show ?thesis by (cases terminate) (auto simp: sys_inv_def)
  next
    case (late d H client)
    then show ?thesis using assms(1) mgr by (auto simp: sys_inv_def)
  qed
qed

interpretation ssh_sys: step_system "sys_step n" "sys_inv n D" for n D
  by unfold_locales (fact sys_step_inv)

lemma sys_start_inv:
  assumes "sds_Init cfgs = Ok (Some pool, ok)"
  shows "sys_inv (length cfgs) (mset pool) (sys_start now pool)"
proof -
  have "sm_closed (mgr_start now) = {}" "sm_sshClient (mgr_start now) = None" by (simp_all add: mgr_start_def)
  with assms Init_length show ?thesis
    by (auto simp: sds_Init_def sys_start_def sys_inv_def mgr_start_inv obind_eq_Ok split: if_splits)
qed

subsection \<open>A run\<close>

text \<open>One dialer that connects: the call returns its client, and the dialer is still with its goroutine.\<close>

lemma connect_success_run:
  "(connect_step (Suc n))\<^sup>*\<^sup>* (connect_start [d] {#})
     \<lparr>cn_sshDialers = [], cn_held = {#}, cn_gos = {#Returning d#}, cn_dialers = 1, cn_sshClients = [],
      cn_collector = Collecting 0 True, cn_sshClient = [], cn_closed = {#}, cn_main = Returned (Some c) False, cn_made = {#c#}\<rparr>"
proof -
  let ?s = "\<lambda>p G k rs col ch m M. \<lparr>cn_sshDialers = p, cn_held = {#}, cn_gos = G, cn_dialers = k, cn_sshClients = rs,
    cn_collector = col, cn_sshClient = ch, cn_closed = {#}, cn_main = m, cn_made = M\<rparr>"
  let ?step = "connect_step (Suc n)"
  have "?step (?s [d] {#} 0 [] NotStarted [] Popping {#}) (?s [] {#Dialing d#} 1 [] NotStarted [] Popping {#})"
    using connect_step.pop [of "?s [d] {#} 0 [] NotStarted [] Popping {#}" d "[]"] by simp
  moreover have "?step (?s [] {#Dialing d#} 1 [] NotStarted [] Popping {#})
      (?s [] {#Dialing d#} 1 [] (Collecting 1 False) [] Selecting {#})"
    using connect_step.pop_empty [of "?s [] {#Dialing d#} 1 [] NotStarted [] Popping {#}"] by simp
  moreover have "?step (?s [] {#Dialing d#} 1 [] (Collecting 1 False) [] Selecting {#})
      (?s [] {#Sending d (Some c)#} 1 [] (Collecting 1 False) [] Selecting {#c#})"
    using connect_step.dial [of "?s [] {#Dialing d#} 1 [] (Collecting 1 False) [] Selecting {#}" d "{#}" _ "Some c"] by simp
  moreover have "?step (?s [] {#Sending d (Some c)#} 1 [] (Collecting 1 False) [] Selecting {#c#})
      (?s [] {#Returning d#} 1 [Some c] (Collecting 1 False) [] Selecting {#c#})"
    using connect_step.send [of "?s [] {#Sending d (Some c)#} 1 [] (Collecting 1 False) [] Selecting {#c#}" d "Some c" "{#}"]
    by simp
  moreover have "?step (?s [] {#Returning d#} 1 [Some c] (Collecting 1 False) [] Selecting {#c#})
      (?s [] {#Returning d#} 1 [] (Collecting 0 True) [Some c] Selecting {#c#})"
    using connect_step.first [of "?s [] {#Returning d#} 1 [Some c] (Collecting 1 False) [] Selecting {#c#}" 0 c "[]"] by simp
  moreover have "?step (?s [] {#Returning d#} 1 [] (Collecting 0 True) [Some c] Selecting {#c#})
      (?s [] {#Returning d#} 1 [] (Collecting 0 True) [] (Returned (Some c) False) {#c#})"
    using connect_step.result [of "?s [] {#Returning d#} 1 [] (Collecting 0 True) [Some c] Selecting {#c#}" "Some c" "[]"] by simp
  ultimately show ?thesis unfolding connect_start_def by (meson converse_rtranclp_into_rtranclp rtranclp.rtrancl_refl)
qed

text \<open>The manager over it: after the call the dialer is put back, and the next check finds the connection valid.\<close>

lemma ssh_sys_run:
  "(sys_step (Suc n))\<^sup>*\<^sup>* (sys_start 0 [d])
     \<lparr>sy_mgr = \<lparr>sm_sshClient = Some c, sm_connIsValid = True, sm_lastCheckUrlTime = 0, sm_closed = {}, sm_pc = Testing\<rparr>,
      sy_pool = [d], sy_held = {#}, sy_made = {c}, sy_lost = {}\<rparr>"
proof -
  let ?m = "\<lambda>r v p. \<lparr>sm_sshClient = r, sm_connIsValid = v, sm_lastCheckUrlTime = 0, sm_closed = {}, sm_pc = p\<rparr>"
  let ?S = "\<lambda>m p H M. \<lparr>sy_mgr = m, sy_pool = p, sy_held = H, sy_made = M, sy_lost = {}\<rparr>"
  let ?step = "sys_step (Suc n)"
  have serve: "?step\<^sup>*\<^sup>* (?S m p H M) (?S m' p H M)" if "mgr_step m m'" "sm_pc m \<noteq> Connecting" for m m' p H M
    using sys_step.serve [of "?S m p H M" m'] that by (simp add: r_into_rtranclp)
  have "mgr_step (?m None False Looping) (?m None False (Assigning False))"
    using mgr_step.check [of "?m None False Looping" "\<lambda>k. True" 0 True "?m None False Looping" False]
    by (simp add: serverIsOK_def checkSSHState_def)
  note 1 = serve [OF this, simplified, of "[d]" "{#}" "{}"]
  have "mgr_step (?m None False (Assigning False)) (?m None False Testing)"
    using mgr_step.assign [of "?m None False (Assigning False)" False] by simp
  note 2 = serve [OF this, simplified, of "[d]" "{#}" "{}"]
  have "mgr_step (?m None False Testing) (?m None False Connecting)"
    using mgr_step.invalid [of "?m None False Testing"] by simp
  note 3 = serve [OF this, simplified, of "[d]" "{#}" "{}"]
  let ?A = "?S (?m None False Connecting) [d] {#} {}"
  have "(connect_step (Suc n))\<^sup>*\<^sup>* (connect_start (sy_pool ?A) (sy_held ?A))
     \<lparr>cn_sshDialers = [], cn_held = {#}, cn_gos = {#Returning d#}, cn_dialers = 1, cn_sshClients = [],
      cn_collector = Collecting 0 True, cn_sshClient = [], cn_closed = {#}, cn_main = Returned (Some c) False, cn_made = {#c#}\<rparr>"
    using connect_success_run [of n d c] by simp
  from sys_step.call [OF _ this, of "Some c" False]
  have 4: "?step ?A (?S (?m (Some c) False Sleeping) [] {#d#} {c})" by simp
  have 5: "?step (?S (?m (Some c) False Sleeping) [] {#d#} {c}) (?S (?m (Some c) False Sleeping) [d] {#} {c})"
    using sys_step.late [of "?S (?m (Some c) False Sleeping) [] {#d#} {c}" d "{#}" "Suc n" None] by simp
  have "mgr_step (?m (Some c) False Sleeping) (?m (Some c) False Looping)"
    using mgr_step.awake [of "?m (Some c) False Sleeping"] by simp
  note 6 = serve [OF this, simplified, of "[d]" "{#}" "{c}"]
  have "mgr_step (?m (Some c) False Looping) (?m (Some c) False (Assigning True))"
    using mgr_step.check [of "?m (Some c) False Looping" "\<lambda>k. True" 2 True "?m (Some c) False Looping" True]
    by (simp add: serverIsOK_def checkSSHState_def)
  note 7 = serve [OF this, simplified, of "[d]" "{#}" "{c}"]
  have "mgr_step (?m (Some c) False (Assigning True)) (?m (Some c) True Testing)"
    using mgr_step.assign [of "?m (Some c) False (Assigning True)" True] by simp
  note 8 = serve [OF this, simplified, of "[d]" "{#}" "{c}"]
  note run = rtranclp_trans [OF 1 rtranclp_trans [OF 2 rtranclp_trans [OF 3 rtranclp_trans [OF r_into_rtranclp [of ?step, OF 4]
    rtranclp_trans [OF r_into_rtranclp [of ?step, OF 5] rtranclp_trans [OF 6 rtranclp_trans [OF 7 8]]]]]]]
  then show ?thesis by (simp add: sys_start_def mgr_start_def)
qed

subsection \<open>Properties\<close>

text \<open>
  The manager with all its goroutines is an instance of the serving loop: what the loop assumes of the calls it
  makes, that they return a client nobody has closed, is a consequence of how they work.
\<close>

theorem ssh_manager_refines_loop:
  assumes "sds_Init cfgs = Ok (Some pool, ok)" and "(sys_step (length cfgs))\<^sup>*\<^sup>* (sys_start now pool) S"
  shows "mgr_step\<^sup>*\<^sup>* (mgr_start now) (sy_mgr S)"
  using assms(2)
proof (induction rule: rtranclp_induct)
  case (step S T)
  have "sys_inv (length cfgs) (mset pool) S"
    by (rule ssh_sys.run_inv [OF step(1) sys_start_inv [OF assms(1)]])
  from sys_step_mgr [OF this step(2)] step(3) show ?case by auto
qed (simp add: sys_start_def)

text \<open>
  C23: Through any number of calls, time-outs and late results the manager loses no dialer: each one \<open>Init\<close>
  built is in the channel or with a goroutine that will put it back, and the channel has room for
  all of them. While the connection counts as valid there is a client, one that neither the loop has closed
  nor a collector has or will.
\<close>

theorem ssh_manager_conserves:
  assumes "sds_Init cfgs = Ok (Some pool, ok)" and "(sys_step (length cfgs))\<^sup>*\<^sup>* (sys_start now pool) S"
  shows "mset (sy_pool S) + sy_held S = mset pool \<and> length (sy_pool S) + size (sy_held S) \<le> length cfgs \<and>
    (sm_connIsValid (sy_mgr S) \<longrightarrow>
       (\<exists>k. sm_sshClient (sy_mgr S) = Some k \<and> k \<notin> sm_closed (sy_mgr S) \<and> k \<notin> sy_lost S))"
proof -
  have inv: "sys_inv (length cfgs) (mset pool) S"
    by (rule ssh_sys.run_inv [OF assms(2) sys_start_inv [OF assms(1)]])
  with sys_inv_room [OF inv] show ?thesis by (auto simp: sys_inv_def mgr_inv_def)
qed

theorem ssh_manager_conserves_witness:
  "\<exists>S :: (string \<times> SSHDialer, nat) ssh_sys. sm_connIsValid (sy_mgr S) \<and> length (sy_pool S) + size (sy_held S) \<le> 2 \<and>
     (\<exists>k. sm_sshClient (sy_mgr S) = Some k \<and> k \<notin> sm_closed (sy_mgr S) \<and> k \<notin> sy_lost S)"
proof -
  let ?d = "(''dial'', \<lparr>sd_waitSeconds = 0, sd_lastestConnectTime = 0\<rparr>)"
  let ?S = "\<lparr>sy_mgr = \<lparr>sm_sshClient = Some 7, sm_connIsValid = True, sm_lastCheckUrlTime = 0, sm_closed = {}, sm_pc = Testing\<rparr>,
      sy_pool = [?d], sy_held = {#}, sy_made = {7}, sy_lost = {}\<rparr> :: (string \<times> SSHDialer, nat) ssh_sys"
  have "sds_Init [Ok ''dial'', Err (Sentinel ''no key'')] = Ok (Some [?d], True)"
    by (simp add: sds_Init_def newSSHDialer_def)
  moreover have "(sys_step (length [Ok ''dial'', Err (Sentinel ''no key'')]))\<^sup>*\<^sup>* (sys_start 0 [?d]) ?S"
    using ssh_sys_run [of 1 ?d 7] by (simp add: numeral_2_eq_2)
  ultimately show ?thesis using ssh_manager_conserves [of "[Ok ''dial'', Err (Sentinel ''no key'')]" "[?d]" True 0 ?S]
    by (intro exI [of _ ?S]) auto
qed

end
