(* ===== verification/Ssh_Forward.thy ===== *)
theory Ssh_Forward
  imports Ssh_Dialer
begin

text \<open>
  \<^verbatim>\<open>sshutil/portfd.go\<close>, \<^verbatim>\<open>sshutil/socks5proxy.go\<close>, \<^verbatim>\<open>sshutil/conn.go\<close> and the connections they use: the
  local ends of a tunnel, their accept loops with back-off, and the copying between two
  connections. \<open>Sleep\<close> of \<^verbatim>\<open>common\<close> is not in the repository: whether it slept to the end is an
  argument. Durations are in nanoseconds.
\<close>

subsection \<open>Connections with time-outs\<close>

definition second :: int where "second = 1000000000"

text \<open>
  One operation of a \<open>TimeoutConn\<close>: the deadline it sets, and its result. \<open>set_deadline\<close> is the answer to
  setting the deadline, \<open>op\<close> that to the operation.
\<close>

definition TimeoutConn_Read :: "int \<Rightarrow> int \<Rightarrow> (int \<Rightarrow> gerr option) \<Rightarrow> nat \<times> gerr option \<Rightarrow> int \<times> nat \<times> gerr option" where
  "TimeoutConn_Read now readTimeout set_deadline op =
     (let d = now + readTimeout in
      case set_deadline d of
        Some e \<Rightarrow> (d, 0, Some e)
      | None \<Rightarrow> (d, op))"

definition TimeoutConn_Write :: "int \<Rightarrow> int \<Rightarrow> (int \<Rightarrow> gerr option) \<Rightarrow> nat \<times> gerr option \<Rightarrow> int \<times> nat \<times> gerr option" where
  "TimeoutConn_Write now writeTimeout set_deadline op =
     (let d = now + writeTimeout in
      case set_deadline d of
        Some e \<Rightarrow> (d, 0, Some e)
      | None \<Rightarrow> (d, op))"

text \<open>
  A connection to \<open>addr\<close>, straight or through a proxy; \<open>direct\<close> and \<open>socks\<close> are the answers of the network
  and of the proxy package.
\<close>

definition GetDialConn :: "SSHConfig \<Rightarrow> (string \<Rightarrow> string \<Rightarrow> int \<Rightarrow> 'c outcome)
    \<Rightarrow> (string \<Rightarrow> int \<Rightarrow> (string \<Rightarrow> string \<Rightarrow> 'c outcome) outcome) \<Rightarrow> string \<Rightarrow> string \<Rightarrow> string \<Rightarrow> 'c outcome" where
  "GetDialConn p direct socks network addr proxyAddr =
     (let t = timeout p in
      if proxyAddr = [] then direct network addr t
      else obind (socks proxyAddr t) (\<lambda>dial. dial ''tcp'' addr))"

text \<open>\<open>newSSHDialFunc\<close>: the address that is dialled once the configuration is accepted.\<close>

definition newSSHDialFunc :: "'cfg outcome \<Rightarrow> (string \<Rightarrow> string \<Rightarrow> 'cfg \<Rightarrow> 'k outcome) \<Rightarrow> SSHConfig \<Rightarrow> (unit \<Rightarrow> 'k outcome) outcome" where
  "newSSHDialFunc cfg dialSSH p =
     obind cfg (\<lambda>cfg. Ok (\<lambda>u. dialSSH ''tcp'' (sc_Host p @ '':'' @ FormatInt (sc_Port p)) cfg))"

text \<open>\<open>NewSSHClient\<close>: one dialer, used once.\<close>

definition NewSSHClient :: "int \<Rightarrow> (unit \<Rightarrow> 'k outcome) outcome \<Rightarrow> 'k option outcome" where
  "NewSSHClient now dialFunc =
     obind (newSSHDialer dialFunc) (\<lambda>(f, sd). snd (newClient now (f ()) sd))"

subsection \<open>A free port\<close>

text \<open>\<open>netListen\<close> gives the address of a listener on \<^verbatim>\<open>localhost:0\<close>.\<close>

definition openPort :: "string outcome \<Rightarrow> int outcome" where
  "openPort netListen =
     obind netListen (\<lambda>laddr. obind (SplitHostPort laddr) (\<lambda>(host, port). Atoi port))"

subsection \<open>Port forwarding\<close>

text \<open>\<open>pf_terminated\<close>: the channel is closed. \<open>pf_ls\<close>: the listener, if it has been made, and whether it is open.\<close>

record PortForward =
  pf_localAddr :: string
  pf_remoteAddr :: string
  pf_terminated :: bool
  pf_ls :: "bool option"

definition NewPortForward :: "string outcome \<Rightarrow> string \<Rightarrow> string \<Rightarrow> PortForward outcome" where
  "NewPortForward netListen localAddr remoteAddr =
     obind (if localAddr = []
            then obind (CheckError (openPort netListen)) (\<lambda>localPort. Ok (''127.0.0.1:'' @ FormatInt localPort))
            else Ok localAddr) (\<lambda>localAddr.
     Ok \<lparr>pf_localAddr = localAddr, pf_remoteAddr = remoteAddr, pf_terminated = False, pf_ls = None\<rparr>)"

definition LocalPort :: "PortForward \<Rightarrow> string" where
  "LocalPort f =
     (let localAddr = Split (CHR '':'') (pf_localAddr f) in
      if length localAddr \<le> 1 then [] else localAddr ! 1)"

text \<open>\<open>Stop\<close>, with the state it leaves when it panics.\<close>

definition pf_Stop :: "PortForward \<Rightarrow> PortForward \<times> unit outcome" where
  "pf_Stop f =
     (if pf_terminated f then (f, Panic (PErr (RuntimeError ''close of closed channel'')))
      else let f = f\<lparr>pf_terminated := True\<rparr> in
        case pf_ls f of
          None \<Rightarrow> (f, nil_panic)
        | Some b \<Rightarrow> (f\<lparr>pf_ls := Some False\<rparr>, Ok ()))"

text \<open>\<open>serveConn\<close>: what is dialled; there is no recovery in its goroutine, so a panic ends the process.\<close>

definition serveConn :: "(string \<Rightarrow> string \<Rightarrow> 'c outcome) \<Rightarrow> PortForward \<Rightarrow> 'c outcome" where
  "serveConn dialFunc f = CheckError (dialFunc ''tcp'' (pf_remoteAddr f))"

text \<open>
  The accept loop over its rounds: whether the channel \<open>terminated\<close> is closed by then, what \<open>Accept\<close>
  returns, and whether a sleep would come to its end. The result: connections served, waiting times, and
  the error returned, if the loop was left.
\<close>

datatype 'c accepted = Accepted 'c | AcceptErr gerr

fun accept_err :: "'c accepted \<Rightarrow> gerr option" where
  "accept_err (Accepted c) = None"
| "accept_err (AcceptErr e) = Some e"

fun pf_accept_loop :: "int \<Rightarrow> (bool \<times> 'c accepted \<times> bool) list \<Rightarrow> 'c list \<times> int list \<times> gerr option option" where
  "pf_accept_loop waitSeconds [] = ([], [], None)"
| "pf_accept_loop waitSeconds ((terminated, a, slept) # es) =
     (if terminated then ([], [], Some (accept_err a))
      else case a of
        AcceptErr e \<Rightarrow>
          (let waitSeconds = i64 (waitSeconds * 2) in
           if \<not> slept then ([], [waitSeconds], Some None)
           else case pf_accept_loop waitSeconds es of (cs, ws, r) \<Rightarrow> (cs, waitSeconds # ws, r))
      | Accepted c \<Rightarrow> (case pf_accept_loop second es of (cs, ws, r) \<Rightarrow> (c # cs, ws, r)))"

definition pf_ListenAndServe :: "unit outcome \<Rightarrow> (bool \<times> 'c accepted \<times> bool) list \<Rightarrow> PortForward
    \<Rightarrow> PortForward \<times> ('c list \<times> int list \<times> gerr option option) outcome" where
  "pf_ListenAndServe listen es f =
     (case listen of
        Err e \<Rightarrow> (f, Err e)
      | Panic p \<Rightarrow> (f, Panic p)
      | Ok l \<Rightarrow>
          (case pf_accept_loop second es of (cs, ws, r) \<Rightarrow>
             (f\<lparr>pf_ls := Some (r = None)\<rparr>, Ok (cs, ws, r))))"

subsection \<open>Copying between two connections\<close>

text \<open>
  The two goroutines of a forwarded connection. \<open>True\<close> is the local side. \<open>fw_in\<close> is what a side has
  still to send, \<open>fw_out\<close> what has been written to it. A goroutine that comes to its end closes both
  connections, which ends the other one. \<open>failing\<close> allows a connection to break.
\<close>

record forward =
  fw_in :: "bool \<Rightarrow> bytes"
  fw_out :: "bool \<Rightarrow> bytes"
  fw_running :: "bool \<Rightarrow> bool"
  fw_open :: bool

inductive copy_step :: "bool \<Rightarrow> forward \<Rightarrow> forward \<Rightarrow> bool" for failing where
  copy: "fw_running s d \<Longrightarrow> fw_open s \<Longrightarrow> fw_in s d = xs @ ys \<Longrightarrow> xs \<noteq> [] \<Longrightarrow>
    copy_step failing s (s\<lparr>fw_in := (fw_in s)(d := ys), fw_out := (fw_out s)((\<not> d) := fw_out s (\<not> d) @ xs)\<rparr>)"
| eof: "fw_running s d \<Longrightarrow> fw_open s \<Longrightarrow> fw_in s d = [] \<Longrightarrow>
    copy_step failing s (s\<lparr>fw_running := (fw_running s)(d := False), fw_open := False\<rparr>)"
| breaks: "failing \<Longrightarrow> fw_running s d \<Longrightarrow> fw_open s \<Longrightarrow>
    copy_step failing s (s\<lparr>fw_running := (fw_running s)(d := False), fw_open := False\<rparr>)"
| closed: "fw_running s d \<Longrightarrow> \<not> fw_open s \<Longrightarrow>
    copy_step failing s (s\<lparr>fw_running := (fw_running s)(d := False)\<rparr>)"

inductive_cases copy_stepE: "copy_step failing s t"

definition copy_start :: "(bool \<Rightarrow> bytes) \<Rightarrow> forward" where
  "copy_start input = \<lparr>fw_in = input, fw_out = (\<lambda>d. []), fw_running = (\<lambda>d. True), fw_open = True\<rparr>"

subsection \<open>The socks5 proxy\<close>

text \<open>\<open>sp_terminated\<close>: a value is in the channel, which holds one.\<close>

record Socks5Proxy =
  sp_port :: int
  sp_remote :: bool
  sp_started :: bool
  sp_netListener :: "bool option"
  sp_terminated :: bool

definition NewSock5Proxy :: "int \<Rightarrow> bool \<Rightarrow> Socks5Proxy" where
  "NewSock5Proxy port allowRemoteCon =
     \<lparr>sp_port = port, sp_remote = allowRemoteCon, sp_started = False, sp_netListener = None, sp_terminated = False\<rparr>"

definition socks_addr :: "Socks5Proxy \<Rightarrow> string" where
  "socks_addr s =
     (let addr = '':'' @ FormatInt (sp_port s) in if \<not> sp_remote s then ''127.0.0.1'' @ addr else addr)"

text \<open>
  \<open>Start\<close>: the second result is the address its goroutine listens on. The port of a listener is in the
  range of \<open>Atoi\<close>, so an error comes with the port 0.
\<close>

definition socks_Start :: "string outcome \<Rightarrow> Socks5Proxy \<Rightarrow> Socks5Proxy \<times> string outcome" where
  "socks_Start netListen s =
     (case if sp_port s = 0 then openPort netListen else Ok (sp_port s) of
        Ok port \<Rightarrow> let s = s\<lparr>sp_port := port\<rparr> in (s\<lparr>sp_started := True\<rparr>, Ok (socks_addr s))
      | Err e \<Rightarrow> (s\<lparr>sp_port := 0\<rparr>, Err e)
      | Panic p \<Rightarrow> (s, Panic p))"

definition socks_Addr :: "Socks5Proxy \<Rightarrow> string outcome" where
  "socks_Addr s =
     (if sp_port s = 0 then Err (Errorf ''socks5 proxy is not running'' []) else Ok (socks_addr s))"

text \<open>\<open>None\<close> is a call that blocks: the channel is full until the accept loop reads it.\<close>

definition socks_Stop :: "Socks5Proxy \<Rightarrow> Socks5Proxy option" where
  "socks_Stop s =
     (if sp_terminated s then None
      else Some (s\<lparr>sp_terminated := True, sp_netListener := map_option (\<lambda>b. False) (sp_netListener s)\<rparr>))"

text \<open>The rounds of the accept loop: the first flag is whether a value is in the channel \<open>terminated\<close>.\<close>

fun socks_accept_loop :: "int \<Rightarrow> (bool \<times> 'c accepted \<times> bool) list \<Rightarrow> 'c list \<times> int list \<times> gerr option option" where
  "socks_accept_loop waitSeconds [] = ([], [], None)"
| "socks_accept_loop waitSeconds ((terminated, a, slept) # es) =
     (case a of
        AcceptErr e \<Rightarrow>
          if terminated then ([], [], Some None)
          else let waitSeconds = i64 (waitSeconds * 2) in
            if \<not> slept then ([], [waitSeconds], Some None)
            else (case socks_accept_loop waitSeconds es of (cs, ws, r) \<Rightarrow> (cs, waitSeconds # ws, r))
      | Accepted c \<Rightarrow> (case socks_accept_loop second es of (cs, ws, r) \<Rightarrow> (c # cs, ws, r)))"

text \<open>\<open>server\<close> is the answer of the socks5 package, \<open>listen\<close> that to listening.\<close>

definition socks_ListenAndServe :: "unit outcome \<Rightarrow> unit outcome \<Rightarrow> (bool \<times> 'c accepted \<times> bool) list
    \<Rightarrow> ('c list \<times> int list \<times> gerr option option) outcome" where
  "socks_ListenAndServe server listen es =
     obind server (\<lambda>server. obind listen (\<lambda>l. Ok (socks_accept_loop second es)))"

text \<open>\<open>StartProxy\<close> of the manager: the error of \<open>Start\<close> is dropped; the result is the address of the proxy.\<close>

definition StartProxy :: "string outcome \<Rightarrow> (string \<Rightarrow> unit outcome) \<Rightarrow> int \<Rightarrow> bool \<Rightarrow> string outcome" where
  "StartProxy netListen socks proxyPort allowRemote =
     (case socks_Start netListen (NewSock5Proxy proxyPort allowRemote) of (s, started) \<Rightarrow>
        obind (CheckError (socks_Addr s)) (\<lambda>addr.
        obind (CheckError (socks addr)) (\<lambda>dialer. Ok addr)))"

subsection \<open>Testing a connection\<close>

text \<open>
  \<open>testDial\<close>, with a test dialer: the goroutine with its request and the caller, over an unbuffered
  channel. \<open>td_resp\<close> is whether the request succeeded, once it is over.
\<close>

datatype dial_go = Getting | SendingRes bool | Gone

record test_dial =
  td_go :: dial_go
  td_resp :: "bool option"
  td_isok :: "bool option"

inductive test_step :: "test_dial \<Rightarrow> test_dial \<Rightarrow> bool" where
  responds: "td_go s = Getting \<Longrightarrow> test_step s (s\<lparr>td_go := SendingRes ok, td_resp := Some ok\<rparr>)"
| receives: "td_go s = SendingRes ok \<Longrightarrow> td_isok s = None \<Longrightarrow> test_step s (s\<lparr>td_go := Gone, td_isok := Some ok\<rparr>)"
| times_out: "td_isok s = None \<Longrightarrow> test_step s (s\<lparr>td_isok := Some False\<rparr>)"

inductive_cases test_stepE: "test_step s t"

definition test_start :: "bool \<Rightarrow> test_dial" where
  "test_start has_dialer =
     (if has_dialer then \<lparr>td_go = Getting, td_resp = None, td_isok = None\<rparr>
      else \<lparr>td_go = Gone, td_resp = None, td_isok = Some True\<rparr>)"

subsection \<open>Lemmas\<close>

text \<open>
  What has been written to a side and what is still to come are what the other side sent; both
  goroutines run while the connections are open; without failures they are closed by a side whose input is at its end.
\<close>

definition copy_inv :: "bool \<Rightarrow> (bool \<Rightarrow> bytes) \<Rightarrow> forward \<Rightarrow> bool" where
  "copy_inv failing input s \<longleftrightarrow>
     (\<forall>d. fw_out s (\<not> d) @ fw_in s d = input d) \<and> (fw_open s \<longrightarrow> (\<forall>d. fw_running s d)) \<and>
     (\<not> failing \<longrightarrow> \<not> fw_open s \<longrightarrow> (\<exists>d. fw_in s d = []))"

definition copy_weight :: "forward \<Rightarrow> nat" where
  "copy_weight s = length (fw_in s True) + length (fw_in s False) + of_bool (fw_running s True) + of_bool (fw_running s False)"

lemma copy_step_inv:
  assumes "copy_step failing s t" and "copy_inv failing input s"
  shows "copy_inv failing input t"
  using assms(1)
proof cases
  case (copy d xs ys)
  have "fw_out t (\<not> d') @ fw_in t d' = input d'" for d'
    using copy assms(2) by (cases d; cases d') (auto simp: copy_inv_def all_bool_eq)
  with copy assms(2) show ?thesis by (auto simp: copy_inv_def)
qed (use assms(2) in \<open>auto simp: copy_inv_def\<close>)

lemma copy_step_weight: "copy_step failing s t \<Longrightarrow> copy_weight t < copy_weight s"
proof (erule copy_stepE)
  fix d xs ys
  assume "t = s\<lparr>fw_in := (fw_in s)(d := ys), fw_out := (fw_out s)((\<not> d) := fw_out s (\<not> d) @ xs)\<rparr>"
    and "fw_in s d = xs @ ys" and "xs \<noteq> []"
  then show ?thesis by (cases d) (simp_all add: copy_weight_def)
qed (auto simp: copy_weight_def)

interpretation copying: terminating_system "copy_step failing" "copy_inv failing input" copy_weight for failing input
  by unfold_locales (blast intro: copy_step_inv copy_step_weight)+

lemma copy_start_inv: "copy_inv failing input (copy_start input)"
  by (simp add: copy_inv_def copy_start_def)

lemma copy_progress:
  assumes "copy_inv failing input s" and "fw_running s d"
  shows "\<exists>t. copy_step failing s t"
proof (cases "fw_open s")
  case True
  then show ?thesis
    using assms(2) copy_step.copy [of s d "fw_in s d" "[]"] copy_step.eof [of s d] by (cases "fw_in s d = []") auto
qed (use assms(2) copy_step.closed in blast)

text \<open>The waiting times of an accept loop, after \<open>k\<close> failures in a row.\<close>

fun backoff :: "nat \<Rightarrow> 'c accepted list \<Rightarrow> int list" where
  "backoff k [] = []"
| "backoff k (AcceptErr e # as) = 2 ^ Suc k * second # backoff (Suc k) as"
| "backoff k (Accepted c # as) = backoff 0 as"

fun short_runs :: "nat \<Rightarrow> 'c accepted list \<Rightarrow> bool" where
  "short_runs k [] = True"
| "short_runs k (AcceptErr e # as) = (k < 33 \<and> short_runs (Suc k) as)"
| "short_runs k (Accepted c # as) = short_runs 0 as"

fun served :: "'c accepted list \<Rightarrow> 'c list" where
  "served [] = []"
| "served (AcceptErr e # as) = served as"
| "served (Accepted c # as) = c # served as"

lemma double_wait: "k < 33 \<Longrightarrow> i64 (2 ^ k * second * 2) = 2 ^ Suc k * second"
proof -
  assume "k < 33"
  then have "(2 :: int) ^ Suc k \<le> 2 ^ 33" by (intro power_increasing) auto
  then show ?thesis by (subst i64_id) (simp_all add: second_def order.trans [of _ 0])
qed

lemma accept_loops_backoff:
  "short_runs k as \<Longrightarrow> pf_accept_loop (2 ^ k * second) (map (\<lambda>a. (False, a, True)) as) = (served as, backoff k as, None)"
  "short_runs k as \<Longrightarrow> socks_accept_loop (2 ^ k * second) (map (\<lambda>a. (False, a, True)) as) = (served as, backoff k as, None)"
proof (induction k as rule: backoff.induct)
  case (2 k e as)
  {
    case 1
    then show ?case using 2(1) by (simp add: double_wait del: power_Suc)
  next
    case 2
    then show ?case using \<open>short_runs (Suc k) as \<Longrightarrow> socks_accept_loop _ _ = _\<close> by (simp add: double_wait del: power_Suc)
  }
qed simp_all

subsection \<open>Properties\<close>

text \<open>
  C25: Forwarding ends and delivers: if no connection breaks, no run has more steps than there are bytes,
  plus two; it can go on until both goroutines are over; then everything one of the sides sent has
  been delivered, and of what the other side sent a part from the beginning. The other side's last
  bytes can be lost, because the first end of input closes both connections.
\<close>

theorem forward_delivers:
  assumes "(copy_step False ^^ n) (copy_start input) s"
  shows "n \<le> length (input True) + length (input False) + 2 \<and>
    ((\<exists>t. copy_step False s t) \<or>
     (\<forall>d. \<not> fw_running s d) \<and> (\<exists>d. fw_out s (\<not> d) = input d) \<and> (\<forall>d. \<exists>k. fw_out s (\<not> d) = take k (input d)))"
proof -
  have inv: "copy_inv False input s"
    by (rule copying.run_inv [OF relpowp_imp_rtranclp [OF assms] copy_start_inv])
  have "n \<le> copy_weight (copy_start input)"
    by (rule copying.run_bound [OF assms copy_start_inv])
  then have "n \<le> length (input True) + length (input False) + 2"
    by (simp add: copy_weight_def copy_start_def)
  moreover have "(\<forall>d. \<not> fw_running s d) \<and> (\<exists>d. fw_out s (\<not> d) = input d) \<and> (\<forall>d. \<exists>k. fw_out s (\<not> d) = take k (input d))"
    if stuck: "\<nexists>t. copy_step False s t"
  proof (intro conjI)
    show "\<forall>d. \<not> fw_running s d" using copy_progress [OF inv] stuck by blast
    then show "\<exists>d. fw_out s (\<not> d) = input d" using inv unfolding copy_inv_def by (metis append_Nil2)
    show "\<forall>d. \<exists>k. fw_out s (\<not> d) = take k (input d)"
      using inv unfolding copy_inv_def by (metis append_eq_conv_conj)
  qed
  ultimately show ?thesis by blast
qed

text \<open>A run in which the remote side has closed before it is read what the local side sent.\<close>

theorem forward_delivers_witness:
  "\<exists>s. fw_out s False = [] \<and> (\<nexists>t. copy_step False s t) \<and> (\<forall>d. \<exists>k. fw_out s (\<not> d) = take k (if d then [7] else []))"
proof -
  let ?i = "\<lambda>d. if d then [7 :: byte] else []"
  let ?s0 = "copy_start ?i"
  let ?s1 = "?s0\<lparr>fw_running := (fw_running ?s0)(False := False), fw_open := False\<rparr>"
  let ?s2 = "?s1\<lparr>fw_running := (fw_running ?s1)(True := False)\<rparr>"
  have "copy_step False ?s0 ?s1" by (rule copy_step.eof) (simp_all add: copy_start_def)
  moreover have "copy_step False ?s1 ?s2" by (rule copy_step.closed) (simp_all add: copy_start_def)
  ultimately have run: "(copy_step False ^^ 2) ?s0 ?s2" by (auto simp: numeral_2_eq_2)
  have stuck: "\<nexists>t. copy_step False ?s2 t"
    by (auto elim!: copy_stepE simp: copy_start_def split: if_splits)
  from forward_delivers [OF run] stuck have "\<forall>d. \<exists>k. fw_out ?s2 (\<not> d) = take k (?i d)" by blast
  moreover have "fw_out ?s2 False = []" by (simp add: copy_start_def)
  ultimately show ?thesis using stuck by blast
qed

text \<open>
  C32: Both accept loops, as long as they are not stopped, serve every accepted connection in order, and wait
  \<open>2 ^ k\<close> seconds after the \<open>k\<close>-th failure in a row. That holds for up to 33 failures in a row; the
  next doubling overflows a \<open>Duration\<close>.
\<close>

theorem accept_backoff:
  assumes "short_runs 0 as"
  shows "pf_accept_loop second (map (\<lambda>a. (False, a, True)) as) = (served as, backoff 0 as, None) \<and>
         socks_accept_loop second (map (\<lambda>a. (False, a, True)) as) = (served as, backoff 0 as, None) \<and>
         i64 (2 ^ 33 * second * 2) < 0"
  using accept_loops_backoff [OF assms] by (simp add: i64_def second_def)

theorem accept_backoff_witness:
  "pf_accept_loop second (map (\<lambda>a. (False, a, True)) [AcceptErr io_EOF, AcceptErr io_EOF, Accepted ''c'', AcceptErr io_EOF]) =
     ([''c''], [2000000000, 4000000000, 2000000000], None)"
  using accept_backoff [of "[AcceptErr io_EOF, AcceptErr io_EOF, Accepted ''c'', AcceptErr io_EOF]"]
  by (simp add: second_def)

text \<open>
  A proxy without a configured port listens on the address it reports: on the free port, and on the local
  machine only, unless remote connections are allowed.
\<close>

theorem StartProxy_address:
  assumes "netListen = Ok (h @ CHR '':'' # FormatInt n)" and "set h \<inter> {CHR '':'', CHR ''['', CHR '']''} = {}"
    and "0 < n" and "n < 2 ^ 16" and "socks addr = Ok ()"
    and "addr = (if allowRemote then [] else ''127.0.0.1'') @ '':'' @ FormatInt n"
  shows "StartProxy netListen socks 0 allowRemote = Ok addr \<and>
         snd (socks_Start netListen (NewSock5Proxy 0 allowRemote)) = Ok addr"
proof -
  have "openPort netListen = Ok n"
  proof -
    have "digit_val c \<noteq> None \<or> c = CHR ''-''" if "c \<in> set (FormatInt n)" for c
      using FormatInt_plain [OF that] .
    moreover have "digit_val (CHR '':'') = None" "digit_val (CHR ''['') = None" "digit_val (CHR '']'') = None"
      by (simp_all add: digit_val_def)
    ultimately have "set (FormatInt n) \<inter> {CHR '':'', CHR ''['', CHR '']''} = {}" by blast
    from SplitHostPort_plain [OF assms(2) this] show ?thesis
      using assms(1,3,4) by (simp add: openPort_def ParseInt_FormatInt)
  qed
  then show ?thesis using assms(3,5,6)
    by (cases allowRemote)
       (simp_all add: StartProxy_def socks_Start_def NewSock5Proxy_def socks_Addr_def socks_addr_def Let_def)
qed

theorem StartProxy_address_witness:
  "StartProxy (Ok ''127.0.0.1:4711'') (\<lambda>a. Ok ()) 0 False = Ok ''127.0.0.1:4711''"
proof -
  have f: "FormatInt 4711 = ''4711''"
    by (simp add: FormatInt_def dec_of_nat.simps [of 4711] dec_of_nat.simps [of 471] dec_of_nat.simps [of 47]
        dec_of_nat.simps [of 4] digit_char_def char_of_def bit_0)
  have h: "set ''127.0.0.1'' \<inter> {CHR '':'', CHR ''['', CHR '']''} = {}" by simp
  have l: "Ok ''127.0.0.1:4711'' = Ok (''127.0.0.1'' @ CHR '':'' # FormatInt 4711)" by (simp only: f append.simps)
  have a: "''127.0.0.1:4711'' = (if False then [] else ''127.0.0.1'') @ '':'' @ FormatInt 4711"
    by (simp only: f append.simps if_False)
  show ?thesis
    by (rule StartProxy_address [where socks = "\<lambda>a. Ok ()", OF l h _ _ _ a, THEN conjunct1]) simp_all
qed

text \<open>
  A test of the connection succeeds only if its request did; a test that has timed out leaves a goroutine
  behind which can never send its result.
\<close>

lemma testDial_sound:
  assumes "test_step\<^sup>*\<^sup>* (test_start True) s" and "td_isok s = Some True"
  shows "td_resp s = Some True"
proof -
  have "(td_isok s = Some True \<longrightarrow> td_resp s = Some True) \<and> (\<forall>ok. td_go s = SendingRes ok \<longrightarrow> td_resp s = Some ok) \<and>
      (td_go s = Getting \<longrightarrow> td_isok s \<noteq> Some True)"
    using assms(1)
    by (induction rule: rtranclp_induct) (auto simp: test_start_def elim!: test_stepE)
  with assms(2) show ?thesis by blast
qed

lemma testDial_leak:
  assumes "td_isok s = Some False" and "td_go s = SendingRes ok" and "test_step\<^sup>*\<^sup>* s t"
  shows "td_go t = SendingRes ok"
proof -
  have "td_go t = SendingRes ok \<and> td_isok t = Some False"
    using assms(3,1,2) by (induction rule: rtranclp_induct) (auto elim!: test_stepE)
  then show ?thesis by blast
qed

end
