(* ===== verification/Common_Map.thy ===== *)
theory Common_Map
  imports Go_Prelude "HOL-Library.List_Lexorder" "HOL-Library.Char_ord"
begin

text \<open>
  \<^verbatim>\<open>common/map.go\<close>: typed access to a map of dynamic values, and the inheritance between the objects
  of a JSON tree. Maps are objects of a heap, because inheritance changes them in place and
  reaches the same object on several ways.
\<close>

subsection \<open>Dynamic values and the heap of maps\<close>

text \<open>
  The dynamic types the code tells apart. \<open>VMap\<close> is the type \<open>Map\<close>, \<open>VStrMap\<close> the type
  \<^verbatim>\<open>map[string]interface{}\<close>, both an address; \<open>VAnyMap\<close> is \<^verbatim>\<open>map[interface{}]interface{}\<close> as its
  entries in the order of iteration; then come \<^verbatim>\<open>[]interface{}\<close>, \<^verbatim>\<open>[]string\<close>, \<^verbatim>\<open>[]Map\<close> and
  \<^verbatim>\<open>[]map[string]interface{}\<close>. \<open>'f\<close> are floating-point numbers.
\<close>

datatype 'f gval =
    VNil | VBool bool | VInt int | VInt64 int | VFloat 'f | VStr string
  | VMap nat | VStrMap nat | VAnyMap "('f gval \<times> 'f gval) list"
  | VList "'f gval list" | VStrs "string list" | VMaps "nat list" | VStrMaps "nat list"

type_synonym 'f gmap = "string \<rightharpoonup> 'f gval"

text \<open>
  \<open>ms_tick\<close> counts the loops that range over a map: the order of the \<open>i\<close>-th is up to the run time,
  the argument \<open>ord i\<close>.
\<close>

record 'f mstate =
  ms_heap :: "nat \<Rightarrow> 'f gmap"
  ms_next :: nat
  ms_tick :: nat

definition alloc :: "'f gmap \<Rightarrow> 'f mstate \<Rightarrow> nat \<times> 'f mstate" where
  "alloc m st = (ms_next st, st\<lparr>ms_heap := (ms_heap st)(ms_next st := m), ms_next := Suc (ms_next st)\<rparr>)"

definition put_key :: "nat \<Rightarrow> string \<Rightarrow> 'f gval \<Rightarrow> 'f mstate \<Rightarrow> 'f mstate" where
  "put_key a k v st = st\<lparr>ms_heap := (ms_heap st)(a := (ms_heap st a)(k \<mapsto> v))\<rparr>"

definition del_key :: "nat \<Rightarrow> string \<Rightarrow> 'f mstate \<Rightarrow> 'f mstate" where
  "del_key a k st = st\<lparr>ms_heap := (ms_heap st)(a := (ms_heap st a)(k := None))\<rparr>"

subsection \<open>Typed access\<close>

text \<open>\<open>f2i\<close> and \<open>i2f\<close> convert between numbers, \<open>pv\<close> is the verb \<^verbatim>\<open>%v\<close>.\<close>

definition Map_Int :: "('f \<Rightarrow> int) \<Rightarrow> 'f gmap \<Rightarrow> string \<Rightarrow> int" where
  "Map_Int f2i m key =
     (case m key of Some (VInt v) \<Rightarrow> v | Some (VFloat v) \<Rightarrow> f2i v | _ \<Rightarrow> 0)"

definition Map_Int64 :: "('f \<Rightarrow> int) \<Rightarrow> 'f gmap \<Rightarrow> string \<Rightarrow> int" where
  "Map_Int64 f2i m key =
     (case m key of Some (VInt64 v) \<Rightarrow> v | Some (VFloat v) \<Rightarrow> f2i v | _ \<Rightarrow> 0)"

definition GetEnvvar :: "('f gval \<Rightarrow> string) \<Rightarrow> 'f gmap \<Rightarrow> string \<Rightarrow> string \<times> bool" where
  "GetEnvvar pv m varName = (case m varName of Some v \<Rightarrow> (pv v, True) | None \<Rightarrow> ([], False))"

definition Map_Str :: "('f gval \<Rightarrow> string) \<Rightarrow> 'f gmap \<Rightarrow> string \<Rightarrow> string" where
  "Map_Str pv m key = (case m key of None \<Rightarrow> [] | Some v \<Rightarrow> pv v)"

definition Map_Float :: "(int \<Rightarrow> 'f) \<Rightarrow> 'f \<Rightarrow> 'f gmap \<Rightarrow> string \<Rightarrow> 'f" where
  "Map_Float i2f fzero m key =
     (case m key of Some (VFloat v) \<Rightarrow> v | Some (VInt v) \<Rightarrow> i2f v | _ \<Rightarrow> fzero)"

definition IncFloatValue :: "(int \<Rightarrow> 'f) \<Rightarrow> 'f \<Rightarrow> ('f \<Rightarrow> 'f \<Rightarrow> 'f) \<Rightarrow> 'f gmap \<Rightarrow> string \<Rightarrow> 'f \<Rightarrow> 'f gmap" where
  "IncFloatValue i2f fzero fadd m key value = m(key \<mapsto> VFloat (fadd (Map_Float i2f fzero m key) value))"

definition IncIntValue :: "('f \<Rightarrow> int) \<Rightarrow> 'f gmap \<Rightarrow> string \<Rightarrow> int \<Rightarrow> 'f gmap" where
  "IncIntValue f2i m key value = m(key \<mapsto> VInt (signed_take_bit 63 (Map_Int f2i m key + value)))"

text \<open>\<open>IntfToMap\<close>: the address of a map, a new one for \<^verbatim>\<open>map[interface{}]interface{}\<close>; \<open>None\<close> is not ok.\<close>

definition IntfToMap :: "('f gval \<Rightarrow> string) \<Rightarrow> 'f gval \<Rightarrow> 'f mstate \<Rightarrow> nat option \<times> 'f mstate" where
  "IntfToMap pv v st =
     (case v of
        VMap a \<Rightarrow> (Some a, st)
      | VStrMap a \<Rightarrow> (Some a, st)
      | VAnyMap kvs \<Rightarrow>
          (let (a, st) = alloc (foldl (\<lambda>m (k, v). m(pv k \<mapsto> v)) Map.empty kvs) st in (Some a, st))
      | _ \<Rightarrow> (None, st))"

definition Map_Map :: "('f gval \<Rightarrow> string) \<Rightarrow> nat \<Rightarrow> string \<Rightarrow> 'f mstate \<Rightarrow> nat option \<times> 'f mstate" where
  "Map_Map pv m key st =
     (let v = (case ms_heap st m key of Some v \<Rightarrow> v | None \<Rightarrow> VNil) in
      case v of VStrMap a \<Rightarrow> (Some a, st) | _ \<Rightarrow> IntfToMap pv v st)"

fun to_maps :: "('f gval \<Rightarrow> string) \<Rightarrow> 'f gval list \<Rightarrow> 'f mstate \<Rightarrow> nat list \<times> 'f mstate" where
  "to_maps pv [] st = ([], st)"
| "to_maps pv (v # vs) st =
     (let (r, st) = IntfToMap pv v st; (as, st) = to_maps pv vs st
      in (case r of Some a \<Rightarrow> a # as | None \<Rightarrow> as, st))"

definition MapSlice :: "('f gval \<Rightarrow> string) \<Rightarrow> 'f gval \<Rightarrow> 'f mstate \<Rightarrow> (nat list \<times> 'f mstate) outcome" where
  "MapSlice pv v st =
     (case v of
        VMaps as \<Rightarrow> Ok (as, st)
      | VStrMaps as \<Rightarrow> Ok (as, st)
      | VList vs \<Rightarrow> Ok (to_maps pv vs st)
      | _ \<Rightarrow> conversion_panic)"

definition Map_MapSlice :: "('f gval \<Rightarrow> string) \<Rightarrow> nat \<Rightarrow> string \<Rightarrow> 'f mstate \<Rightarrow> (nat list \<times> 'f mstate) outcome" where
  "Map_MapSlice pv m key st =
     (case ms_heap st m key of None \<Rightarrow> Ok ([], st) | Some v \<Rightarrow> MapSlice pv v st)"

fun to_floats :: "'f gval list \<Rightarrow> 'f list outcome" where
  "to_floats [] = Ok []"
| "to_floats (v # vs) =
     (case v of VFloat x \<Rightarrow> obind (to_floats vs) (\<lambda>xs. Ok (x # xs)) | _ \<Rightarrow> conversion_panic)"

definition FloatSlice :: "'f gmap \<Rightarrow> string \<Rightarrow> 'f list outcome" where
  "FloatSlice m key = (case m key of Some (VList vs) \<Rightarrow> to_floats vs | _ \<Rightarrow> conversion_panic)"

fun to_strings :: "'f gval list \<Rightarrow> string list outcome" where
  "to_strings [] = Ok []"
| "to_strings (v # vs) =
     (case v of VStr x \<Rightarrow> obind (to_strings vs) (\<lambda>xs. Ok (x # xs)) | _ \<Rightarrow> conversion_panic)"

definition StringSlice :: "'f gval \<Rightarrow> string list outcome" where
  "StringSlice v =
     (case v of VStrs ss \<Rightarrow> Ok ss | VList vs \<Rightarrow> to_strings vs | _ \<Rightarrow> Ok [])"

definition Map_StringSlice :: "'f gmap \<Rightarrow> string \<Rightarrow> string list outcome" where
  "Map_StringSlice m key = (case m key of None \<Rightarrow> Ok [] | Some v \<Rightarrow> StringSlice v)"

subsection \<open>Inheritance\<close>

definition cBaseObjNameKeyName :: string where "cBaseObjNameKeyName = ''__base_obj_name__''"
definition cObjNameKeyName :: string where "cObjNameKeyName = ''__name__''"

text \<open>
  Results that may need more fuel: \<open>None\<close> is a recursion that is not finished, which for the code
  means a deeper stack.
\<close>

type_synonym 'a fuelled = "'a outcome option"

fun fbind :: "'a fuelled \<Rightarrow> ('a \<Rightarrow> 'b fuelled) \<Rightarrow> 'b fuelled" where
  "fbind None f = None"
| "fbind (Some (Ok a)) f = f a"
| "fbind (Some (Err e)) f = Some (Err e)"
| "fbind (Some (Panic p)) f = Some (Panic p)"

text \<open>
  A \<open>getBaseObjFunc\<close> is the list of the maps its closures were made for, innermost first; the empty
  list is the nil function. The result is a map or nil.
\<close>

fun base_lookup :: "nat list \<Rightarrow> string \<Rightarrow> 'f mstate \<Rightarrow> nat option outcome" where
  "base_lookup [] key st = Ok None"
| "base_lookup (m # pf) key st =
     (case ms_heap st m key of
        Some (VStrMap a) \<Rightarrow> Ok (Some a)
      | Some _ \<Rightarrow> conversion_panic
      | None \<Rightarrow> base_lookup pf key st)"

definition call_getBaseObj :: "nat list \<Rightarrow> string \<Rightarrow> 'f mstate \<Rightarrow> nat option outcome" where
  "call_getBaseObj f key st = (if f = [] then nil_panic else base_lookup f key st)"

definition obj :: "nat option \<Rightarrow> 'f mstate \<Rightarrow> 'f gmap" where
  "obj a st = (case a of None \<Rightarrow> Map.empty | Some a \<Rightarrow> ms_heap st a)"

text \<open>
  \<open>copyValue\<close>, given what its call of \<open>inheritObj\<close> does to a source and a new map. The new slice is
  made with the length of the old one and then appended to.
\<close>

fun copyValue :: "(nat \<Rightarrow> nat \<Rightarrow> 'f mstate \<Rightarrow> 'f mstate fuelled) \<Rightarrow> 'f gval \<Rightarrow> 'f mstate \<Rightarrow> ('f gval \<times> 'f mstate) fuelled"
  and copy_list :: "(nat \<Rightarrow> nat \<Rightarrow> 'f mstate \<Rightarrow> 'f mstate fuelled) \<Rightarrow> 'f gval list \<Rightarrow> 'f mstate \<Rightarrow> ('f gval list \<times> 'f mstate) fuelled"
where
  "copyValue inh (VStrMap a) st =
     (let (b, st) = alloc Map.empty st in fbind (inh a b st) (\<lambda>st. Some (Ok (VStrMap b, st))))"
| "copyValue inh (VList av) st =
     fbind (copy_list inh av st) (\<lambda>(nv, st). Some (Ok (VList (replicate (length av) VNil @ nv), st)))"
| "copyValue inh v st = Some (Ok (v, st))"
| "copy_list inh [] st = Some (Ok ([], st))"
| "copy_list inh (v # vs) st =
     fbind (copyValue inh v st) (\<lambda>(w, st). fbind (copy_list inh vs st) (\<lambda>(ws, st). Some (Ok (w # ws, st))))"

text \<open>
  The range over \<open>baseObj\<close> in \<open>inheritObj\<close>: the keys it has at the start, less those deleted since.
\<close>

fun copy_keys :: "(nat \<Rightarrow> nat \<Rightarrow> 'f mstate \<Rightarrow> 'f mstate fuelled) \<Rightarrow> string list \<Rightarrow> nat option \<Rightarrow> nat \<Rightarrow> 'f mstate \<Rightarrow> 'f mstate fuelled" where
  "copy_keys inh [] baseObj m st = Some (Ok st)"
| "copy_keys inh (k # ks) baseObj m st =
     (case obj baseObj st k of
        None \<Rightarrow> copy_keys inh ks baseObj m st
      | Some v \<Rightarrow>
          if ms_heap st m k \<noteq> None then copy_keys inh ks baseObj m st
          else fbind (copyValue inh v st) (\<lambda>(v, st). copy_keys inh ks baseObj m (put_key m k v st)))"

fun inheritObj :: "(nat \<Rightarrow> 'f gmap \<Rightarrow> string list) \<Rightarrow> nat \<Rightarrow> nat option \<Rightarrow> nat \<Rightarrow> nat list \<Rightarrow> 'f mstate \<Rightarrow> 'f mstate fuelled" where
  "inheritObj ord 0 baseObj m f st = None"
| "inheritObj ord (Suc n) baseObj m f st =
     fbind (case (baseObj, obj baseObj st cBaseObjNameKeyName) of
              (Some base, Some (VStr v)) \<Rightarrow>
                if v \<noteq> [] then fbind (Some (call_getBaseObj f v st)) (\<lambda>b. inheritObj ord n b base f st)
                else Some (Ok st)
            | (_, Some _) \<Rightarrow> Some conversion_panic
            | (_, None) \<Rightarrow> Some (Ok st)) (\<lambda>st.
     fbind (copy_keys (\<lambda>a b st. inheritObj ord n (Some a) b f st) (ord (ms_tick st) (obj baseObj st)) baseObj m
              (st\<lparr>ms_tick := Suc (ms_tick st)\<rparr>)) (\<lambda>st.
     Some (Ok (del_key m cBaseObjNameKeyName st))))"

definition isPrivateKey :: "string \<Rightarrow> bool" where
  "isPrivateKey k = (k = cObjNameKeyName)"

text \<open>The first loop of \<open>processMapTree\<close>: children get their name, and are the next level.\<close>

fun name_children :: "string list \<Rightarrow> nat \<Rightarrow> 'f mstate \<Rightarrow> nat list \<times> 'f mstate" where
  "name_children [] m st = ([], st)"
| "name_children (k # ks) m st =
     (if isPrivateKey k then name_children ks m st
      else case ms_heap st m k of
             Some (VStrMap o') \<Rightarrow>
               (let (os, st) = name_children ks m (put_key o' cObjNameKeyName (VStr k) st) in (o' # os, st))
           | _ \<Rightarrow> name_children ks m st)"

fun processMapTree :: "(nat \<Rightarrow> 'f gmap \<Rightarrow> string list) \<Rightarrow> nat \<Rightarrow> nat \<Rightarrow> nat list \<Rightarrow> 'f mstate \<Rightarrow> 'f mstate fuelled"
  and process_levels :: "(nat \<Rightarrow> 'f gmap \<Rightarrow> string list) \<Rightarrow> nat \<Rightarrow> nat list \<Rightarrow> nat list \<Rightarrow> 'f mstate \<Rightarrow> 'f mstate fuelled"
where
  "processMapTree ord 0 m f st = None"
| "processMapTree ord (Suc n) m f st =
     (let (nextLevels, st) = name_children (ord (ms_tick st) (ms_heap st m)) m (st\<lparr>ms_tick := Suc (ms_tick st)\<rparr>);
          getBaseObj = m # f
      in fbind (case ms_heap st m cBaseObjNameKeyName of
              None \<Rightarrow> Some (Ok st)
            | Some (VStr v) \<Rightarrow>
                (case base_lookup getBaseObj v st of
                   Ok None \<Rightarrow> Some (Panic (PErr (Errorf ''%v obj can not found'' [AStr v])))
                 | Ok (Some b) \<Rightarrow> inheritObj ord n (Some b) m f st
                 | Err e \<Rightarrow> Some (Err e)
                 | Panic p \<Rightarrow> Some (Panic p))
            | Some _ \<Rightarrow> Some conversion_panic) (\<lambda>st.
         process_levels ord n nextLevels getBaseObj st))"
| "process_levels ord n [] f st = Some (Ok st)"
| "process_levels ord n (no # nos) f st =
     fbind (processMapTree ord n no f st) (\<lambda>st. process_levels ord n nos f st)"

text \<open>\<open>ReadMap\<close> after decoding into the map \<open>m\<close>.\<close>

definition ReadMap :: "(nat \<Rightarrow> 'f gmap \<Rightarrow> string list) \<Rightarrow> nat \<Rightarrow> (nat \<times> 'f mstate) outcome \<Rightarrow> bool \<Rightarrow> (nat \<times> 'f mstate) fuelled" where
  "ReadMap ord n decoded parse =
     fbind (Some decoded) (\<lambda>(m, st).
       if parse then fbind (processMapTree ord n m [] st) (\<lambda>st. Some (Ok (m, st)))
       else Some (Ok (m, st)))"

text \<open>
  A file with a map. Opening for writing empties the file and does not create one; the encoder writes
  only if it succeeds. \<open>old\<close> is what the file held, the first result what it holds afterwards.
\<close>

definition ReadFileToMap :: "(nat \<Rightarrow> 'f gmap \<Rightarrow> string list) \<Rightarrow> nat \<Rightarrow> (bytes \<Rightarrow> (nat \<times> 'f mstate) outcome) \<Rightarrow> bytes outcome
    \<Rightarrow> bool \<Rightarrow> (nat \<times> 'f mstate) fuelled" where
  "ReadFileToMap ord n decode file parse =
     fbind (Some (CheckError file)) (\<lambda>data. ReadMap ord n (decode data) parse)"

definition WriteFileToMap :: "gerr option \<Rightarrow> ('m \<Rightarrow> bytes outcome) \<Rightarrow> 'm \<Rightarrow> bytes \<Rightarrow> bytes \<times> unit outcome" where
  "WriteFileToMap open_err encode m old =
     (case open_err of
        Some e \<Rightarrow> (old, Panic (PErr e))
      | None \<Rightarrow> (case CheckError (encode m) of
            Ok d \<Rightarrow> (d, Ok ())
          | Err e \<Rightarrow> ([], Err e)
          | Panic p \<Rightarrow> ([], Panic p)))"

definition Map_Value :: "'f gmap \<Rightarrow> string \<Rightarrow> 'f gval option" where
  "Map_Value m key = m key"

lemma WriteFileToMap_cases:
  "WriteFileToMap (Some e) encode m old = (old, Panic (PErr e))"
  "encode m = Err e \<Longrightarrow> WriteFileToMap None encode m old = ([], Panic (PErr e))"
  "encode m = Ok d \<Longrightarrow> WriteFileToMap None encode m old = (d, Ok ())"
  by (simp_all add: WriteFileToMap_def)

lemma file_roundtrip:
  "encode m = Ok d \<Longrightarrow> decode d = Ok r \<Longrightarrow>
     ReadFileToMap ord n decode (Ok (fst (WriteFileToMap None encode m old))) False = Some (Ok r)"
  by (simp add: ReadFileToMap_def WriteFileToMap_cases ReadMap_def split: prod.splits)

subsection \<open>What inheritance should give\<close>

text \<open>The object a map inherits from, by the name it carries, among the objects of \<open>R\<close>.\<close>

definition parent :: "'f gmap \<Rightarrow> 'f gmap \<Rightarrow> nat option" where
  "parent R m =
     (case m cBaseObjNameKeyName of
        Some (VStr v) \<Rightarrow> (case R v of Some (VStrMap b) \<Rightarrow> Some b | _ \<Rightarrow> None)
      | _ \<Rightarrow> None)"

text \<open>An object with its own entries first, then those of the objects it inherits from, \<open>n\<close> levels up.\<close>

fun effective :: "(nat \<Rightarrow> 'f gmap) \<Rightarrow> 'f gmap \<Rightarrow> nat \<Rightarrow> nat \<Rightarrow> 'f gmap" where
  "effective h R 0 a = (h a)(cBaseObjNameKeyName := None)"
| "effective h R (Suc n) a =
     (case parent R (h a) of
        None \<Rightarrow> (h a)(cBaseObjNameKeyName := None)
      | Some b \<Rightarrow> (effective h R n b ++ h a)(cBaseObjNameKeyName := None))"

fun scalar :: "'f gval \<Rightarrow> bool" where
  "scalar (VStrMap a) = False"
| "scalar (VList vs) = False"
| "scalar v = True"

text \<open>
  Objects \<open>S\<close> of scalar entries, whose base names are found in \<open>R\<close> and not in the object itself, and
  do not form a cycle.
\<close>

definition flat :: "(nat \<Rightarrow> 'f gmap) \<Rightarrow> 'f gmap \<Rightarrow> nat set \<Rightarrow> (nat \<Rightarrow> nat) \<Rightarrow> bool" where
  "flat h R S rank \<longleftrightarrow>
     (\<forall>a \<in> S. finite (dom (h a)) \<and> (\<forall>v \<in> ran (h a). scalar v) \<and>
        (h a cBaseObjNameKeyName = None \<or>
         (\<exists>v b. h a cBaseObjNameKeyName = Some (VStr v) \<and> v \<noteq> [] \<and> h a v = None \<and>
                R v = Some (VStrMap b) \<and> b \<in> S \<and> rank b < rank a)))"

abbreviation eff :: "(nat \<Rightarrow> 'f gmap) \<Rightarrow> 'f gmap \<Rightarrow> (nat \<Rightarrow> nat) \<Rightarrow> nat \<Rightarrow> 'f gmap" where
  "eff h R rank a \<equiv> effective h R (rank a) a"

lemma flat_cases:
  assumes "flat h R S rank" and "a \<in> S"
  obtains (root) "h a cBaseObjNameKeyName = None" "parent R (h a) = None"
    | (derived) v b where "h a cBaseObjNameKeyName = Some (VStr v)" "v \<noteq> []" "h a v = None"
        "R v = Some (VStrMap b)" "parent R (h a) = Some b" "b \<in> S" "rank b < rank a"
  using assms by (auto simp: flat_def parent_def)

lemma effective_stable:
  assumes "flat h R S rank" and "a \<in> S" and "rank a \<le> n"
  shows "effective h R n a = eff h R rank a"
proof -
  have "effective h R n a = effective h R m a" if "a \<in> S" "rank a \<le> n" "rank a \<le> m" for n m
    using that
  proof (induction n arbitrary: m a)
    case 0
    with assms(1) show ?case by (cases m) (auto elim!: flat_cases)
  next
    case (Suc n)
    show ?case using assms(1) Suc.prems(1)
    proof (cases rule: flat_cases)
      case root
      then show ?thesis by (cases m) simp_all
    next
      case (derived v b)
      then obtain m' where "m = Suc m'" using Suc.prems(3) by (cases m) auto
      with derived Suc.IH [of b m'] Suc.prems show ?thesis by simp
    qed
  qed
  with assms show ?thesis by blast
qed

lemma eff_root: "parent R (h a) = None \<Longrightarrow> eff h R rank a = (h a)(cBaseObjNameKeyName := None)"
  by (cases "rank a") simp_all

lemma eff_derived:
  assumes "flat h R S rank" and "a \<in> S" and "parent R (h a) = Some b"
  shows "eff h R rank a = (eff h R rank b ++ h a)(cBaseObjNameKeyName := None)"
proof -
  obtain n where n: "rank a = Suc n" "rank b \<le> n" "b \<in> S"
    using assms by (cases "rank a") (auto elim!: flat_cases)
  with assms effective_stable [OF assms(1) n(3,2)] show ?thesis by simp
qed

lemma eff_base: "eff h R rank a cBaseObjNameKeyName = None"
  by (cases "rank a") (auto split: option.splits)

lemma eff_ok:
  assumes "flat h R S rank" and "a \<in> S"
  shows "finite (dom (eff h R rank a)) \<and> (\<forall>v \<in> ran (eff h R rank a). scalar v)"
  using assms(2)
proof (induction "rank a" arbitrary: a rule: less_induct)
  case less
  have h: "finite (dom (h a))" "\<forall>v \<in> ran (h a). scalar v" using assms(1) less.prems by (auto simp: flat_def)
  show ?case using assms(1) less.prems
  proof (cases rule: flat_cases)
    case root
    with h show ?thesis by (auto simp: eff_root ran_def)
  next
    case (derived v b)
    with less.hyps [OF derived(7,6)] h show ?thesis
      by (auto simp: eff_derived [OF assms(1) less.prems derived(5)] ran_def)
  qed
qed

subsection \<open>Copying scalar entries\<close>

lemma copyValue_scalar: "scalar v \<Longrightarrow> copyValue inh v st = Some (Ok (v, st))"
  by (cases v) simp_all

lemma copy_list_scalars: "\<forall>v \<in> set vs. scalar v \<Longrightarrow> copy_list inh vs st = Some (Ok (vs, st))"
  by (induction vs) (simp_all add: copyValue_scalar)

lemma copy_keys_scalar:
  assumes "\<forall>v \<in> ran (ms_heap st a). scalar v" and "a \<noteq> m"
  shows "copy_keys inh ks (Some a) m st = Some (Ok (st\<lparr>ms_heap := (ms_heap st)
           (m := (ms_heap st a |` set ks) ++ ms_heap st m)\<rparr>))"
  using assms(1)
proof (induction ks arbitrary: st)
  case (Cons k ks)
  show ?case
  proof (cases "ms_heap st a k = None \<or> ms_heap st m k \<noteq> None")
    case True
    then have "(ms_heap st a |` set ks) ++ ms_heap st m = (ms_heap st a |` set (k # ks)) ++ ms_heap st m"
      by (auto simp: fun_eq_iff map_add_def restrict_map_def split: option.splits)
    moreover have "copy_keys inh (k # ks) (Some a) m st = copy_keys inh ks (Some a) m st"
      using True by (auto simp: obj_def split: option.splits)
    ultimately show ?thesis using Cons.IH [OF Cons.prems] by (simp only:)
  next
    case False
    then obtain v where v: "ms_heap st a k = Some v" "ms_heap st m k = None" by auto
    then have sc: "scalar v" using Cons.prems by (auto simp: ran_def)
    let ?st = "put_key m k v st"
    have hp: "ms_heap ?st a = ms_heap st a" "ms_heap ?st m = (ms_heap st m)(k \<mapsto> v)"
      using assms(2) by (simp_all add: put_key_def)
    have e: "(ms_heap st a |` set ks) ++ (ms_heap st m)(k \<mapsto> v) = (ms_heap st a |` set (k # ks)) ++ ms_heap st m"
      using v by (auto simp: fun_eq_iff map_add_def restrict_map_def split: option.splits)
    have upd: "?st\<lparr>ms_heap := (ms_heap ?st)(m := X)\<rparr> = st\<lparr>ms_heap := (ms_heap st)(m := X)\<rparr>" for X
      by (simp add: put_key_def)
    have "copy_keys inh (k # ks) (Some a) m st = copy_keys inh ks (Some a) m ?st"
      using v sc by (simp add: obj_def copyValue_scalar)
    also have "\<dots> = Some (Ok (?st\<lparr>ms_heap := (ms_heap ?st)(m := (ms_heap ?st a |` set ks) ++ ms_heap ?st m)\<rparr>))"
      by (rule Cons.IH) (use Cons.prems hp in simp)
    finally show ?thesis by (simp only: upd hp e)
  qed
qed (simp add: restrict_map_def map_add_def fun_eq_iff)

subsection \<open>Inheritance between objects of scalars\<close>

text \<open>The orders of iteration go through all keys.\<close>

definition ord_ok :: "(nat \<Rightarrow> 'f gmap \<Rightarrow> string list) \<Rightarrow> bool" where
  "ord_ok ord \<longleftrightarrow> (\<forall>i m. finite (dom m) \<longrightarrow> distinct (ord i m) \<and> set (ord i m) = dom m)"

text \<open>While the objects are resolved, each is as it was or complete.\<close>

definition resolving :: "(nat \<Rightarrow> 'f gmap) \<Rightarrow> 'f gmap \<Rightarrow> nat set \<Rightarrow> (nat \<Rightarrow> nat) \<Rightarrow> nat \<Rightarrow> 'f mstate \<Rightarrow> bool" where
  "resolving h R S rank r st \<longleftrightarrow> r \<notin> S \<and> ms_heap st r = R \<and>
     (\<forall>a \<in> S. ms_heap st a = h a \<or> ms_heap st a = eff h R rank a)"

text \<open>What resolving the object \<open>m\<close> leaves alone.\<close>

definition frame :: "(nat \<Rightarrow> 'f gmap) \<Rightarrow> 'f gmap \<Rightarrow> nat set \<Rightarrow> (nat \<Rightarrow> nat) \<Rightarrow> nat \<Rightarrow> 'f mstate \<Rightarrow> 'f mstate \<Rightarrow> bool" where
  "frame h R S rank m st st' \<longleftrightarrow>
     (\<forall>x. x \<noteq> m \<longrightarrow> rank m \<le> rank x \<or> x \<notin> S \<or> ms_heap st x = eff h R rank x \<longrightarrow> ms_heap st' x = ms_heap st x)"

lemma copy_complete:
  assumes "flat h R S rank" and "ord_ok ord" and "m \<in> S" and "a \<in> S" and "parent R (h m) = Some a" and "a \<noteq> m"
    and "resolving h R S rank r st" and "ms_heap st a = eff h R rank a" and "ms_heap st m = h m"
  shows "\<exists>st'. fbind (copy_keys inh (ord i (obj (Some a) st)) (Some a) m (st\<lparr>ms_tick := t\<rparr>))
              (\<lambda>st. Some (Ok (del_key m cBaseObjNameKeyName st))) = Some (Ok st') \<and>
            resolving h R S rank r st' \<and> ms_heap st' m = eff h R rank m \<and>
            (\<forall>x. x \<noteq> m \<longrightarrow> ms_heap st' x = ms_heap st x)"
proof -
  let ?st = "st\<lparr>ms_tick := t\<rparr>"
  note ok = eff_ok [OF assms(1,4)]
  have sc: "\<forall>v \<in> ran (ms_heap ?st a). scalar v" using ok assms(8) by simp
  have "set (ord i (obj (Some a) st)) = dom (eff h R rank a)"
    using assms(2,8) ok by (simp add: ord_ok_def obj_def)
  moreover have "f |` dom f = f" for f :: "'a gmap"
    by (auto simp: fun_eq_iff restrict_map_def domIff)
  ultimately have "copy_keys inh (ord i (obj (Some a) st)) (Some a) m ?st
      = Some (Ok (?st\<lparr>ms_heap := (ms_heap st)(m := eff h R rank a ++ h m)\<rparr>))"
    using copy_keys_scalar [OF sc assms(6)] assms(8,9) by simp
  then show ?thesis using assms(3,7) eff_derived [OF assms(1,3,5)]
    by (auto simp: del_key_def resolving_def)
qed

lemma inheritObj_flat:
  assumes fl: "flat h R S rank" and ord: "ord_ok ord"
  shows "resolving h R S rank r st \<Longrightarrow> m \<in> S \<Longrightarrow> parent R (h m) = Some a \<Longrightarrow> ms_heap st m = h m \<Longrightarrow>
    rank m \<le> n \<Longrightarrow> \<exists>st'. inheritObj ord n (Some a) m [r] st = Some (Ok st') \<and>
      resolving h R S rank r st' \<and> ms_heap st' m = eff h R rank m \<and> frame h R S rank m st st'"
proof (induction n arbitrary: m a st)
  case 0
  then show ?case using fl by (auto elim!: flat_cases)
next
  case (Suc n)
  from fl Suc.prems(2,3) have a: "a \<in> S" "rank a < rank m" "a \<noteq> m" by (auto elim!: flat_cases)
  let ?first = "case (Some a, obj (Some a) st cBaseObjNameKeyName) of
              (Some base, Some (VStr v)) \<Rightarrow>
                if v \<noteq> [] then fbind (Some (call_getBaseObj [r] v st)) (\<lambda>b. inheritObj ord n b base [r] st)
                else Some (Ok st)
            | (_, Some _) \<Rightarrow> Some conversion_panic
            | (_, None) \<Rightarrow> Some (Ok st)"
  have "\<exists>st1. ?first = Some (Ok st1) \<and> resolving h R S rank r st1 \<and> ms_heap st1 a = eff h R rank a \<and>
      ms_heap st1 m = h m \<and> frame h R S rank m st st1"
  proof (cases "ms_heap st a = eff h R rank a")
    case True
    then show ?thesis using Suc.prems by (auto simp: obj_def eff_base frame_def)
  next
    case False
    then have ha: "ms_heap st a = h a" using Suc.prems(1) a by (auto simp: resolving_def)
    show ?thesis using fl a(1)
    proof (cases rule: flat_cases)
      case root
      then have "eff h R rank a = h a" by (simp add: eff_root fun_upd_idem)
      with ha False show ?thesis by simp
    next
      case (derived v b)
      have "call_getBaseObj [r] v st = Ok (Some b)"
        using Suc.prems(1) derived by (simp add: call_getBaseObj_def resolving_def)
      moreover obtain st1 where st1: "inheritObj ord n (Some b) a [r] st = Some (Ok st1)"
        "resolving h R S rank r st1" "ms_heap st1 a = eff h R rank a" "frame h R S rank a st st1"
        using Suc.IH [OF Suc.prems(1) a(1) derived(5) ha] a Suc.prems(5) by auto
      moreover have "ms_heap st1 m = h m"
        using st1(4) a Suc.prems(4) by (auto simp: frame_def)
      moreover have "frame h R S rank m st st1" unfolding frame_def
      proof (intro allI impI)
        fix x assume x: "x \<noteq> m" "rank m \<le> rank x \<or> x \<notin> S \<or> ms_heap st x = eff h R rank x"
        then have "x \<noteq> a" using a False by auto
        moreover have "rank a \<le> rank x \<or> x \<notin> S \<or> ms_heap st x = eff h R rank x" using x a by auto
        ultimately show "ms_heap st1 x = ms_heap st x" using st1(4) by (simp add: frame_def)
      qed
      ultimately show ?thesis using ha derived(1,2) by (simp add: obj_def)
    qed
  qed
  then obtain st1 where st1: "?first = Some (Ok st1)" "resolving h R S rank r st1"
    "ms_heap st1 a = eff h R rank a" "ms_heap st1 m = h m" "frame h R S rank m st st1" by blast
  have un: "inheritObj ord (Suc n) (Some a) m [r] st =
      fbind (copy_keys (\<lambda>a b st. inheritObj ord n (Some a) b [r] st) (ord (ms_tick st1) (obj (Some a) st1)) (Some a) m
         (st1\<lparr>ms_tick := Suc (ms_tick st1)\<rparr>)) (\<lambda>st. Some (Ok (del_key m cBaseObjNameKeyName st)))"
    unfolding inheritObj.simps st1(1) fbind.simps ..
  obtain st' where st': "inheritObj ord (Suc n) (Some a) m [r] st = Some (Ok st')"
    "resolving h R S rank r st'" "ms_heap st' m = eff h R rank m" "\<forall>x. x \<noteq> m \<longrightarrow> ms_heap st' x = ms_heap st1 x"
    using copy_complete [OF fl ord Suc.prems(2) a(1) Suc.prems(3) a(3) st1(2-4)] unfolding un by blast
  moreover have "frame h R S rank m st st'" using st'(4) st1(5) by (simp add: frame_def)
  ultimately show ?case by blast
qed

subsection \<open>A tree of objects\<close>

lemma key_names [simp]:
  "cBaseObjNameKeyName \<noteq> cObjNameKeyName" "cObjNameKeyName \<noteq> cBaseObjNameKeyName"
  by (simp_all add: cBaseObjNameKeyName_def cObjNameKeyName_def)

lemma name_children_scalar:
  "\<forall>v \<in> ran (ms_heap st m). scalar v \<Longrightarrow> name_children ks m st = ([], st)"
proof (induction ks)
  case (Cons k ks)
  have "ms_heap st m k \<noteq> Some (VStrMap a)" for a using Cons.prems by (auto simp: ran_def)
  with Cons show ?case by (auto split: option.splits gval.splits)
qed simp

lemma process_child:
  assumes fl: "flat h R S rank" and ord: "ord_ok ord" and res: "resolving h R S rank r st"
    and o: "a \<in> S" "rank a \<le> n"
  shows "\<exists>st'. processMapTree ord (Suc n) a [r] st = Some (Ok st') \<and> resolving h R S rank r st' \<and>
           ms_heap st' a = eff h R rank a \<and>
           (\<forall>x \<in> S. ms_heap st x = eff h R rank x \<longrightarrow> ms_heap st' x = eff h R rank x)"
proof -
  let ?st = "st\<lparr>ms_tick := Suc (ms_tick st)\<rparr>"
  have "\<forall>v \<in> ran (ms_heap ?st a). scalar v"
    using res o(1) fl eff_ok [OF fl o(1)] by (auto simp: resolving_def flat_def)
  then have nc: "name_children ks a ?st = ([], ?st)" for ks by (rule name_children_scalar)
  have res': "resolving h R S rank r ?st" using res by (simp add: resolving_def)
  show ?thesis
  proof (cases "ms_heap st a = eff h R rank a")
    case True
    then show ?thesis using nc res' by (simp add: eff_base)
  next
    case False
    then have ha: "ms_heap st a = h a" using res o(1) by (auto simp: resolving_def)
    show ?thesis using fl o(1)
    proof (cases rule: flat_cases)
      case root
      then have "eff h R rank a = h a" by (simp add: eff_root fun_upd_idem)
      with ha False show ?thesis by simp
    next
      case (derived v b)
      have lk: "base_lookup [a, r] v ?st = Ok (Some b)"
        using ha derived res by (simp add: resolving_def)
      obtain st' where st': "inheritObj ord n (Some b) a [r] ?st = Some (Ok st')" "resolving h R S rank r st'"
        "ms_heap st' a = eff h R rank a" "frame h R S rank a ?st st'"
        using inheritObj_flat [OF fl ord res' o(1) derived(5) _ o(2)] ha by auto
      have "ms_heap st' x = eff h R rank x" if "x \<in> S" "ms_heap st x = eff h R rank x" for x
        using st'(3,4) that by (cases "x = a") (auto simp: frame_def)
      with st' lk nc ha derived(1) show ?thesis by (simp del: base_lookup.simps)
    qed
  qed
qed

lemma process_children:
  assumes fl: "flat h R S rank" and ord: "ord_ok ord" and n: "\<forall>a \<in> S. rank a \<le> n"
  shows "resolving h R S rank r st \<Longrightarrow> set as \<subseteq> S \<Longrightarrow>
    \<exists>st'. process_levels ord (Suc n) as [r] st = Some (Ok st') \<and> resolving h R S rank r st' \<and>
      (\<forall>x \<in> S. x \<in> set as \<or> ms_heap st x = eff h R rank x \<longrightarrow> ms_heap st' x = eff h R rank x)"
proof (induction as arbitrary: st)
  case (Cons a as)
  then have a: "a \<in> S" "rank a \<le> n" using n by auto
  obtain st1 where st1: "processMapTree ord (Suc n) a [r] st = Some (Ok st1)" "resolving h R S rank r st1"
    "ms_heap st1 a = eff h R rank a" "\<forall>x \<in> S. ms_heap st x = eff h R rank x \<longrightarrow> ms_heap st1 x = eff h R rank x"
    using process_child [OF fl ord Cons.prems(1) a] by blast
  obtain st' where "process_levels ord (Suc n) as [r] st1 = Some (Ok st')" "resolving h R S rank r st'"
    "\<forall>x \<in> S. x \<in> set as \<or> ms_heap st1 x = eff h R rank x \<longrightarrow> ms_heap st' x = eff h R rank x"
    using Cons.IH [OF st1(2)] Cons.prems(2) by auto
  with st1 show ?case by auto
qed simp

text \<open>\<open>R k = Some (VStrMap a)\<close>: the child \<open>k\<close> of the root is the object \<open>a\<close>. Every child gets its name.\<close>

definition named :: "'f gmap \<Rightarrow> string set \<Rightarrow> (nat \<Rightarrow> 'f gmap) \<Rightarrow> (nat \<Rightarrow> 'f gmap) \<Rightarrow> bool" where
  "named R ks h h' \<longleftrightarrow>
     (\<forall>a k. k \<in> ks \<and> R k = Some (VStrMap a) \<longrightarrow> h' a = (h a)(cObjNameKeyName \<mapsto> VStr k)) \<and>
     (\<forall>a. (\<forall>k \<in> ks. R k \<noteq> Some (VStrMap a)) \<longrightarrow> h' a = h a)"

lemma named_child: "named R ks h h' \<Longrightarrow> k \<in> ks \<Longrightarrow> R k = Some (VStrMap a) \<Longrightarrow> h' a = (h a)(cObjNameKeyName \<mapsto> VStr k)"
  unfolding named_def by blast

lemma named_other: "named R ks h h' \<Longrightarrow> \<forall>k \<in> ks. R k \<noteq> Some (VStrMap a) \<Longrightarrow> h' a = h a"
  unfolding named_def by blast

lemma name_children_named:
  assumes "R cObjNameKeyName = None" and "\<forall>k k' a. R k = Some (VStrMap a) \<longrightarrow> R k' = Some (VStrMap a) \<longrightarrow> k = k'"
    and "\<forall>k. R k \<noteq> Some (VStrMap r)"
  shows "ms_heap st r = R \<Longrightarrow> distinct ks \<Longrightarrow> \<exists>as st'. name_children ks r st = (as, st') \<and>
     set as = {a. \<exists>k \<in> set ks. R k = Some (VStrMap a)} \<and> named R (set ks) (ms_heap st) (ms_heap st')"
proof (induction ks arbitrary: st)
  case (Cons k ks)
  show ?case
  proof (cases "\<exists>a. R k = Some (VStrMap a)")
    case True
    then obtain a where a: "R k = Some (VStrMap a)" by blast
    then have k: "k \<noteq> cObjNameKeyName" and "a \<noteq> r" using assms(1,3) by auto
    let ?st = "put_key a cObjNameKeyName (VStr k) st"
    have "ms_heap ?st r = R" using Cons.prems(1) \<open>a \<noteq> r\<close> by (simp add: put_key_def)
    then obtain as st' where IH: "name_children ks r ?st = (as, st')"
      "set as = {a. \<exists>k \<in> set ks. R k = Some (VStrMap a)}" "named R (set ks) (ms_heap ?st) (ms_heap st')"
      using Cons.IH [of ?st] Cons.prems by auto
    have one: "R k' = Some (VStrMap a) \<longleftrightarrow> k' = k" for k' using assms(2) a by blast
    have "\<forall>k' \<in> set ks. R k' \<noteq> Some (VStrMap a)" using one Cons.prems(2) by auto
    from named_other [OF IH(3) this] have st'a: "ms_heap st' a = (ms_heap st a)(cObjNameKeyName \<mapsto> VStr k)"
      by (simp add: put_key_def)
    have "named R (set (k # ks)) (ms_heap st) (ms_heap st')" unfolding named_def
    proof (intro conjI allI impI)
      fix b k' assume k': "k' \<in> set (k # ks) \<and> R k' = Some (VStrMap b)"
      show "ms_heap st' b = (ms_heap st b)(cObjNameKeyName \<mapsto> VStr k')"
      proof (cases "b = a")
        case True
        with k' one st'a show ?thesis by simp
      next
        case False
        with k' a have "k' \<in> set ks" by auto
        with named_child [OF IH(3)] k' False show ?thesis by (simp add: put_key_def)
      qed
    next
      fix b assume b: "\<forall>k' \<in> set (k # ks). R k' \<noteq> Some (VStrMap b)"
      then have "b \<noteq> a" using a by auto
      with named_other [OF IH(3)] b show "ms_heap st' b = ms_heap st b" by (simp add: put_key_def)
    qed
    with IH a k Cons.prems(1) show ?thesis by (auto simp: isPrivateKey_def)
  next
    case False
    then have "name_children (k # ks) r st = name_children ks r st"
      using Cons.prems(1) by (auto simp: isPrivateKey_def split: option.splits gval.splits)
    moreover have "named R (set (k # ks)) h h' = named R (set ks) h h'" for h h' :: "nat \<Rightarrow> 'a gmap"
      using False by (auto simp: named_def)
    moreover have "{a. \<exists>k' \<in> set (k # ks). R k' = Some (VStrMap a)} = {a. \<exists>k' \<in> set ks. R k' = Some (VStrMap a)}"
      using False by auto
    ultimately show ?thesis using Cons.IH [of st] Cons.prems by simp
  qed
qed (simp add: named_def)

text \<open>
  A root object with child objects of scalar entries, each of which inherits from at most one
  other child, without cycles: \<open>rank\<close> goes down from an object to its base.
\<close>

definition flat_tree :: "nat \<Rightarrow> (nat \<Rightarrow> 'f gmap) \<Rightarrow> (nat \<Rightarrow> nat) \<Rightarrow> bool" where
  "flat_tree r h rank \<longleftrightarrow>
     finite (dom (h r)) \<and> h r cBaseObjNameKeyName = None \<and> h r cObjNameKeyName = None \<and>
     (\<forall>k. h r k \<noteq> Some (VStrMap r)) \<and>
     (\<forall>k k' a. h r k = Some (VStrMap a) \<longrightarrow> h r k' = Some (VStrMap a) \<longrightarrow> k = k') \<and>
     flat h (h r) {a. \<exists>k. h r k = Some (VStrMap a)} rank"

lemma parent_named: "h' = (h a)(cObjNameKeyName \<mapsto> v) \<Longrightarrow> parent R h' = parent R (h a)"
  by (simp add: parent_def)

lemma effective_named:
  assumes "flat h R S rank" and "S = {a. \<exists>k. R k = Some (VStrMap a)}" and "named R (dom R) h h'"
    and "R k = Some (VStrMap a)"
  shows "effective h' R n a = (effective h R n a)(cObjNameKeyName \<mapsto> VStr k)"
  using assms(4)
proof (induction n arbitrary: k a)
  case 0
  then have "h' a = (h a)(cObjNameKeyName \<mapsto> VStr k)" using assms(3) by (auto intro: named_child)
  then show ?case by (auto simp: fun_eq_iff)
next
  case (Suc n)
  have h': "h' a = (h a)(cObjNameKeyName \<mapsto> VStr k)" using assms(3) Suc.prems by (auto intro: named_child)
  show ?case
  proof (cases "parent R (h a)")
    case None
    then show ?thesis by (simp add: parent_named [of _ h a] h') (auto simp: fun_eq_iff)
  next
    case (Some b)
    then obtain v where "R v = Some (VStrMap b)"
      by (auto simp: parent_def split: option.splits gval.splits)
    from Suc.IH [OF this] Some show ?thesis
      by (simp add: parent_named [of _ h a] h') (auto simp: fun_eq_iff map_add_def)
  qed
qed

lemma flat_named:
  assumes fl: "flat h R S rank" and S: "S = {a. \<exists>k. R k = Some (VStrMap a)}" and nm: "named R (dom R) h h'"
    and R: "R cObjNameKeyName = None"
  shows "flat h' R S rank"
  unfolding flat_def
proof
  fix a assume a: "a \<in> S"
  then obtain k where "R k = Some (VStrMap a)" using S by blast
  then have h': "h' a = (h a)(cObjNameKeyName \<mapsto> VStr k)" using nm by (auto intro: named_child)
  have h: "finite (dom (h a))" "\<forall>v \<in> ran (h a). scalar v" using fl a by (auto simp: flat_def)
  have 1: "finite (dom (h' a)) \<and> (\<forall>v \<in> ran (h' a). scalar v)"
    using h unfolding h' by (auto simp: ran_def)
  show "finite (dom (h' a)) \<and> (\<forall>v \<in> ran (h' a). scalar v) \<and>
        (h' a cBaseObjNameKeyName = None \<or>
         (\<exists>v b. h' a cBaseObjNameKeyName = Some (VStr v) \<and> v \<noteq> [] \<and> h' a v = None \<and>
                R v = Some (VStrMap b) \<and> b \<in> S \<and> rank b < rank a))"
    using fl a
  proof (cases rule: flat_cases)
    case root
    with 1 h' show ?thesis by simp
  next
    case (derived v b)
    then have "v \<noteq> cObjNameKeyName" using R by auto
    with 1 h' derived show ?thesis by auto
  qed
qed

lemma inheritObj_cycle:
  assumes "\<forall>a \<in> S. \<exists>v b. ms_heap st a cBaseObjNameKeyName = Some (VStr v) \<and> v \<noteq> [] \<and>
             call_getBaseObj f v st = Ok (Some b) \<and> b \<in> S"
  shows "a \<in> S \<Longrightarrow> inheritObj ord n (Some a) m f st = None"
proof (induction n arbitrary: a m)
  case (Suc n)
  with assms obtain v b where "ms_heap st a cBaseObjNameKeyName = Some (VStr v)" "v \<noteq> []"
    "call_getBaseObj f v st = Ok (Some b)" "b \<in> S" by blast
  with Suc.IH show ?case by (simp add: obj_def)
qed simp

subsection \<open>Properties\<close>

text \<open>
  C17: In a tree whose objects hold scalar values and inherit from each other without a cycle,
  \<open>processMapTree\<close> returns, whatever the orders of iteration, with a recursion no deeper than the
  longest chain of bases plus two; the root is unchanged, and every object has exactly its own
  entries, those of its bases it does not define itself (the nearest first), and its name.
\<close>

theorem processMapTree_inherits:
  assumes "flat_tree r (ms_heap st) rank" and "ord_ok ord"
    and "\<forall>k a. ms_heap st r k = Some (VStrMap a) \<longrightarrow> rank a + 2 \<le> n" and "2 \<le> n"
  shows "\<exists>st'. processMapTree ord n r [] st = Some (Ok st') \<and> ms_heap st' r = ms_heap st r \<and>
    (\<forall>k a. ms_heap st r k = Some (VStrMap a) \<longrightarrow>
       ms_heap st' a = (effective (ms_heap st) (ms_heap st r) (rank a) a)(cObjNameKeyName \<mapsto> VStr k))"
proof -
  let ?R = "ms_heap st r" and ?st = "st\<lparr>ms_tick := Suc (ms_tick st)\<rparr>"
  let ?S = "{a. \<exists>k. ?R k = Some (VStrMap a)}" and ?ks = "ord (ms_tick st) (ms_heap st r)"
  obtain j where n: "n = Suc (Suc j)" using assms(4) by (metis add_2_eq_Suc le_Suc_ex)
  have ks: "distinct ?ks" "set ?ks = dom ?R" using assms(1,2) by (simp_all add: flat_tree_def ord_ok_def)
  obtain as st1 where st1: "name_children ?ks r ?st = (as, st1)" "set as = {a. \<exists>k \<in> set ?ks. ?R k = Some (VStrMap a)}"
    "named ?R (set ?ks) (ms_heap st) (ms_heap st1)"
    using name_children_named [of ?R r ?st ?ks] ks(1) assms(1) by (auto simp: flat_tree_def)
  have as: "set as = ?S" using st1(2) ks(2) by auto
  have nm: "named ?R (dom ?R) (ms_heap st) (ms_heap st1)" using st1(3) ks(2) by simp
  have r: "r \<notin> ?S" "ms_heap st1 r = ?R" using assms(1) named_other [OF nm, of r] by (auto simp: flat_tree_def)
  have fl: "flat (ms_heap st) ?R ?S rank" using assms(1) by (simp add: flat_tree_def)
  have fl1: "flat (ms_heap st1) ?R ?S rank"
    by (rule flat_named [OF fl refl nm]) (use assms(1) in \<open>simp add: flat_tree_def\<close>)
  have res: "resolving (ms_heap st1) ?R ?S rank r st1" using r by (simp add: resolving_def)
  have rk: "\<forall>a \<in> ?S. rank a \<le> j" using assms(3) n by auto
  obtain st' where st': "process_levels ord (Suc j) as [r] st1 = Some (Ok st')"
    "resolving (ms_heap st1) ?R ?S rank r st'" "\<forall>x \<in> ?S. ms_heap st' x = eff (ms_heap st1) ?R rank x"
    using process_children [OF fl1 assms(2) rk res, of as] as by auto
  have "processMapTree ord n r [] st = Some (Ok st')"
    using st1(1) st'(1) r(2) assms(1) by (simp add: n flat_tree_def Let_def del: process_levels.simps)
  moreover have "ms_heap st' a = (effective (ms_heap st) ?R (rank a) a)(cObjNameKeyName \<mapsto> VStr k)"
    if "?R k = Some (VStrMap a)" for k a
    using st'(3) effective_named [OF fl refl nm that] that by auto
  ultimately show ?thesis using st'(2) by (auto simp: resolving_def)
qed

theorem processMapTree_inherits_witness:
  "\<exists>st'. processMapTree (\<lambda>i m. sorted_list_of_set (dom m)) 3 0 []
      \<lparr>ms_heap = (\<lambda>a. Map.empty)(0 := [''a'' \<mapsto> VStrMap 1, ''b'' \<mapsto> VStrMap 2],
         1 := [''port'' \<mapsto> (VInt 22 :: int gval)],
         2 := [''host'' \<mapsto> VStr ''h'', cBaseObjNameKeyName \<mapsto> VStr ''a'']), ms_next = 3, ms_tick = 0\<rparr> = Some (Ok st') \<and>
    ms_heap st' 2 = [''port'' \<mapsto> VInt 22, ''host'' \<mapsto> VStr ''h'', cObjNameKeyName \<mapsto> VStr ''b'']"
proof -
  let ?h = "(\<lambda>a. Map.empty)(0 := [''a'' \<mapsto> VStrMap 1, ''b'' \<mapsto> VStrMap 2], 1 := [''port'' \<mapsto> (VInt 22 :: int gval)],
         2 := [''host'' \<mapsto> VStr ''h'', cBaseObjNameKeyName \<mapsto> VStr ''a''])"
  let ?st = "\<lparr>ms_heap = ?h, ms_next = 3, ms_tick = 0\<rparr>" and ?rank = "\<lambda>a::nat. if a = 2 then 1 else 0 :: nat"
  have "flat_tree 0 (ms_heap ?st) ?rank"
    by (auto simp: flat_tree_def flat_def ran_def cBaseObjNameKeyName_def cObjNameKeyName_def split: if_splits)
  moreover have "ord_ok (\<lambda>i (m :: int gmap). sorted_list_of_set (dom m))" by (simp add: ord_ok_def)
  moreover have "\<forall>k a. ms_heap ?st 0 k = Some (VStrMap a) \<longrightarrow> ?rank a + 2 \<le> 3" by (auto split: if_splits)
  ultimately obtain st' where st': "processMapTree (\<lambda>i m. sorted_list_of_set (dom m)) 3 0 [] ?st = Some (Ok st')"
    "\<forall>k a. ms_heap ?st 0 k = Some (VStrMap a) \<longrightarrow>
       ms_heap st' a = (effective (ms_heap ?st) (ms_heap ?st 0) (?rank a) a)(cObjNameKeyName \<mapsto> VStr k)"
    using processMapTree_inherits [of 0 ?st ?rank "\<lambda>i m. sorted_list_of_set (dom m)" 3] by auto
  have "ms_heap ?st 0 ''b'' = Some (VStrMap 2)" by simp
  with st'(2) have "ms_heap st' 2 = (effective (ms_heap ?st) (ms_heap ?st 0) (?rank 2) 2)(cObjNameKeyName \<mapsto> VStr ''b'')"
    by blast
  also have "\<dots> = [''port'' \<mapsto> VInt 22, ''host'' \<mapsto> VStr ''h'', cObjNameKeyName \<mapsto> VStr ''b'']"
    by (auto simp: parent_def fun_eq_iff cBaseObjNameKeyName_def cObjNameKeyName_def map_add_def)
  finally show ?thesis using st'(1) by blast
qed

text \<open>
  Objects whose bases lead round in a cycle are never resolved: no depth of recursion is enough
  to inherit from one of them, so the code exhausts its stack.
\<close>

theorem inheritObj_cycle_diverges:
  assumes "\<forall>a \<in> S. \<exists>v b. ms_heap st a cBaseObjNameKeyName = Some (VStr v) \<and> v \<noteq> [] \<and>
             base_lookup (g # f) v st = Ok (Some b) \<and> b \<in> S" and "a \<in> S"
  shows "\<forall>n m. inheritObj ord n (Some a) m (g # f) st = None"
  using inheritObj_cycle [of S st "g # f" a] assms by (simp add: call_getBaseObj_def)

theorem inheritObj_cycle_diverges_witness:
  "\<forall>n m. inheritObj (\<lambda>i m. []) n (Some 1) m [0]
     \<lparr>ms_heap = (\<lambda>a. Map.empty)(0 := [''a'' \<mapsto> VStrMap 1, ''b'' \<mapsto> VStrMap 2],
        1 := [cBaseObjNameKeyName \<mapsto> VStr ''b''], 2 := [cBaseObjNameKeyName \<mapsto> (VStr ''a'' :: int gval)]),
      ms_next = 3, ms_tick = 0\<rparr> = None"
  by (rule inheritObj_cycle_diverges [where S = "{1, 2}"]) (auto simp: cBaseObjNameKeyName_def)

text \<open>
  A slice is not copied but doubled: inheriting a slice of \<open>n\<close> scalar values gives a slice of \<open>2 n\<close>
  values, of which the first \<open>n\<close> are nil.
\<close>

theorem copyValue_slice_doubled:
  assumes "list_all scalar av"
  shows "copyValue inh (VList av) st = Some (Ok (VList (replicate (length av) VNil @ av), st))"
  using assms by (simp add: copy_list_scalars list_all_iff)

theorem copyValue_slice_doubled_witness:
  "\<forall>st. copyValue (\<lambda>a b st. None) (VList [VInt 1, VStr ''x'']) st = Some (Ok (VList [VNil, VNil, VInt 1, VStr ''x''], st))"
  using copyValue_slice_doubled [of "[VInt 1, VStr ''x'']"] by simp

end
