(* ===== verification/Common_Tasks.thy ===== *)
theory Common_Tasks
  imports Step_Systems Go_Prelude
begin

text \<open>
  \<^verbatim>\<open>common/syncaction.go\<close>: callers of \<open>RunTask\<close> and the serving goroutine as a step relation over
  their channels. \<open>SyncAction_serve\<close> in \<open>Common_Utils\<close> is the server alone.
\<close>

subsection \<open>Callers and server\<close>

text \<open>
  A caller is sending its task, waits in the \<open>select\<close>, or has returned, because its task is over or
  because the context is done. The server waits, executes the task of a caller, or is gone.
\<close>

datatype caller = CSend | CWait | CTaskOver | CCancelled

datatype server = SIdle | SRunning nat | SGone

record sync_action =
  sa_actionTasks :: "nat list"
  sa_server :: server
  sa_caller :: "nat \<Rightarrow> caller"
  sa_wt :: "nat set"
  sa_ctx_done :: bool

text \<open>
  \<open>size\<close> is the capacity of the channel; without a buffer a send meets the waiting server. \<open>panics_err\<close>
  are the callers whose task panics with an error: the deferred function closes the channel \<open>wt\<close>
  of the caller, and the recovery of \<open>serve\<close> ends the server.
\<close>

inductive sa_step :: "nat \<Rightarrow> (nat \<Rightarrow> bool) \<Rightarrow> sync_action \<Rightarrow> sync_action \<Rightarrow> bool" for cap panics_err where
  send: "sa_caller s i = CSend \<Longrightarrow> length (sa_actionTasks s) < cap \<Longrightarrow>
    sa_step cap panics_err s (s\<lparr>sa_actionTasks := sa_actionTasks s @ [i], sa_caller := (sa_caller s)(i := CWait)\<rparr>)"
| hand_over: "sa_caller s i = CSend \<Longrightarrow> cap = 0 \<Longrightarrow> sa_server s = SIdle \<Longrightarrow>
    sa_step cap panics_err s (s\<lparr>sa_server := SRunning i, sa_caller := (sa_caller s)(i := CWait)\<rparr>)"
| receive: "sa_server s = SIdle \<Longrightarrow> sa_actionTasks s = i # is \<Longrightarrow>
    sa_step cap panics_err s (s\<lparr>sa_actionTasks := is, sa_server := SRunning i\<rparr>)"
| task_over: "sa_server s = SRunning i \<Longrightarrow> \<not> panics_err i \<Longrightarrow>
    sa_step cap panics_err s (s\<lparr>sa_server := SIdle, sa_wt := insert i (sa_wt s)\<rparr>)"
| task_panics: "sa_server s = SRunning i \<Longrightarrow> panics_err i \<Longrightarrow>
    sa_step cap panics_err s (s\<lparr>sa_server := SGone, sa_wt := insert i (sa_wt s)\<rparr>)"
| server_stops: "sa_server s = SIdle \<Longrightarrow> sa_ctx_done s \<Longrightarrow>
    sa_step cap panics_err s (s\<lparr>sa_server := SGone\<rparr>)"
| returns: "sa_caller s i = CWait \<Longrightarrow> i \<in> sa_wt s \<Longrightarrow>
    sa_step cap panics_err s (s\<lparr>sa_caller := (sa_caller s)(i := CTaskOver)\<rparr>)"
| gives_up: "sa_caller s i = CWait \<Longrightarrow> sa_ctx_done s \<Longrightarrow>
    sa_step cap panics_err s (s\<lparr>sa_caller := (sa_caller s)(i := CCancelled)\<rparr>)"
| cancel: "\<not> sa_ctx_done s \<Longrightarrow> sa_step cap panics_err s (s\<lparr>sa_ctx_done := True\<rparr>)"

inductive_cases sa_stepE: "sa_step cap panics_err s t"

text \<open>\<open>StartNewSyncAction\<close>, with the first \<open>k\<close> callers about to send; the others never call.\<close>

definition StartNewSyncAction :: "nat \<Rightarrow> sync_action" where
  "StartNewSyncAction k =
     \<lparr>sa_actionTasks = [], sa_server = SIdle, sa_caller = (\<lambda>i. if i < k then CSend else CCancelled),
      sa_wt = {}, sa_ctx_done = False\<rparr>"

subsection \<open>Invariant and weight\<close>

text \<open>
  A task is in the channel, being executed or over only if its caller has sent it; a caller that
  waits has its task in one of these places, or the server has gone.
\<close>

definition sa_inv :: "nat \<Rightarrow> nat \<Rightarrow> sync_action \<Rightarrow> bool" where
  "sa_inv k cap s \<longleftrightarrow>
     length (sa_actionTasks s) \<le> cap \<and> (\<forall>i. k \<le> i \<longrightarrow> sa_caller s i = CCancelled) \<and>
     (\<forall>i. sa_caller s i = CWait \<longrightarrow> i \<in> set (sa_actionTasks s) \<or> sa_server s = SRunning i \<or> i \<in> sa_wt s) \<and>
     (\<forall>i. sa_caller s i = CTaskOver \<longrightarrow> i \<in> sa_wt s)"

fun caller_weight :: "caller \<Rightarrow> nat" where
  "caller_weight CSend = 5"
| "caller_weight CWait = 1"
| "caller_weight CTaskOver = 0"
| "caller_weight CCancelled = 0"

fun server_weight :: "server \<Rightarrow> nat" where
  "server_weight SIdle = 1"
| "server_weight (SRunning i) = 2"
| "server_weight SGone = 0"

definition sa_weight :: "nat \<Rightarrow> sync_action \<Rightarrow> nat" where
  "sa_weight k s = (\<Sum>i<k. caller_weight (sa_caller s i)) + 2 * length (sa_actionTasks s) +
     server_weight (sa_server s) + (if sa_ctx_done s then 0 else 1)"

lemma caller_sum:
  fixes f :: "nat \<Rightarrow> caller" and i k :: nat
  assumes "i < k"
  shows "(\<Sum>j<k. caller_weight ((f(i := c)) j)) + caller_weight (f i) = (\<Sum>j<k. caller_weight (f j)) + caller_weight c"
proof -
  have split: "(\<Sum>j<k. g j) = g i + (\<Sum>j\<in>{..<k} - {i}. g j)" for g :: "nat \<Rightarrow> nat"
    using assms by (intro sum.remove) auto
  have "(\<Sum>j\<in>{..<k} - {i}. caller_weight ((f(i := c)) j)) = (\<Sum>j\<in>{..<k} - {i}. caller_weight (f j))"
    by (rule sum.cong) auto
  then show ?thesis using split [of "\<lambda>j. caller_weight ((f(i := c)) j)"] split [of "\<lambda>j. caller_weight (f j)"] by simp
qed

lemma sa_step_inv:
  assumes "sa_inv k cap s" and "sa_step cap panics_err s t"
  shows "sa_inv k cap t"
  using assms(2,1) by cases (auto simp: sa_inv_def)

lemma sa_step_weight:
  assumes "sa_inv k cap s" and "sa_step cap panics_err s t"
  shows "sa_weight k t < sa_weight k s"
proof -
  have less: "i < k" if "sa_caller s i \<noteq> CCancelled" for i
    using assms(1) that unfolding sa_inv_def by (meson not_le_imp_less)
  from assms(2) show ?thesis
  proof cases
    case (send i)
    then show ?thesis using caller_sum [of i k "sa_caller s" CWait] less [of i] by (simp add: sa_weight_def)
  next
    case (hand_over i)
    then show ?thesis using caller_sum [of i k "sa_caller s" CWait] less [of i] by (simp add: sa_weight_def)
  next
    case (returns i)
    then show ?thesis using caller_sum [of i k "sa_caller s" CTaskOver] less [of i] by (simp add: sa_weight_def)
  next
    case (gives_up i)
    then show ?thesis using caller_sum [of i k "sa_caller s" CCancelled] less [of i] by (simp add: sa_weight_def)
  qed (simp_all add: sa_weight_def)
qed

interpretation sync_action: terminating_system "sa_step cap panics_err" "sa_inv k cap" "sa_weight k" for cap panics_err k
  by unfold_locales (fact sa_step_inv, fact sa_step_weight)

lemma StartNewSyncAction_inv: "sa_inv k cap (StartNewSyncAction k)"
  by (simp add: sa_inv_def StartNewSyncAction_def)

lemma sa_no_cancel_server:
  assumes "(sa_step cap (\<lambda>i. False))\<^sup>*\<^sup>* (StartNewSyncAction k) s"
  shows "\<not> sa_ctx_done s \<longrightarrow> sa_server s \<noteq> SGone \<and> (\<forall>i < k. sa_caller s i \<noteq> CCancelled)"
  using assms
proof (induction rule: rtranclp_induct)
  case (step s t)
  from step.hyps(2) step.IH show ?case by cases auto
qed (simp add: StartNewSyncAction_def)

text \<open>Without panics and before a cancellation, something other than a cancellation can happen.\<close>

lemma sa_progress:
  assumes "sa_inv k cap s" and "sa_server s \<noteq> SGone" and "i < k" and "sa_caller s i = CSend \<or> sa_caller s i = CWait"
  shows "\<exists>t. sa_step cap (\<lambda>i. False) s t \<and> sa_ctx_done t = sa_ctx_done s"
proof (cases "sa_server s")
  case (SRunning j)
  from sa_step.task_over [OF this, of "\<lambda>i. False" cap] show ?thesis by (intro exI conjI, blast) simp
next
  case SIdle
  show ?thesis
  proof (cases "sa_actionTasks s")
    case (Cons j js)
    show ?thesis using sa_step.receive [OF SIdle Cons, of cap "\<lambda>i. False"] by (intro exI conjI, assumption) simp
  next
    case Nil
    show ?thesis
    proof (cases "sa_caller s i = CSend")
      case True
      show ?thesis
      proof (cases "cap = 0")
        case True
        from sa_step.hand_over [OF \<open>sa_caller s i = CSend\<close> True SIdle, of "\<lambda>i. False"] show ?thesis
          by (intro exI conjI, assumption) simp
      next
        case False
        then have "length (sa_actionTasks s) < cap" using Nil by simp
        from sa_step.send [OF \<open>sa_caller s i = CSend\<close> this, of "\<lambda>i. False"] show ?thesis
          by (intro exI conjI, assumption) simp
      qed
    next
      case False
      then have w: "sa_caller s i = CWait" using assms(4) by simp
      then have "i \<in> sa_wt s" using assms(1) Nil SIdle by (auto simp: sa_inv_def)
      from sa_step.returns [OF w this, of cap "\<lambda>i. False"] show ?thesis by (intro exI conjI, assumption) simp
    qed
  qed
qed (use assms(2) in simp)

lemma sa_stuck_step:
  assumes "sa_step cap panics_err s t" and "sa_server s = SGone" and "cap \<le> length (sa_actionTasks s)"
    and "sa_caller s i = CSend"
  shows "sa_server t = SGone \<and> cap \<le> length (sa_actionTasks t) \<and> sa_caller t i = CSend"
  using assms by cases auto

subsection \<open>Properties\<close>

text \<open>
  C34: If no task panics, all \<open>k\<close> callers of \<open>RunTask\<close> are served, for every size of the channel and
  every interleaving: no run has more than \<open>5 k + 2\<close> steps, and until the context is cancelled a
  run can always go on until every caller has returned with its task executed.
\<close>

theorem RunTask_served:
  assumes "(sa_step cap (\<lambda>i. False) ^^ n) (StartNewSyncAction k) s" and "\<not> sa_ctx_done s"
  shows "n \<le> 5 * k + 2 \<and>
    ((\<exists>t. sa_step cap (\<lambda>i. False) s t \<and> \<not> sa_ctx_done t) \<or>
     (\<forall>i < k. sa_caller s i = CTaskOver \<and> i \<in> sa_wt s))"
proof -
  note run = relpowp_imp_rtranclp [OF assms(1)]
  have inv: "sa_inv k cap s" by (rule sync_action.run_inv [OF run StartNewSyncAction_inv])
  have "n \<le> sa_weight k (StartNewSyncAction k)"
    by (rule sync_action.run_bound [OF assms(1) StartNewSyncAction_inv])
  also have "\<dots> = 5 * k + 2" by (simp add: sa_weight_def StartNewSyncAction_def)
  finally have "n \<le> 5 * k + 2" .
  moreover have srv: "sa_server s \<noteq> SGone" "\<forall>i < k. sa_caller s i \<noteq> CCancelled"
    using sa_no_cancel_server [OF run] assms(2) by auto
  have "(\<exists>t. sa_step cap (\<lambda>i. False) s t \<and> \<not> sa_ctx_done t) \<or> (\<forall>i < k. sa_caller s i = CTaskOver \<and> i \<in> sa_wt s)"
  proof (cases "\<exists>i < k. sa_caller s i = CSend \<or> sa_caller s i = CWait")
    case True
    then show ?thesis using sa_progress [OF inv srv(1)] assms(2) by blast
  next
    case False
    then have "\<forall>i < k. sa_caller s i = CTaskOver" using srv(2) caller.exhaust by metis
    then show ?thesis using inv by (auto simp: sa_inv_def)
  qed
  ultimately show ?thesis by blast
qed

text \<open>
  Once the server has gone, by a panicking task or a cancelled context, and the channel is full,
  a caller that is still sending its task never returns, not even when the context is done: the
  send stands outside of the \<open>select\<close>.
\<close>

theorem RunTask_blocked_forever:
  assumes "sa_server s = SGone" and "cap \<le> length (sa_actionTasks s)" and "sa_caller s i = CSend"
    and "(sa_step cap panics_err)\<^sup>*\<^sup>* s t"
  shows "sa_caller t i = CSend"
proof -
  have "sa_server t = SGone \<and> cap \<le> length (sa_actionTasks t) \<and> sa_caller t i = CSend"
    using assms(4,1-3)
  proof (induction rule: rtranclp_induct)
    case (step t u)
    then show ?case using sa_stuck_step [OF step.hyps(2)] by blast
  qed simp
  then show ?thesis by simp
qed

text \<open>A run that ends so: two callers of an unbuffered channel, the first with a panicking task.\<close>

lemma blocked_run:
  "(sa_step 0 (\<lambda>i. i = 0))\<^sup>*\<^sup>* (StartNewSyncAction 2)
     \<lparr>sa_actionTasks = [], sa_server = SGone, sa_caller = (\<lambda>i. if i < 2 then CSend else CCancelled)(0 := CWait),
      sa_wt = {0}, sa_ctx_done = False\<rparr>"
proof -
  let ?p = "\<lambda>i :: nat. i = 0"
  let ?s = "\<lambda>srv wt. \<lparr>sa_actionTasks = [], sa_server = srv,
    sa_caller = (\<lambda>i. if i < 2 then CSend else CCancelled)(0 := CWait), sa_wt = wt, sa_ctx_done = False\<rparr>"
  have "sa_step 0 ?p (StartNewSyncAction 2) (?s (SRunning 0) {})"
    using sa_step.hand_over [of "StartNewSyncAction 2" 0 0 ?p] by (simp add: StartNewSyncAction_def)
  moreover have "sa_step 0 ?p (?s (SRunning 0) {}) (?s SGone {0})"
    using sa_step.task_panics [of "?s (SRunning 0) {}" 0 ?p 0] by simp
  ultimately show ?thesis by (meson converse_rtranclp_into_rtranclp rtranclp.rtrancl_refl)
qed

text \<open>Three callers, of which the first has sent its task.\<close>

theorem RunTask_served_witness:
  "\<exists>s. sa_caller s 0 = CWait \<and> sa_caller s 1 = CSend \<and> \<not> sa_ctx_done s \<and>
     (\<exists>t. sa_step 2 (\<lambda>i. False) s t \<and> \<not> sa_ctx_done t)"
proof -
  let ?s = "(StartNewSyncAction 3)\<lparr>sa_actionTasks := [0], sa_caller := (sa_caller (StartNewSyncAction 3))(0 := CWait)\<rparr>"
  have step: "sa_step 2 (\<lambda>i. False) (StartNewSyncAction 3) ?s"
    using sa_step.send [of "StartNewSyncAction 3" 0 2 "\<lambda>i. False"] by (simp add: StartNewSyncAction_def)
  have "(sa_step 2 (\<lambda>i. False) ^^ 1) (StartNewSyncAction 3) ?s"
    unfolding relpowp_1 by (rule step)
  moreover have s: "sa_caller ?s 0 = CWait" "sa_caller ?s 1 = CSend" "\<not> sa_ctx_done ?s"
    by (simp_all add: StartNewSyncAction_def)
  ultimately have "(\<exists>t. sa_step 2 (\<lambda>i. False) ?s t \<and> \<not> sa_ctx_done t) \<or>
      (\<forall>i < 3. sa_caller ?s i = CTaskOver \<and> i \<in> sa_wt ?s)"
    using RunTask_served [of 1 2 3 ?s] by blast
  then have "\<exists>t. sa_step 2 (\<lambda>i. False) ?s t \<and> \<not> sa_ctx_done t"
    using s(1) by (metis caller.distinct(7) zero_less_numeral)
  with s show ?thesis by blast
qed

theorem RunTask_blocked_forever_witness:
  "sa_caller (\<lparr>sa_actionTasks = [], sa_server = SGone, sa_caller = (\<lambda>i. if i < 2 then CSend else CCancelled)(0 := CWait),
      sa_wt = {0}, sa_ctx_done = True\<rparr>) 1 = CSend"
proof (rule RunTask_blocked_forever)
  let ?s = "\<lambda>d. \<lparr>sa_actionTasks = [], sa_server = SGone, sa_caller = (\<lambda>i. if i < 2 then CSend else CCancelled)(0 := CWait),
      sa_wt = {0}, sa_ctx_done = d\<rparr>"
  have "sa_step 0 (\<lambda>i. i = 0) (?s False) (?s True)"
    using sa_step.cancel [of "?s False" 0 "\<lambda>i. i = 0"] by simp
  then show "(sa_step 0 (\<lambda>i. i = 0))\<^sup>*\<^sup>* (?s False) (?s True)" by blast
qed simp_all

end
