(* ===== verification/Spec2Isabelle.thy ===== *)
theory Spec2Isabelle
  imports Net_Buffers Net_Shared Net_Tunnel Net_Http Net_Client Web_Params Db_Cuid Db_Database Ssh_Manager Ssh_Forward
    Common_Map Common_Tasks Common_Sys
begin

text \<open>
  \<^bold>\<open>gopub\<close>, a Go library of server utilities. Its packages under \<^verbatim>\<open>src/\<close> and their parts:

  \<^item> \<^verbatim>\<open>cipher2\<close>: padding, AES in ECB and CBC mode, MD5, a stream cipher, RSA signatures.
  \<^item> \<^verbatim>\<open>netserve\<close>: servers for TCP, UDP and HTTP. A group of listeners (\<^verbatim>\<open>servegroup.go\<close>,
    \<^verbatim>\<open>netserve.go\<close>) makes a connection object (\<^verbatim>\<open>conn.go\<close>) per peer; its handler reads a request
    through a transport cipher (\<^verbatim>\<open>transcipher.go\<close>), which keeps its keys and counters in a context
    (\<^verbatim>\<open>context.go\<close>), decodes it (\<^verbatim>\<open>pdecoder.go\<close>) and hands it to the application. Beside it stand a
    file server and wrappers of HTTP handlers.
  \<^item> \<^verbatim>\<open>netutils\<close>: request parameters and their signatures, replies, an HTTP client, IP regions.
  \<^item> \<^verbatim>\<open>dbutils\<close>: identifiers and column types, a MySQL dialect, sessions and a configuration table.
  \<^item> \<^verbatim>\<open>sshutil\<close>: SSH connections through several dialers with back-off, port forwarding, a proxy.
  \<^item> \<^verbatim>\<open>common\<close>: errors, maps with inheritance, templates, time and task runners used by the others.

  \<^bold>\<open>Conventions.\<close> A Go function with results \<open>(T, error)\<close> is a function into \<open>T outcome\<close>: \<open>Ok\<close>, \<open>Err\<close>, or
  \<open>Panic\<close> with an error or a string, because recovery code tells the two apart (\<open>Go_Prelude\<close>). A
  slice is a list of bytes; where a routine writes to an array that others see (\<open>Cipher_Ecb\<close>, with the panic of
  \<^verbatim>\<open>crypto/aes\<close> on slices that overlap inexactly) or
  reaches one map on several ways (\<open>Common_Map\<close>) there is an explicit array or heap. Wire fields
  and checksums are words of their width; \<open>int\<close> and \<open>len\<close> are unbounded integers, and the width of a
  Go \<open>int64\<close> is kept where it can overflow (\<open>i64\<close> in \<open>Std_Net\<close>). A loop that may not end is a
  \<open>partial_function (option)\<close> or has fuel, and \<open>None\<close> is a call that does not return; theorems
  about such code state that it returns, or when it does not. Iteration over a Go map takes
  its order as an argument. Goroutines and channels are step relations, with one rule per channel
  operation (in \<open>Net_Shared\<close> one per operation of a connection). What the operating system, a peer, a database or a third-party package answers is an
  argument of the definitions, and what is documented of it a hypothesis of the theorems
  (\<open>literal_rules\<close>, \<open>table_server\<close>). \<open>time.Local\<close> is a fixed offset from UTC, but in the rotation of log
  tables, where the offset is a function of the instant; times are parsed as in Go up to version 1.16.

  \<^bold>\<open>Theories.\<close> \<open>Go_Prelude\<close>: outcomes, slices, bytes and encodings, with the collections
  \<open>outcome_simps\<close> and \<open>bytes_simps\<close>. \<open>Step_Systems\<close>: the locales of step relations with an invariant
  and with a weight. The standard library the code relies on, written out: \<open>Std_Aes\<close>, \<open>Std_Md5\<close>,
  \<open>Std_Base64\<close>, \<open>Std_Bufio\<close>, \<open>Std_Writer\<close>, \<open>Std_Strings\<close>, \<open>Std_Regexp\<close>, \<open>Std_Utf8\<close>, \<open>Std_Url\<close>, \<open>Std_Path\<close>, \<open>Std_Net\<close>,
  \<open>Std_Time\<close>.

  \<^item> \<open>Cipher_Pad\<close> (\<^verbatim>\<open>cipher2/pad.go\<close>): the locale \<open>padding\<close>, interpreted by PKCS#7; unpadding is exactly
    the inverse. \<open>Block_Modes\<close>: the locales \<open>block_cipher\<close>, \<open>block_mode\<close>, \<open>chained_cipher\<close> and
    \<open>padded_mode\<close>, interpreted by AES (\<open>Std_Aes\<close>) and its CBC mode (\<open>Cipher_Crypt\<close>).
  \<^item> \<open>Cipher_Ecb\<close> (\<^verbatim>\<open>ecbaes.go\<close>), \<open>Cipher_Crypt\<close> (\<^verbatim>\<open>crypt.go\<close>), \<open>Cipher_Sig\<close> (\<^verbatim>\<open>sig.go\<close>, RSA as a record of
    functions): refinement of the block-wise specification and round trips.
  \<^item> \<open>Net_Context\<close> (\<^verbatim>\<open>context.go\<close>): stream sizes, duplicate check between goroutines, table of UDP
    contexts. \<open>Net_Wire\<close>, \<open>Net_Sz\<close>, \<open>Net_Line\<close> (\<^verbatim>\<open>transcipher.go\<close>): frames, the RSA and AES protocol, the
    line ciphers. \<open>Net_Buffers\<close>: the line ciphers over the array of their caller. \<open>Net_Decoder\<close> (\<^verbatim>\<open>pdecoder.go\<close>). \<open>Net_Conn\<close> (\<^verbatim>\<open>conn.go\<close>): a request from the wire to its
    handler, and the recovery from panics. \<open>Net_Peer\<close> (\<^verbatim>\<open>conn.go\<close>): the life of a connection
    over the locale \<open>noting_writer\<close> of \<open>Std_Writer\<close>: the peer receives what the cipher produced, and
    how it is cut into datagrams.
    \<open>Net_Serve\<close> (\<^verbatim>\<open>netserve.go\<close>, \<^verbatim>\<open>servegroup.go\<close>): listeners and groups.
    \<open>Net_Shared\<close>: the goroutines of the datagrams of a UDP server as a step system of whole operations; answers of a
    line cipher keep apart, those of \<open>szcipher\<close> on one context do not, in any run of two requests that are both
    read before one is answered.
    \<open>Net_Tunnel\<close> (\<^verbatim>\<open>context.go\<close>, \<^verbatim>\<open>tunneltask.go\<close>): goroutines that look up the context of their peer through the
    tunnel of tasks (locale \<open>tunnel_tasks\<close>), and the table they share. \<open>Net_Http\<close> (\<^verbatim>\<open>fileserver.go\<close>,
    \<^verbatim>\<open>webserve.go\<close>): the names the file server opens, the wrappers of handlers.
  \<^item> \<open>Web_Values\<close>, \<open>Web_Params\<close>, \<open>Ip_Region\<close> (\<^verbatim>\<open>netutils\<close>): parameters and addresses; parameters of a
    struct, their signature and its verification; lookup by binary search against linear search.
    \<open>Net_Client\<close> (\<^verbatim>\<open>httpclient.go\<close>, \<^verbatim>\<open>mapurl.go\<close>, \<^verbatim>\<open>testutils/testreq.go\<close>): the client and its requests, a URL
    with parameters, the test requests; \<^verbatim>\<open>net/http\<close> and \<^verbatim>\<open>net/url\<close> parsing are parameters.
  \<^item> \<open>Db_Cuid\<close>, \<open>Db_Types\<close>, \<open>Db_Dialect\<close>, \<open>Db_Session\<close>, \<open>Db_Database\<close> (\<^verbatim>\<open>dbutils\<close>): when identifiers are unique and when
    they repeat, text forms and what their missing zone does, a literal is read as one string in the default mode of the server (and
    not in another), columns and rows, the rotation of log tables with the rewriting of their definition,
    the configuration a reader sees between rounds of updates, from complete answers and from those cut short.
  \<^item> \<open>Ssh_Connect\<close> (\<^verbatim>\<open>connetToSSH\<close>): one call with its goroutines as a terminating system.
    \<open>Ssh_Dialer\<close> (\<^verbatim>\<open>sshutil\<close>): back-off, the manager's loop as a step system, host keys, proxies.
    \<open>Ssh_Manager\<close> puts both together: the manager from \<open>Init\<close> on, with the goroutines its calls leave behind,
    simulates the loop and keeps its dialers.
    \<open>Ssh_Forward\<close> (\<^verbatim>\<open>portfd.go\<close>, \<^verbatim>\<open>socks5proxy.go\<close>, \<^verbatim>\<open>conn.go\<close>): the two copying goroutines of a forwarded
    connection as a step system, accept loops, the choice of a connection and its test.
  \<^item> \<open>Common_Map\<close>, \<open>Common_Tasks\<close>, \<open>Common_Utils\<close>, \<open>Common_Sys\<close> (\<^verbatim>\<open>common\<close>): inheritance in a tree of objects against
    its specification; callers and server of a task runner; the pure helpers (expressions in templates over the matchers of \<open>Std_Regexp\<close>) and
    those that use files and processes, over what the system answers.

  \<^bold>\<open>Fuel.\<close> \<open>inheritObj\<close> and \<open>processMapTree\<close> take a bound on the depth of the recursion. For a tree of one
  level without cyclic inheritance every bound of at least two more than the longest chain of bases is
  enough (\<open>processMapTree_inherits\<close>), and for a cycle no bound is (\<open>inheritObj_cycle_diverges\<close>). Loops over
  events from outside (accepted connections, ticks of a timer) are recursive over the list of
  events.

  \<^bold>\<open>Not modelled.\<close> Sockets, the HTTP transport, the file system, processes, logging and the database driver
  are arguments of the definitions. Left out are routines that only pass on to them or return a field
  (\<^verbatim>\<open>ExecCmd\<close>, \<^verbatim>\<open>LoadYMLData\<close>, accessors), and \<^verbatim>\<open>ResultAsMap\<close> of \<^verbatim>\<open>testutils\<close>, which does not compile. \<^verbatim>\<open>common.Sleep\<close> is not defined in
  the repository; whether it returns true is part of the events of the loops that call it. Regular expressions other
  than those in the source and a table name of word characters are left to a parameter (\<open>name_regexp\<close>).
\<close>

end
